(* ===== verification/Prelude.thy ===== *)
theory Prelude
  imports Main "HOL-Library.Word" "HOL-Library.AList" "HOL-Library.Multiset" "HOL-Library.Sublist"
begin

text \<open>
  Shared vocabulary of the development: the Go types the invoker uses (byte strings, times,
  durations, sizes, maps, the outcome of a call), the functions of Go's \<open>strings\<close>, \<open>bytes\<close>
  and \<open>fmt\<close> packages that the sources call, and the generic lemmas on lists, association
  lists and words that the component theories rest on.

  Strings and byte slices are \<open>string\<close> (a \<open>char list\<close>, one \<open>char\<close> per byte). A Go map is
  an association list with distinct keys; a \<open>range\<close> over it visits the keys in an order that
  Go does not specify, so every operation that ranges over a map takes that order as an
  argument (\<open>gm_order\<close>), and the theorems hold for every such order. Times and durations
  are integers (nanoseconds). Sizes are 64-bit words, as \<open>units.ByteSize\<close> is a \<open>uint64\<close>.
\<close>

section \<open>Collections of proof rules\<close>

named_theorems go_simps \<open>equations that evaluate the model of a Go standard function\<close>
named_theorems acct \<open>how an operation changes the memory accounting of the container pool\<close>
named_theorems frame \<open>fields of a record that an operation leaves alone\<close>

section \<open>Types\<close>

type_synonym bytes = string
type_synonym Time = int
type_synonym Duration = int
type_synonym u64 = "64 word"

definition Nanosecond :: Duration where "Nanosecond = 1"
definition Millisecond :: Duration where "Millisecond = 1000000"
definition Second :: Duration where "Second = 1000 * Millisecond"
definition Minute :: Duration where "Minute = 60 * Second"

lemmas duration_defs = Nanosecond_def Millisecond_def Second_def Minute_def

text \<open>
  What a Go call does: it returns a value, it panics, or it blocks for ever (it waits for a
  mutex that nobody will release).
\<close>

datatype 'a outcome = Returns 'a | Panics string | Blocks

section \<open>Go strings\<close>

definition HasPrefix :: "string \<Rightarrow> string \<Rightarrow> bool" where
  "HasPrefix s p = (take (length p) s = p)"

definition HasSuffix :: "string \<Rightarrow> string \<Rightarrow> bool" where
  "HasSuffix s p = (length p \<le> length s \<and> drop (length s - length p) s = p)"

definition TrimPrefix :: "string \<Rightarrow> string \<Rightarrow> string" where
  "TrimPrefix s p = (if HasPrefix s p then drop (length p) s else s)"

definition TrimSuffix :: "string \<Rightarrow> string \<Rightarrow> string" where
  "TrimSuffix s p = (if HasSuffix s p then take (length s - length p) s else s)"

lemma HasPrefix_iff: "HasPrefix s p \<longleftrightarrow> prefix p s"
  by (metis HasPrefix_def append_take_drop_id append_eq_conv_conj prefix_def)

lemma HasPrefix_append [simp]: "HasPrefix (p @ s) p"
  by (simp add: HasPrefix_def)

lemma HasSuffix_iff: "HasSuffix s p \<longleftrightarrow> suffix p s"
proof
  assume "HasSuffix s p"
  then show "suffix p s"
    by (metis HasSuffix_def suffix_drop)
next
  assume "suffix p s"
  then obtain u where "s = u @ p" by (auto simp: suffix_def)
  then show "HasSuffix s p" by (simp add: HasSuffix_def)
qed

lemma HasSuffix_append [simp]: "HasSuffix (s @ p) p"
  by (simp add: HasSuffix_def)

lemma TrimSuffix_append [simp]: "TrimSuffix (s @ p) p = s"
  by (simp add: TrimSuffix_def)

lemma TrimPrefix_append [simp]: "TrimPrefix (p @ s) p = s"
  by (simp add: TrimPrefix_def)

lemma length_TrimSuffix_less_iff:
  "p \<noteq> [] \<Longrightarrow> length (TrimSuffix s p) < length s \<longleftrightarrow> HasSuffix s p"
  by (cases s) (auto simp: TrimSuffix_def HasSuffix_def)

lemma TrimSuffix_suffix: "HasSuffix s p \<Longrightarrow> TrimSuffix s p @ p = s"
  by (metis HasSuffix_iff TrimSuffix_append suffix_def)

section \<open>Decimal numerals: \<open>fmt\<close>'s percent-d and \<open>strconv.ParseUint\<close>\<close>

definition digit_char :: "nat \<Rightarrow> char" where
  "digit_char d = char_of (48 + d)"

definition is_digit :: "char \<Rightarrow> bool" where
  "is_digit c = (48 \<le> (of_char c :: nat) \<and> (of_char c :: nat) \<le> 57)"

definition digit_val :: "char \<Rightarrow> nat" where
  "digit_val c = of_char c - 48"

fun fmt_d :: "nat \<Rightarrow> string" where
  "fmt_d n = (if n < 10 then [digit_char n] else fmt_d (n div 10) @ [digit_char (n mod 10)])"

declare fmt_d.simps [simp del]

text \<open>The signed variant, for Go's \<open>int\<close> and \<open>int64\<close>.\<close>

definition fmt_i :: "int \<Rightarrow> string" where
  "fmt_i i = (if i < 0 then ''-'' @ fmt_d (nat (- i)) else fmt_d (nat i))"

definition fmt_t :: "bool \<Rightarrow> string" where
  "fmt_t b = (if b then ''true'' else ''false'')"

fun parse_digits :: "nat \<Rightarrow> string \<Rightarrow> nat option" where
  "parse_digits acc [] = Some acc"
| "parse_digits acc (c # cs) =
     (if is_digit c then parse_digits (10 * acc + digit_val c) cs else None)"

text \<open>\<open>strconv.ParseUint(s, 10, 64)\<close>: the empty string, a character that is not a digit and a
  value that does not fit into 64 bits are errors (here \<open>None\<close>).\<close>

definition ParseUint64 :: "string \<Rightarrow> nat option" where
  "ParseUint64 s =
     (if s = [] then None
      else case parse_digits 0 s of
             None \<Rightarrow> None
           | Some n \<Rightarrow> if n < 2 ^ 64 then Some n else None)"

lemma of_char_digit_char: "d < 10 \<Longrightarrow> (of_char (digit_char d) :: nat) = 48 + d"
  by (simp add: digit_char_def)

lemma is_digit_digit_char [simp]: "d < 10 \<Longrightarrow> is_digit (digit_char d)"
  by (simp add: is_digit_def of_char_digit_char)

lemma digit_val_digit_char [simp]: "d < 10 \<Longrightarrow> digit_val (digit_char d) = d"
  by (simp add: digit_val_def of_char_digit_char)

lemma parse_digits_append:
  "parse_digits acc (xs @ ys) =
     (case parse_digits acc xs of None \<Rightarrow> None | Some a \<Rightarrow> parse_digits a ys)"
  by (induction xs arbitrary: acc) auto

lemma fmt_d_not_Nil [simp]: "fmt_d n \<noteq> []"
  by (subst fmt_d.simps) simp

lemma fmt_d_digits: "c \<in> set (fmt_d n) \<Longrightarrow> is_digit c"
proof (induction n rule: fmt_d.induct)
  case (1 n)
  then show ?case
    by (subst (asm) (2) fmt_d.simps) (auto split: if_splits)
qed

lemma parse_digits_fmt_d: "parse_digits 0 (fmt_d n) = Some n"
proof (induction n rule: fmt_d.induct)
  case (1 n)
  then show ?case
    by (subst fmt_d.simps) (simp add: parse_digits_append)
qed

lemma ParseUint64_fmt_d: "n < 2 ^ 64 \<Longrightarrow> ParseUint64 (fmt_d n) = Some n"
  by (simp add: ParseUint64_def parse_digits_fmt_d)

lemma fmt_d_inj: "fmt_d m = fmt_d n \<Longrightarrow> m = n"
  by (metis option.inject parse_digits_fmt_d)

lemma distinct_numbered: "distinct (map (\<lambda>i. s @ fmt_d i) [a..<b])"
  unfolding distinct_map by (intro conjI distinct_upt inj_onI) (simp only: same_append_eq fmt_d_inj)

section \<open>Go maps\<close>

text \<open>\<open>m[k]\<close> for a map whose values are slices: a missing key reads as the empty slice.\<close>

definition bucket :: "('k \<times> 'v list) list \<Rightarrow> 'k \<Rightarrow> 'v list" where
  "bucket m k = (case map_of m k of None \<Rightarrow> [] | Some xs \<Rightarrow> xs)"

text \<open>All the values of all the slices, bucket by bucket.\<close>

definition flat :: "('k \<times> 'v list) list \<Rightarrow> 'v list" where
  "flat m = concat (map snd m)"

text \<open>An admissible iteration order: every key once.\<close>

definition gm_order :: "(('k \<times> 'v) list \<Rightarrow> 'k list) \<Rightarrow> bool" where
  "gm_order ord = (\<forall>m. distinct (map fst m) \<longrightarrow> mset (ord m) = mset (map fst m))"

lemma gm_order_map_fst: "gm_order (map fst)"
  by (simp add: gm_order_def)

lemma gm_order_set: "gm_order ord \<Longrightarrow> distinct (map fst m) \<Longrightarrow> set (ord m) = fst ` set m"
  by (metis gm_order_def list.set_map mset_eq_setD)

lemma gm_order_distinct: "gm_order ord \<Longrightarrow> distinct (map fst m) \<Longrightarrow> distinct (ord m)"
  by (metis gm_order_def mset_eq_imp_distinct_iff)

lemma bucket_Nil [simp]: "bucket [] k = []"
  by (simp add: bucket_def)

lemma bucket_update: "bucket (AList.update k xs m) k' = (if k' = k then xs else bucket m k')"
  by (simp add: bucket_def update_conv')

lemma bucket_delete: "bucket (AList.delete k m) k' = (if k' = k then [] else bucket m k')"
  by (simp add: bucket_def delete_conv')

lemma flat_Nil [simp]: "flat [] = []"
  by (simp add: flat_def)

lemma flat_Cons [simp]: "flat ((k, xs) # m) = xs @ flat m"
  by (simp add: flat_def)

lemma bucket_subset_flat: "set (bucket m k) \<subseteq> set (flat m)"
  by (cases "map_of m k") (auto simp: bucket_def flat_def dest!: map_of_SomeD intro: bexI [rotated])

lemma in_flat_iff_bucket:
  "distinct (map fst m) \<Longrightarrow> x \<in> set (flat m) \<longleftrightarrow> (\<exists>k. k \<in> fst ` set m \<and> x \<in> set (bucket m k))"
  by (force simp: bucket_def flat_def split: option.splits dest: map_of_SomeD
      intro: map_of_is_SomeI)

text \<open>
  Replacing one bucket replaces exactly its elements in the multiset of all elements: the
  fact behind every accounting lemma of the pool.
\<close>

lemma mset_flat_update:
  "mset (flat (AList.update k xs m)) + mset (bucket m k) = mset (flat m) + mset xs"
  by (induction m) (auto simp: bucket_def)

lemma mset_flat_delete:
  "distinct (map fst m) \<Longrightarrow> mset (flat (AList.delete k m)) + mset (bucket m k) = mset (flat m)"
proof (induction m)
  case Nil
  then show ?case by simp
next
  case (Cons p m)
  obtain a xs where p: "p = (a, xs)" by force
  show ?case
  proof (cases "a = k")
    case True
    with Cons.prems p have "k \<notin> fst ` set m" by auto
    then have "AList.delete k m = m" by (force simp: AList.delete_eq filter_id_conv)
    with True p show ?thesis by (simp add: bucket_def AList.delete_eq)
  next
    case False
    with Cons p show ?thesis
      by (simp add: bucket_def AList.delete_eq)
  qed
qed

lemma mset_flat_cut:
  assumes "mset (bucket m k) = mset gone + mset keep"
  shows "mset (flat m) = mset gone + mset (flat (AList.update k keep m))"
proof -
  have "(mset gone + mset (flat (AList.update k keep m))) + mset keep = mset (flat m) + mset keep"
    using mset_flat_update [of k keep m] assms by (simp add: ac_simps)
  then show ?thesis by (simp only: add_right_cancel)
qed

lemma mset_flat_grow:
  "mset (flat (AList.update k (bucket m k @ xs) m)) = mset (flat m) + mset xs"
  using mset_flat_update [of k "bucket m k @ xs" m] by simp

text \<open>The total weight of a list does not depend on its order.\<close>

text \<open>The elements of a list of lists when one of them is replaced.\<close>

lemma mset_concat_map_update:
  assumes "i < length xs"
  shows "mset (concat (map f (xs[i := y]))) + mset (f (xs ! i)) = mset (concat (map f xs)) + mset (f y)"
proof -
  obtain us vs where xs: "xs = us @ xs ! i # vs" and i: "i = length us"
    by (rule that [OF id_take_nth_drop [OF assms]]) (use assms in simp)
  have "xs[i := y] = us @ y # vs" by (subst xs, simp add: i)
  moreover have "concat (map f xs) = concat (map f us) @ f (xs ! i) @ concat (map f vs)"
    by (subst xs) simp
  ultimately show ?thesis by (simp add: ac_simps)
qed

lemma list_all_update: "list_all P xs \<Longrightarrow> P x \<Longrightarrow> list_all P (xs[i := x])"
  by (auto simp: list_all_iff dest!: subsetD [OF set_update_subset_insert])

lemma list_all_nthD: "list_all P xs \<Longrightarrow> i < length xs \<Longrightarrow> P (xs ! i)"
  by (simp add: list_all_length)

lemma sum_list_map_mset: "mset xs = mset ys \<Longrightarrow> sum_list (map f xs) = (sum_list (map f ys) :: nat)"
  by (metis mset_map sum_mset_sum_list)

lemma sum_list_member_le: "x \<in> set xs \<Longrightarrow> f x \<le> (sum_list (map f xs) :: nat)"
  by (simp add: member_le_sum_list)

text \<open>Replacing one element: what it changes in a sum over the list and in the number of elements with a property.\<close>

lemma sum_list_map_update:
  "i < length xs \<Longrightarrow> sum_list (map f (xs[i := y])) + f (xs ! i) = sum_list (map f xs) + (f y :: nat)"
proof (induction xs arbitrary: i)
  case (Cons x xs)
  then show ?case by (cases i) (auto simp: add.assoc add.commute add.left_commute)
qed simp

lemma filter_update_length:
  "i < length xs \<Longrightarrow> length (filter P (xs[i := y])) + (if P (xs ! i) then 1 else 0) = length (filter P xs) + (if P y then 1 else 0)"
proof (induction xs arbitrary: i)
  case (Cons x xs)
  then show ?case by (cases i) auto
qed simp

section \<open>Words\<close>

lemma unat_sub_le: "b \<le> a \<Longrightarrow> unat (a - b) = unat a - unat b" for a b :: "'a::len word"
  by (rule unat_sub)

lemma unat_plus_no_wrap: "unat a + unat b < 2 ^ LENGTH('a) \<Longrightarrow> unat (a + b) = unat a + unat b"
  for a b :: "'a::len word"
  by (simp add: unat_word_ariths)

lemma unat_lt_size64: "unat w < 2 ^ 64" for w :: u64
  using unsigned_less [of w] by (simp add: unsigned_less)

lemma unat_of_nat_small: "n < 2 ^ LENGTH('a) \<Longrightarrow> unat (of_nat n :: 'a::len word) = n"
  by (simp add: unat_of_nat)

end
