(* ===== verification/Go_Errors.thy ===== *)
theory Go_Errors
  imports Prelude
begin

text \<open>
  Go's error values. An error is a tree: \<open>fmt.Errorf\<close> with \<open>%w\<close> wraps the errors it
  names, \<open>errors.Is\<close> and \<open>errors.As\<close> search the tree depth first. The sentinel errors
  and the error types that some component tests for have constructors of their own
  (\<open>exec/container.go\<close>, \<open>exec/pool.go\<close>, \<open>entities/function.go\<close>, \<open>couchdb/client.go\<close>
  and Go's \<open>context\<close>, \<open>io\<close> and \<open>net\<close> packages); every other error is an
  \<open>ErrorString\<close>. \<open>Errorf\<close> keeps the format and the wrapped operands; its text has the texts of the operands in
  the place of the \<open>%w\<close>. Other verbs of a format stay as they are.
\<close>

type_synonym ByteSize = u64

text \<open>\<open>exec.ContainerState\<close>: the summary that \<open>docker inspect\<close> gives of a container.\<close>

record ContainerState =
  cs_Status :: string
  cs_Running :: bool
  cs_Paused :: bool
  cs_OOMKilled :: bool
  cs_Dead :: bool
  cs_ExitCode :: int
  cs_Error :: string
  cs_StartedAt :: string
  cs_FinishedAt :: string

definition ContainerStateStatusExited :: string where
  "ContainerStateStatusExited = ''exited''"

text \<open>The zero value of the struct.\<close>

definition zero_ContainerState :: ContainerState where
  "zero_ContainerState =
     \<lparr>cs_Status = '''', cs_Running = False, cs_Paused = False, cs_OOMKilled = False,
      cs_Dead = False, cs_ExitCode = 0, cs_Error = '''', cs_StartedAt = '''', cs_FinishedAt = ''''\<rparr>"

datatype go_error =
    ErrorString string
  | Errorf string "go_error list"
  | DeadlineExceeded
  | Canceled
  | IOEOF
  | ErrClosedPipe
  | NetErrClosed
  | ErrFunctionNotFound
  | ErrDocumentNotFound
  | ResponseLimitExceededError ByteSize
  | ContainerBrokenDuringReuseError ContainerState go_error

text \<open>A call that returns \<open>(T, error)\<close> and uses only one of the two.\<close>

type_synonym 'a result = "go_error + 'a"

text \<open>\<open>%+v\<close> of a container's state.\<close>

definition ContainerState_text :: "ContainerState \<Rightarrow> string" where
  "ContainerState_text s =
     ''{Status:'' @ cs_Status s @ '' Running:'' @ fmt_t (cs_Running s) @ '' Paused:'' @ fmt_t (cs_Paused s)
     @ '' OOMKilled:'' @ fmt_t (cs_OOMKilled s) @ '' Dead:'' @ fmt_t (cs_Dead s) @ '' ExitCode:'' @ fmt_i (cs_ExitCode s)
     @ '' Error:'' @ cs_Error s @ '' StartedAt:'' @ cs_StartedAt s @ '' FinishedAt:'' @ cs_FinishedAt s @ ''}''"

text \<open>The texts that the error types of the invoker give in their \<open>Error\<close> methods.\<close>

definition ResponseLimitExceeded_text :: "ByteSize \<Rightarrow> string" where
  "ResponseLimitExceeded_text n = ''response of '' @ fmt_d (unat n) @ '' bytes exceeded the response limit''"

definition ContainerBroken_text :: "ContainerState \<Rightarrow> string \<Rightarrow> string" where
  "ContainerBroken_text s cause =
     ''container is broken, likely due to user action, state: '' @ ContainerState_text s @ '', cause: '' @ cause"

text \<open>A format with its \<open>%w\<close> replaced, from left to right.\<close>

fun fill_format :: "string \<Rightarrow> string list \<Rightarrow> string" where
  "fill_format [] ts = []"
| "fill_format (c # cs) ts =
     (case ts of
        [] \<Rightarrow> c # cs
      | t # rest \<Rightarrow> if c = CHR ''%'' \<and> take 1 cs = ''w'' then t @ fill_format (drop 1 cs) rest else c # fill_format cs ts)"

text \<open>The text of an error.\<close>

fun err_text :: "go_error \<Rightarrow> string" where
  "err_text (ErrorString s) = s"
| "err_text (Errorf s es) = fill_format s (map err_text es)"
| "err_text DeadlineExceeded = ''context deadline exceeded''"
| "err_text Canceled = ''context canceled''"
| "err_text IOEOF = ''EOF''"
| "err_text ErrClosedPipe = ''io: read/write on closed pipe''"
| "err_text NetErrClosed = ''use of closed network connection''"
| "err_text ErrFunctionNotFound = ''function not found''"
| "err_text ErrDocumentNotFound = ''document not found''"
| "err_text (ResponseLimitExceededError n) = ResponseLimitExceeded_text n"
| "err_text (ContainerBrokenDuringReuseError s e) = ContainerBroken_text s (err_text e)"

text \<open>\<open>errors.Unwrap\<close>: the errors directly below an error.\<close>

fun err_unwrap :: "go_error \<Rightarrow> go_error list" where
  "err_unwrap (Errorf s es) = es"
| "err_unwrap (ContainerBrokenDuringReuseError s e) = [e]"
| "err_unwrap e = []"

text \<open>All errors of the tree in the order in which \<open>errors.Is\<close> and \<open>errors.As\<close> visit
  them: an error before what it unwraps to.\<close>

fun err_chain :: "go_error \<Rightarrow> go_error list" where
  "err_chain (Errorf s es) = Errorf s es # concat (map err_chain es)"
| "err_chain (ContainerBrokenDuringReuseError s e) =
     ContainerBrokenDuringReuseError s e # err_chain e"
| "err_chain e = [e]"

definition errors_Is :: "go_error \<Rightarrow> go_error \<Rightarrow> bool" where
  "errors_Is e target = (target \<in> set (err_chain e))"

fun first_some :: "('a \<Rightarrow> 'b option) \<Rightarrow> 'a list \<Rightarrow> 'b option" where
  "first_some f [] = None"
| "first_some f (x # xs) = (case f x of Some y \<Rightarrow> Some y | None \<Rightarrow> first_some f xs)"

fun as_limit_exceeded :: "go_error \<Rightarrow> ByteSize option" where
  "as_limit_exceeded (ResponseLimitExceededError n) = Some n"
| "as_limit_exceeded e = None"

fun as_broken :: "go_error \<Rightarrow> ContainerState option" where
  "as_broken (ContainerBrokenDuringReuseError s e) = Some s"
| "as_broken e = None"

definition errors_As_ResponseLimitExceeded :: "go_error \<Rightarrow> ByteSize option" where
  "errors_As_ResponseLimitExceeded e = first_some as_limit_exceeded (err_chain e)"

definition errors_As_ContainerBroken :: "go_error \<Rightarrow> ContainerState option" where
  "errors_As_ContainerBroken e = first_some as_broken (err_chain e)"

lemma err_chain_self [simp]: "e \<in> set (err_chain e)"
  by (cases e) auto

lemma err_chain_not_Nil [simp]: "err_chain e \<noteq> []"
  by (cases e) auto

text \<open>The tree is what \<open>Unwrap\<close> gives, level by level.\<close>

lemma err_chain_unwrap: "err_chain e = e # concat (map err_chain (err_unwrap e))"
  by (cases e) simp_all

lemma errors_Is_unwrap: "errors_Is e t \<longleftrightarrow> e = t \<or> (\<exists>u \<in> set (err_unwrap e). errors_Is u t)"
  unfolding errors_Is_def by (subst err_chain_unwrap) auto

lemma errors_Is_self [simp]: "errors_Is e e"
  by (simp add: errors_Is_def)

text \<open>Wrapping with \<open>%w\<close> never hides an error.\<close>

lemma errors_Is_Errorf [simp]:
  "errors_Is (Errorf s es) t \<longleftrightarrow> t = Errorf s es \<or> (\<exists>e \<in> set es. errors_Is e t)"
  by (auto simp: errors_Is_def)

lemma first_some_append:
  "first_some f (xs @ ys) = (case first_some f xs of Some y \<Rightarrow> Some y | None \<Rightarrow> first_some f ys)"
  by (induction xs) (auto split: option.splits)

lemma errors_As_ContainerBroken_Errorf1 [simp]:
  "errors_As_ContainerBroken (Errorf s [e]) = errors_As_ContainerBroken e"
  by (simp add: errors_As_ContainerBroken_def)

lemma errors_As_ContainerBroken_self [simp]:
  "errors_As_ContainerBroken (ContainerBrokenDuringReuseError s e) = Some s"
  by (simp add: errors_As_ContainerBroken_def)

lemma errors_As_ResponseLimitExceeded_Errorf1 [simp]:
  "errors_As_ResponseLimitExceeded (Errorf s [e]) = errors_As_ResponseLimitExceeded e"
  by (simp add: errors_As_ResponseLimitExceeded_def)

lemma errors_As_ResponseLimitExceeded_self [simp]:
  "errors_As_ResponseLimitExceeded (ResponseLimitExceededError n) = Some n"
  by (simp add: errors_As_ResponseLimitExceeded_def)

end
