(* ===== verification/Units.thy ===== *)
theory Units
  imports Go_Errors
begin

text \<open>
  \<open>pkg/units/units.go\<close>: byte sizes, their textual form and the parser of that form.
  The parser is modelled on ASCII input (a \<open>char\<close> below 128): \<open>unicode.IsLetter\<close>,
  \<open>strings.TrimSpace\<close> and \<open>strings.ToUpper\<close> on such characters are written out. The
  floating-point billing formula \<open>GigabyteSeconds\<close> is in the theory \<open>Billing\<close>.
\<close>

section \<open>Sizes\<close>

definition Byte :: ByteSize where "Byte = 1"
definition Kilobyte :: ByteSize where "Kilobyte = 1024"
definition Megabyte :: ByteSize where "Megabyte = 1024 * 1024"
definition Gigabyte :: ByteSize where "Gigabyte = 1024 * 1024 * 1024"

lemmas size_defs = Byte_def Kilobyte_def Megabyte_def Gigabyte_def

section \<open>Characters\<close>

definition is_letter :: "char \<Rightarrow> bool" where
  "is_letter c = (let n = of_char c :: nat in (65 \<le> n \<and> n \<le> 90) \<or> (97 \<le> n \<and> n \<le> 122))"

definition is_space :: "char \<Rightarrow> bool" where
  "is_space c = (let n = of_char c :: nat in (9 \<le> n \<and> n \<le> 13) \<or> n = 32)"

definition to_upper :: "char \<Rightarrow> char" where
  "to_upper c = (let n = of_char c :: nat in if 97 \<le> n \<and> n \<le> 122 then char_of (n - 32) else c)"

definition TrimSpace :: "string \<Rightarrow> string" where
  "TrimSpace s = rev (dropWhile is_space (rev (dropWhile is_space s)))"

definition ToUpper :: "string \<Rightarrow> string" where
  "ToUpper s = map to_upper s"

section \<open>Parsing and printing\<close>

text \<open>The \<open>switch\<close> on the upper-cased unit.\<close>

definition unit_factor :: "string \<Rightarrow> ByteSize option" where
  "unit_factor u =
     (if u \<in> {''G'', ''GB'', ''GIB''} then Some Gigabyte
      else if u \<in> {''M'', ''MB'', ''MIB''} then Some Megabyte
      else if u \<in> {''K'', ''KB'', ''KIB''} then Some Kilobyte
      else if u = ''B'' then Some Byte
      else None)"

definition ParseByteSize :: "string \<Rightarrow> ByteSize result" where
  "ParseByteSize s =
     (let number = takeWhile (\<lambda>c. \<not> is_letter c) s; rest = dropWhile (\<lambda>c. \<not> is_letter c) s in
      if rest = [] then Inl (ErrorString ''failed to find unit'')
      else case ParseUint64 (TrimSpace number) of
             None \<Rightarrow> Inl (Errorf ''failed to parse number'' [ErrorString ''strconv.ParseUint''])
           | Some n \<Rightarrow>
               (case unit_factor (ToUpper (TrimSpace rest)) of
                  None \<Rightarrow> Inl (ErrorString ''invalid unit'')
                | Some f \<Rightarrow> Inr (of_nat n * f)))"

definition ByteSize_String :: "ByteSize \<Rightarrow> string" where
  "ByteSize_String bs =
     (if bs mod Gigabyte = 0 then fmt_d (unat (bs div Gigabyte)) @ '' GB''
      else if bs mod Megabyte = 0 then fmt_d (unat (bs div Megabyte)) @ '' MB''
      else if bs mod Kilobyte = 0 then fmt_d (unat (bs div Kilobyte)) @ '' KB''
      else fmt_d (unat bs) @ '' B'')"

text \<open>\<open>Decode\<close> (the \<open>envconfig\<close> hook) overwrites the receiver only on success.\<close>

definition ByteSize_Decode :: "ByteSize \<Rightarrow> string \<Rightarrow> go_error option \<times> ByteSize" where
  "ByteSize_Decode bs s =
     (case ParseByteSize s of Inl e \<Rightarrow> (Some e, bs) | Inr parsed \<Rightarrow> (None, parsed))"

text \<open>
  \<open>UnmarshalJSON\<close> reads a JSON string first (\<open>unmarshal\<close> is \<open>json.Unmarshal\<close> into a string)
  and overwrites the receiver only on success.
\<close>

definition ByteSize_UnmarshalJSON ::
  "('b \<Rightarrow> go_error + string) \<Rightarrow> ByteSize \<Rightarrow> 'b \<Rightarrow> go_error option \<times> ByteSize" where
  "ByteSize_UnmarshalJSON unmarshal bs data =
     (case unmarshal data of
        Inl e \<Rightarrow> (Some (Errorf ''failed to parse data into a string'' [e]), bs)
      | Inr str \<Rightarrow>
          (case ParseByteSize str of Inl e \<Rightarrow> (Some e, bs) | Inr parsed \<Rightarrow> (None, parsed)))"

section \<open>Lemmas\<close>

lemma digit_not_letter: "is_digit c \<Longrightarrow> \<not> is_letter c"
  by (auto simp: is_digit_def is_letter_def Let_def)

lemma digit_not_space: "is_digit c \<Longrightarrow> \<not> is_space c"
  by (auto simp: is_digit_def is_space_def Let_def)

lemma TrimSpace_fmt_d_space: "TrimSpace (fmt_d n @ '' '') = fmt_d n"
proof -
  have sp: "is_space (CHR '' '')" by (simp add: is_space_def)
  have hd_ok: "\<not> is_space (hd (fmt_d n))" and last_ok: "\<not> is_space (last (fmt_d n))"
    by (meson digit_not_space fmt_d_digits fmt_d_not_Nil hd_in_set last_in_set)+
  have "dropWhile is_space (fmt_d n @ '' '') = fmt_d n @ '' ''"
    using hd_ok by (cases "fmt_d n") auto
  moreover have "dropWhile is_space (rev (fmt_d n)) = rev (fmt_d n)"
    using last_ok by (cases "fmt_d n" rule: rev_cases) auto
  ultimately show ?thesis using sp by (simp add: TrimSpace_def)
qed

text \<open>The number and the unit of a printed size are found again.\<close>

lemma ParseByteSize_printed:
  assumes n: "n < 2 ^ 64" and u: "u \<noteq> []" "\<forall>c \<in> set u. is_letter c"
    and f: "unit_factor (ToUpper (TrimSpace u)) = Some f"
  shows "ParseByteSize (fmt_d n @ '' '' @ u) = Inr (of_nat n * f)"
proof -
  have nl: "\<forall>c \<in> set (fmt_d n @ '' ''). \<not> is_letter c"
    using fmt_d_digits digit_not_letter by (auto simp: is_letter_def)
  have "takeWhile (\<lambda>c. \<not> is_letter c) ((fmt_d n @ '' '') @ u) = fmt_d n @ '' ''"
    using nl u by (subst takeWhile_append2) (auto simp: takeWhile_eq_Nil_iff)
  moreover have "dropWhile (\<lambda>c. \<not> is_letter c) ((fmt_d n @ '' '') @ u) = u"
    using nl u by (subst dropWhile_append2) (auto simp: dropWhile_eq_self_iff)
  ultimately show ?thesis
    using u f n by (simp add: ParseByteSize_def TrimSpace_fmt_d_space ParseUint64_fmt_d)
qed

lemma printed_unit_factors:
  "unit_factor (ToUpper (TrimSpace ''GB'')) = Some Gigabyte"
  "unit_factor (ToUpper (TrimSpace ''MB'')) = Some Megabyte"
  "unit_factor (ToUpper (TrimSpace ''KB'')) = Some Kilobyte"
  "unit_factor (ToUpper (TrimSpace ''B'')) = Some Byte"
  by (simp_all add: unit_factor_def ToUpper_def TrimSpace_def to_upper_def is_space_def)

lemma div_mult_self_word: "(bs :: ByteSize) mod f = 0 \<Longrightarrow> bs div f * f = bs"
  using div_mult_mod_eq [of bs f] by simp

lemma letters_unit: "\<forall>c \<in> set ''GB''. is_letter c" "\<forall>c \<in> set ''MB''. is_letter c"
  "\<forall>c \<in> set ''KB''. is_letter c" "\<forall>c \<in> set ''B''. is_letter c"
  by (simp_all add: is_letter_def)

text \<open>
  C16. Printing a size and parsing the text gives the size back, for every 64-bit value: the
  unit chosen by \<open>String\<close> divides the value, and \<open>ParseByteSize\<close> multiplies it in again.
\<close>

theorem ParseByteSize_String: "ParseByteSize (ByteSize_String bs) = Inr bs"
proof -
  show ?thesis
    using ParseByteSize_printed [OF unat_lt_size64 _ letters_unit(1) printed_unit_factors(1)]
      ParseByteSize_printed [OF unat_lt_size64 _ letters_unit(2) printed_unit_factors(2)]
      ParseByteSize_printed [OF unat_lt_size64 _ letters_unit(3) printed_unit_factors(3)]
      ParseByteSize_printed [OF unat_lt_size64 _ letters_unit(4) printed_unit_factors(4)]
    by (simp add: ByteSize_String_def div_mult_self_word Byte_def)
qed

text \<open>
  \<open>ParseByteSize\<close> rejects a number that does not fit into 64 bits, but not a product
  that does not: the multiplication by the unit wraps around. Seventeen billion gigabytes
  (\<open>2 ^ 34\<close> GB) are read as zero bytes, without an error.
\<close>

theorem ParseByteSize_wraps: "ParseByteSize ''17179869184 GB'' = Inr 0"
proof -
  have "fmt_d 17179869184 = ''17179869184''"
    by (simp add: fmt_d.simps digit_char_def char_of_def bit_0)
  moreover have "of_nat 17179869184 * Gigabyte = 0"
    by (simp add: Gigabyte_def)
  ultimately show ?thesis
    using ParseByteSize_printed [OF _ _ letters_unit(1) printed_unit_factors(1), of 17179869184]
    by simp
qed

end
