(* ===== verification/Protocol.thy ===== *)
theory Protocol
  imports Units
begin

text \<open>
  \<open>pkg/protocol\<close>: the activation message a controller sends, the texts of the errors the
  invoker reports to users (\<open>messages.go\<close>) and the acknowledgement it sends back
  (\<open>ack.go\<close>). The parser of the activation message is not part of this theory.
\<close>

section \<open>Activation messages\<close>

record ActivationMessageFunction =
  amf_Namespace :: string
  amf_Name :: string
  amf_Version :: string
  amf_Revision :: string
  amf_Binding :: string

record InvocationIdentity =
  ii_Subject :: string
  ii_Namespace :: string
  ii_Annotations :: "(string \<times> string) list"
  ii_APIKey :: string
  ii_StoreActivations :: bool

text \<open>A \<open>map[string]json.RawMessage\<close> may be nil (\<open>None\<close>).\<close>

type_synonym raw_params = "(string \<times> bytes) list option"

record ActivationMessage =
  am_TransactionID :: string
  am_TransactionStart :: Time
  am_ActivationID :: string
  am_RootControllerIndex :: string
  am_CausedBy :: string
  am_IsBlocking :: bool
  am_Function :: ActivationMessageFunction
  am_InvocationIdentity :: InvocationIdentity
  am_Parameters :: raw_params
  am_InitParameters :: raw_params

section \<open>Error texts\<close>

definition ErrorFunctionFetch :: string where
  "ErrorFunctionFetch = ''Function could not be fetched.''"
definition ErrorFunctionNotFoundText :: string where
  "ErrorFunctionNotFoundText = ''Function could not be found or may have been deleted.''"
definition ErrorFunctionProvision :: string where
  "ErrorFunctionProvision = ''Failed to provision resources to run the function.''"
definition ErrorFunctionAbnormalInit :: string where
  "ErrorFunctionAbnormalInit = ''The function did not initialize and exited unexpectedly.''"
definition ErrorFunctionAbnormalRun :: string where
  "ErrorFunctionAbnormalRun =
     ''The function did not produce a valid response and exited unexpectedly.''"
definition ErrorFunctionMemoryExhausted :: string where
  "ErrorFunctionMemoryExhausted = ''The function exhausted its memory and was aborted.''"
definition ErrorFunctionLogCollection :: string where
  "ErrorFunctionLogCollection =
     ''There was an issue while collecting your logs. Logs might be missing.''"

text \<open>\<open>time.Duration.Milliseconds\<close> divides by a million and truncates towards zero.\<close>

definition Milliseconds :: "Duration \<Rightarrow> int" where
  "Milliseconds d = (if d < 0 then - ((- d) div Millisecond) else d div Millisecond)"

text \<open>\<open>time.Time.UnixMilli\<close> rounds down.\<close>

definition UnixMilli :: "Time \<Rightarrow> int" where
  "UnixMilli t = t div Millisecond"

definition ErrorFunctionInitTimeout :: "Duration \<Rightarrow> string" where
  "ErrorFunctionInitTimeout timeout =
     ''The function exceeded its time limits of '' @ fmt_i (Milliseconds timeout)
     @ '' milliseconds during initialization.''"

definition ErrorFunctionTimeout :: "Duration \<Rightarrow> string" where
  "ErrorFunctionTimeout timeout =
     ''The function exceeded its time limits of '' @ fmt_i (Milliseconds timeout)
     @ '' milliseconds.''"

definition ErrorFunctionTruncatedResponse :: "bytes \<Rightarrow> ByteSize \<Rightarrow> ByteSize \<Rightarrow> string" where
  "ErrorFunctionTruncatedResponse truncated got allowed =
     ''The function produced a response that exceeded the allowed length: '' @ fmt_d (unat got)
     @ '' > '' @ fmt_d (unat allowed) @ '' bytes. The truncated response was: '' @ truncated"

definition ErrorFunctionTruncatedLogs :: "ByteSize \<Rightarrow> string" where
  "ErrorFunctionTruncatedLogs allowed =
     ''Logs were truncated because the total bytes size exceeds the limit of ''
     @ fmt_d (unat allowed) @ '' bytes.''"

definition ErrorFunctionInvalidRunResponse :: "bytes \<Rightarrow> string" where
  "ErrorFunctionInvalidRunResponse resp =
     ''The function did not produce a valid JSON response: '' @ resp"

text \<open>No text is empty, so an activation with an error text set is recognisable as failed.\<close>

lemma error_texts_not_Nil [simp]:
  "ErrorFunctionFetch \<noteq> []" "ErrorFunctionNotFoundText \<noteq> []" "ErrorFunctionProvision \<noteq> []"
  "ErrorFunctionAbnormalInit \<noteq> []" "ErrorFunctionAbnormalRun \<noteq> []"
  "ErrorFunctionMemoryExhausted \<noteq> []" "ErrorFunctionLogCollection \<noteq> []"
  "ErrorFunctionInitTimeout d \<noteq> []" "ErrorFunctionTimeout d \<noteq> []"
  "ErrorFunctionTruncatedResponse b g a \<noteq> []" "ErrorFunctionTruncatedLogs a \<noteq> []"
  "ErrorFunctionInvalidRunResponse b \<noteq> []"
  by (simp_all add: ErrorFunctionFetch_def ErrorFunctionNotFoundText_def
      ErrorFunctionProvision_def ErrorFunctionAbnormalInit_def ErrorFunctionAbnormalRun_def
      ErrorFunctionMemoryExhausted_def ErrorFunctionLogCollection_def
      ErrorFunctionInitTimeout_def ErrorFunctionTimeout_def ErrorFunctionTruncatedResponse_def
      ErrorFunctionTruncatedLogs_def ErrorFunctionInvalidRunResponse_def)

section \<open>Acknowledgements\<close>

text \<open>\<open>fmt\<close>'s \<open>%q\<close> (\<open>strconv.Quote\<close>) on ASCII text.\<close>

definition hex_char :: "nat \<Rightarrow> char" where
  "hex_char d = (if d < 10 then char_of (48 + d) else char_of (87 + d))"

definition quote_char :: "char \<Rightarrow> string" where
  "quote_char c =
     (let n = of_char c :: nat in
      if n = 34 then [CHR 0x5C, CHR 0x22]
      else if n = 92 then [CHR 0x5C, CHR 0x5C]
      else if n = 7 then [CHR 0x5C, CHR ''a'']
      else if n = 8 then [CHR 0x5C, CHR ''b'']
      else if n = 12 then [CHR 0x5C, CHR ''f'']
      else if n = 10 then [CHR 0x5C, CHR ''n'']
      else if n = 13 then [CHR 0x5C, CHR ''r'']
      else if n = 9 then [CHR 0x5C, CHR ''t'']
      else if n = 11 then [CHR 0x5C, CHR ''v'']
      else if n < 32 \<or> n = 127 then [CHR 0x5C, CHR ''x'', hex_char (n div 16), hex_char (n mod 16)]
      else [c])"

definition go_quote :: "string \<Rightarrow> string" where
  "go_quote s = [CHR 0x22] @ concat (map quote_char s) @ [CHR 0x22]"

definition CombinedCompletionMessage :: "int \<Rightarrow> string \<Rightarrow> Time \<Rightarrow> bytes \<Rightarrow> bool \<Rightarrow> bytes" where
  "CombinedCompletionMessage inst tid transactionStart activation isSystemError =
     ''{\"transid\":['' @ go_quote tid @ '','' @ fmt_i (UnixMilli transactionStart)
     @ ''],\"response\":'' @ activation @ '',\"isSystemError\":'' @ fmt_t isSystemError
     @ '',\"invoker\":{\"instance\":'' @ fmt_i inst @ '',\"userMemory\":\"0 g\"}}''"

definition MiniCombinedCompletionMessage :: "int \<Rightarrow> string \<Rightarrow> Time \<Rightarrow> string \<Rightarrow> bool \<Rightarrow> bytes" where
  "MiniCombinedCompletionMessage inst tid transactionStart aid isSystemError =
     CombinedCompletionMessage inst tid transactionStart (go_quote aid) isSystemError"

end
