(* ===== verification/Container.thy ===== *)
theory Container
  imports Protocol
begin

text \<open>
  \<open>pkg/exec/container.go\<close> and \<open>pkg/exec/payload.go\<close>: the interfaces of containers, of
  the factory that creates them and of the firewall, the payloads sent to a container and
  \<open>CleanupContainer\<close>.

  A Go interface value is a record of functions. A method reads and changes a world of an
  arbitrary type \<open>'w\<close> (the docker daemon, the container's processes, the network): a method
  with result \<open>T\<close> is a function \<open>'w \<Rightarrow> T \<times> 'w\<close>. A theorem about code that calls an
  interface is proved for every record of functions, so for every way the calls can fail.
\<close>

section \<open>Constants and data\<close>

definition ResponseLimit :: ByteSize where "ResponseLimit = 1 * Megabyte"
definition MaxLogLimit :: ByteSize where "MaxLogLimit = 256 * Kilobyte"
definition LogStreamStdout :: string where "LogStreamStdout = ''stdout''"
definition LogStreamStderr :: string where "LogStreamStderr = ''stderr''"

record LogLine =
  ll_Message :: string
  ll_Stream :: string
  ll_Time :: Time
  ll_IsSentinel :: bool

text \<open>A reference to a container: what its methods \<open>ID\<close> and \<open>IP\<close> return.\<close>

record Container =
  ctr_ID :: string
  ctr_IP :: string

record InvocationEnvironment =
  ie_ActivationID :: string
  ie_TransactionID :: string
  ie_Namespace :: string
  ie_FunctionName :: string
  ie_FunctionVersion :: string
  ie_Deadline :: Time
  ie_APIKey :: string

record ContainerInitPayload =
  cip_Name :: string
  cip_Entrypoint :: string
  cip_Code :: string
  cip_IsBinary :: bool
  cip_Environment :: InvocationEnvironment
  cip_Parameters :: raw_params

record ContainerRunPayload =
  crp_Environment :: InvocationEnvironment
  crp_Parameters :: raw_params

section \<open>Interfaces\<close>

record 'w ContainerOps =
  op_Initialize :: "Container \<Rightarrow> ContainerInitPayload \<Rightarrow> 'w \<Rightarrow> (bytes \<times> go_error option) \<times> 'w"
  op_Run :: "Container \<Rightarrow> ContainerRunPayload \<Rightarrow> 'w \<Rightarrow> (bytes \<times> go_error option) \<times> 'w"
  op_State :: "Container \<Rightarrow> 'w \<Rightarrow> ContainerState result \<times> 'w"
  op_Pause :: "Container \<Rightarrow> 'w \<Rightarrow> go_error option \<times> 'w"
  op_Unpause :: "Container \<Rightarrow> 'w \<Rightarrow> go_error option \<times> 'w"
  op_Remove :: "Container \<Rightarrow> 'w \<Rightarrow> go_error option \<times> 'w"
  op_PauseEventually :: "Container \<Rightarrow> Duration \<Rightarrow> 'w \<Rightarrow> 'w"
  op_UnpauseIfNeeded :: "Container \<Rightarrow> 'w \<Rightarrow> go_error option \<times> 'w"

record 'w ContainerFactoryOps =
  op_CreateContainer :: "string \<Rightarrow> ByteSize \<Rightarrow> string \<Rightarrow> 'w \<Rightarrow> Container result \<times> 'w"

text \<open>
  \<open>SetupPerContainerFirewall\<close> returns a clean-up function. The model returns a handle, and
  \<open>op_FirewallCleanup\<close> runs the function the handle stands for.
\<close>

type_synonym fw_handle = nat

record 'w FirewallOps =
  op_NeedsPerContainerFirewallSetup :: "string \<Rightarrow> 'w \<Rightarrow> bool \<times> 'w"
  op_SetupPerContainerFirewall :: "string \<Rightarrow> string \<Rightarrow> 'w \<Rightarrow> fw_handle result \<times> 'w"
  op_FirewallCleanup :: "fw_handle \<Rightarrow> 'w \<Rightarrow> go_error option \<times> 'w"

section \<open>CleanupContainer\<close>

text \<open>
  The container is passed as an interface value, so the caller decides which \<open>State\<close> and
  which \<open>Remove\<close> run (a pooled container overrides \<open>Remove\<close>).
\<close>

definition CleanupContainer ::
  "('w \<Rightarrow> ContainerState result \<times> 'w) \<Rightarrow> ('w \<Rightarrow> go_error option \<times> 'w) \<Rightarrow> go_error \<Rightarrow> 'w
   \<Rightarrow> go_error \<times> 'w" where
  "CleanupContainer stateOp removeOp err w =
     (let (st, w1) = stateOp w;
          err1 = (case st of Inr s \<Rightarrow> Errorf ''%w, state = %+v'' [err] | Inl _ \<Rightarrow> err);
          (rmErr, w2) = removeOp w1
      in case rmErr of
           Some e \<Rightarrow> (Errorf ''%w. The subsequent remove failed with %w'' [err1, e], w2)
         | None \<Rightarrow> (err1, w2))"

text \<open>
  The initial error is never lost, whatever happens during the clean-up, and the container's
  \<open>Remove\<close> is called in the world that \<open>State\<close> leaves.
\<close>

lemma CleanupContainer_keeps_error:
  assumes "CleanupContainer stateOp removeOp err w = (e, w')"
  shows "errors_Is err t \<Longrightarrow> errors_Is e t"
  using assms
  by (auto simp: CleanupContainer_def Let_def split: prod.splits option.splits sum.splits)

lemma CleanupContainer_removes:
  "snd (CleanupContainer stateOp removeOp err w) = snd (removeOp (snd (stateOp w)))"
  by (simp add: CleanupContainer_def Let_def split: prod.splits option.splits)

section \<open>Payloads\<close>

text \<open>
  The value handed to \<open>json.Marshal\<close>. \<open>fastjson\<close> (a third-party parser) is the parameter
  \<open>parse_string\<close>: it parses a raw JSON string literal into the string it denotes.
\<close>

datatype jvalue = JStr string | JBool bool | JRaw bytes | JObj "(string \<times> jvalue) list"

text \<open>\<open>env[k] = v\<close> for all parameters, in the order in which the map is ranged over.\<close>

fun add_init_params ::
  "(bytes \<Rightarrow> string result) \<Rightarrow> (string \<times> bytes) list \<Rightarrow> (string \<times> string) list
   \<Rightarrow> (string \<times> string) list result" where
  "add_init_params parse_string [] env = Inr env"
| "add_init_params parse_string ((k, v) # ps) env =
     (if v \<noteq> [] \<and> hd v = CHR 0x22 then
        (case parse_string v of
           Inl err \<Rightarrow> Inl (Errorf ''failed to parse init parameter into string'' [err])
         | Inr s \<Rightarrow> add_init_params parse_string ps (AList.update k s env))
      else add_init_params parse_string ps (AList.update k v env))"

definition base_init_env :: "InvocationEnvironment \<Rightarrow> (string \<times> string) list" where
  "base_init_env e =
     [(''__OW_ACTIVATION_ID'', ie_ActivationID e),
      (''__OW_TRANSACTION_ID'', ie_TransactionID e),
      (''__OW_NAMESPACE'', ie_Namespace e),
      (''__OW_ACTION_NAME'', ie_FunctionName e),
      (''__OW_ACTION_VERSION'', ie_FunctionVersion e),
      (''__OW_DEADLINE'', fmt_i (UnixMilli (ie_Deadline e)))]
     @ (if ie_APIKey e \<noteq> [] then [(''__OW_API_KEY'', ie_APIKey e)] else [])"

definition InitPayload_MarshalJSON ::
  "(bytes \<Rightarrow> string result) \<Rightarrow> ContainerInitPayload \<Rightarrow> jvalue result" where
  "InitPayload_MarshalJSON parse_string p =
     (let params = (case cip_Parameters p of None \<Rightarrow> [] | Some ps \<Rightarrow> ps) in
      case add_init_params parse_string params (base_init_env (cip_Environment p)) of
        Inl err \<Rightarrow> Inl err
      | Inr env \<Rightarrow>
          Inr (JObj [(''value'',
            JObj [(''name'', JStr (cip_Name p)),
                  (''main'', JStr (cip_Entrypoint p)),
                  (''code'', JStr (cip_Code p)),
                  (''binary'', JBool (cip_IsBinary p)),
                  (''env'', JObj (map (\<lambda>(k, v). (k, JStr v)) env))])]))"

definition RunPayload_MarshalJSON :: "ContainerRunPayload \<Rightarrow> jvalue" where
  "RunPayload_MarshalJSON p =
     (let e = crp_Environment p;
          parameters = (case crp_Parameters p of
                          None \<Rightarrow> JRaw ''{}''
                        | Some ps \<Rightarrow> JObj (map (\<lambda>(k, v). (k, JRaw v)) ps))
      in JObj ([(''value'', parameters),
                (''activation_id'', JStr (ie_ActivationID e)),
                (''transaction_id'', JStr (ie_TransactionID e)),
                (''namespace'', JStr (ie_Namespace e)),
                (''action_name'', JStr (ie_FunctionName e)),
                (''action_version'', JStr (ie_FunctionVersion e)),
                (''deadline'', JStr (fmt_i (UnixMilli (ie_Deadline e))))]
               @ (if ie_APIKey e \<noteq> [] then [(''api_key'', JStr (ie_APIKey e))] else [])))"

text \<open>
  Init parameters are written last, so a parameter overrides a variable of the platform with
  the same name; every other platform variable survives.
\<close>

lemma add_init_params_keeps:
  "add_init_params parse_string ps env = Inr env' \<Longrightarrow> k \<notin> fst ` set ps
   \<Longrightarrow> map_of env' k = map_of env k"
proof (induction parse_string ps env rule: add_init_params.induct)
  case (2 parse_string k' v ps env)
  then show ?case
    by (auto simp: update_conv' split: if_splits sum.splits)
qed simp

lemma add_init_params_distinct:
  "add_init_params parse_string ps env = Inr env' \<Longrightarrow> distinct (map fst env)
   \<Longrightarrow> distinct (map fst env')"
proof (induction parse_string ps env rule: add_init_params.induct)
  case (2 parse_string k v ps env)
  then show ?case
    by (auto simp: distinct_update split: if_splits sum.splits)
qed simp

end
