(* ===== verification/Runtimes.thy ===== *)
theory Runtimes
  imports Container
begin

text \<open>
  \<open>pkg/exec/runtimes.go\<close>: the runtime manifests, keyed by kind, with an alias
  \<open>family:default\<close> for the default version of each family. The JSON decoding in front of
  \<open>Decode\<close>'s loops (\<open>encoding/json\<close>) is an argument: the loops start from the decoded
  map from family names to lists of versions.
\<close>

record RuntimeStemcellConfig =
  rsc_Count :: int
  rsc_Memory :: ByteSize

record RuntimeManifest =
  rm_Kind :: string
  rm_Default :: bool
  rm_Image :: string
  rm_Stemcells :: "RuntimeStemcellConfig list"

type_synonym RuntimeManifests = "(string \<times> RuntimeManifest) list"

text \<open>\<open>RuntimeImage.UnmarshalJSON\<close>: prefix, name and tag joined into an image reference.\<close>

definition RuntimeImage_of :: "string \<Rightarrow> string \<Rightarrow> string \<Rightarrow> string" where
  "RuntimeImage_of pre nm tag = pre @ ''/'' @ nm @ '':'' @ tag"

fun decode_family :: "string \<Rightarrow> RuntimeManifest list \<Rightarrow> RuntimeManifests \<Rightarrow> RuntimeManifests result" where
  "decode_family familyName [] manifests = Inr manifests"
| "decode_family familyName (version # family) manifests =
     (let manifests1 = AList.update (rm_Kind version) version manifests in
      if rm_Default version then
        (let defaultName = familyName @ '':default'' in
         case map_of manifests1 defaultName of
           Some _ \<Rightarrow> Inl (ErrorString (''at least two versions of family '' @ go_quote familyName @ '' specified as default''))
         | None \<Rightarrow> decode_family familyName family (AList.update defaultName version manifests1))
      else decode_family familyName family manifests1)"

fun decode_families :: "(string \<times> RuntimeManifest list) list \<Rightarrow> RuntimeManifests \<Rightarrow> RuntimeManifests result" where
  "decode_families [] manifests = Inr manifests"
| "decode_families ((familyName, family) # rest) manifests =
     (case decode_family familyName family manifests of
        Inl e \<Rightarrow> Inl e
      | Inr manifests1 \<Rightarrow> decode_families rest manifests1)"

text \<open>
  \<open>RuntimeManifests.Decode\<close>: the receiver \<open>rm\<close> is overwritten only when everything
  succeeded. The two calls of \<open>json.Unmarshal\<close> are \<open>parse_top\<close> (an object of raw
  messages) and \<open>parse_families\<close>; a missing key gives an empty raw message.
\<close>

definition RuntimeManifests_Decode ::
  "(string \<Rightarrow> (string \<times> bytes) list result) \<Rightarrow> (bytes \<Rightarrow> (string \<times> RuntimeManifest list) list result)
   \<Rightarrow> string \<Rightarrow> RuntimeManifests \<Rightarrow> go_error option \<times> RuntimeManifests" where
  "RuntimeManifests_Decode parse_top parse_families s rm =
     (case parse_top s of
        Inl e \<Rightarrow> (Some (Errorf ''failed to parse top-level runtime manifest as JSON: %w'' [e]), rm)
      | Inr raw \<Rightarrow>
          (case parse_families (case map_of raw ''runtimes'' of None \<Rightarrow> [] | Some r \<Rightarrow> r) of
             Inl e \<Rightarrow> (Some (Errorf ''failed to parse runtime manifest as JSON: %w'' [e]), rm)
           | Inr rawManifests \<Rightarrow>
               (case decode_families rawManifests [] of
                  Inl e \<Rightarrow> (Some e, rm)
                | Inr manifests \<Rightarrow> (None, manifests))))"

section \<open>Lemmas\<close>

lemma decode_family_step:
  assumes "decode_family f (version # vs) ms = Inr ms'"
  obtains "\<not> rm_Default version"
      and "decode_family f vs (AList.update (rm_Kind version) version ms) = Inr ms'"
  | "rm_Default version"
    and "map_of (AList.update (rm_Kind version) version ms) (f @ '':default'') = None"
    and "decode_family f vs (AList.update (f @ '':default'') version
           (AList.update (rm_Kind version) version ms)) = Inr ms'"
  using assms by (auto simp: Let_def split: if_splits option.splits)

section \<open>Looking up a kind\<close>

text \<open>The last version with a given kind, which is the one that a later entry of the same kind leaves in the map.\<close>

definition last_of_kind :: "string \<Rightarrow> RuntimeManifest list \<Rightarrow> RuntimeManifest option" where
  "last_of_kind k vs = find (\<lambda>v. rm_Kind v = k) (rev vs)"

lemma find_append: "find P (xs @ ys) = (case find P xs of None \<Rightarrow> find P ys | Some x \<Rightarrow> Some x)"
  by (induction xs) simp_all

lemma last_of_kind_simps [simp]:
  "last_of_kind k [] = None"
  "last_of_kind k (v # vs) = (case last_of_kind k vs of None \<Rightarrow> if rm_Kind v = k then Some v else None | Some u \<Rightarrow> Some u)"
  "last_of_kind k (vs @ us) = (case last_of_kind k us of None \<Rightarrow> last_of_kind k vs | Some u \<Rightarrow> Some u)"
  by (simp_all add: last_of_kind_def find_append split: option.split)

lemma plain_kind_not_default: "\<not> HasSuffix k '':default'' \<Longrightarrow> k \<noteq> g @ '':default''"
  by (metis HasSuffix_append)

lemma decode_family_kind:
  "decode_family f vs ms = Inr ms' \<Longrightarrow> \<not> HasSuffix k '':default''
   \<Longrightarrow> map_of ms' k = (case last_of_kind k vs of None \<Rightarrow> map_of ms k | Some v \<Rightarrow> Some v)"
proof (induction vs arbitrary: ms)
  case (Cons v vs)
  note plain = plain_kind_not_default [OF Cons.prems(2)]
  from Cons.prems(1) show ?case
  proof (cases rule: decode_family_step)
    case 1
    from Cons.IH [OF 1(2) Cons.prems(2)] show ?thesis by (simp add: update_conv' split: option.split)
  next
    case 2
    from Cons.IH [OF 2(3) Cons.prems(2)] plain [of f] show ?thesis by (auto simp: update_conv' split: option.split)
  qed
qed simp

lemma decode_families_kind:
  "decode_families fs ms = Inr ms' \<Longrightarrow> \<not> HasSuffix k '':default''
   \<Longrightarrow> map_of ms' k = (case last_of_kind k (concat (map snd fs)) of None \<Rightarrow> map_of ms k | Some v \<Rightarrow> Some v)"
proof (induction fs ms rule: decode_families.induct)
  case (2 f vs rest ms)
  then obtain ms1 where "decode_family f vs ms = Inr ms1" and "decode_families rest ms1 = Inr ms'" by (auto split: sum.splits)
  with 2 decode_family_kind [of f vs ms ms1 k] show ?case by (auto split: option.split)
qed simp

section \<open>Resolving a family's default\<close>

definition plain_kinds :: "RuntimeManifest list \<Rightarrow> bool" where
  "plain_kinds vs = (\<forall>v \<in> set vs. \<not> HasSuffix (rm_Kind v) '':default'')"

lemma plain_kinds_simps [simp]:
  "plain_kinds []" "plain_kinds (v # vs) \<longleftrightarrow> \<not> HasSuffix (rm_Kind v) '':default'' \<and> plain_kinds vs"
  by (auto simp: plain_kinds_def)

lemma decode_family_default:
  "decode_family f vs ms = Inr ms' \<Longrightarrow> plain_kinds vs \<Longrightarrow>
   map_of ms' (g @ '':default'') =
     (if g = f \<and> map_of ms (f @ '':default'') = None then find rm_Default vs else map_of ms (g @ '':default''))"
proof (induction vs arbitrary: ms)
  case (Cons v vs)
  from Cons.prems have plain: "plain_kinds vs" "\<And>h. rm_Kind v \<noteq> h @ '':default''"
    using plain_kind_not_default by auto
  from Cons.prems(1) show ?case
  proof (cases rule: decode_family_step)
    case 1
    from Cons.IH [OF 1(2) plain(1)] 1(1) plain(2) plain(2) [symmetric] show ?thesis by (simp add: update_conv')
  next
    case 2
    have "find rm_Default (v # vs) = Some v" using 2(1) by simp
    with Cons.IH [OF 2(3) plain(1)] 2(2) plain(2) plain(2) [symmetric] show ?thesis by (auto simp: update_conv')
  qed
qed simp

lemma decode_families_default_kept:
  "decode_families fs ms = Inr ms' \<Longrightarrow> g \<notin> fst ` set fs \<Longrightarrow> \<forall>(f, vs) \<in> set fs. plain_kinds vs
   \<Longrightarrow> map_of ms' (g @ '':default'') = map_of ms (g @ '':default'')"
proof (induction fs ms rule: decode_families.induct)
  case (2 f vs rest ms)
  then obtain ms1 where "decode_family f vs ms = Inr ms1" "decode_families rest ms1 = Inr ms'"
    by (auto split: sum.splits)
  with 2 decode_family_default [of f vs ms ms1 g] show ?case by auto
qed simp

lemma decode_families_default:
  "decode_families fs ms = Inr ms' \<Longrightarrow> distinct (map fst fs) \<Longrightarrow> \<forall>(f, vs) \<in> set fs. plain_kinds vs
   \<Longrightarrow> (f, vs) \<in> set fs \<Longrightarrow> map_of ms (f @ '':default'') = None \<Longrightarrow> map_of ms' (f @ '':default'') = find rm_Default vs"
proof (induction fs ms rule: decode_families.induct)
  case (2 g us rest ms)
  then obtain ms1 where ms1: "decode_family g us ms = Inr ms1" and rest: "decode_families rest ms1 = Inr ms'"
    by (auto split: sum.splits)
  have d: "map_of ms1 (f @ '':default'') = (if f = g then find rm_Default us else map_of ms (f @ '':default''))"
    using decode_family_default [OF ms1, of f] "2.prems" by auto
  show ?case
  proof (cases "f = g")
    case True
    have "f \<notin> fst ` set rest" using "2.prems" True by auto
    moreover have "vs = us" using "2.prems" True by force
    ultimately show ?thesis
      using decode_families_default_kept [OF rest, of f] d True "2.prems" by auto
  next
    case False
    then have "(f, vs) \<in> set rest" using "2.prems"(4) by auto
    with 2 ms1 rest d False show ?thesis by auto
  qed
qed simp

text \<open>Decoding fails exactly when a family has two defaults.\<close>

lemma decode_family_succeeds:
  "plain_kinds vs \<Longrightarrow> (\<exists>ms'. decode_family f vs ms = Inr ms') \<longleftrightarrow>
     length (filter rm_Default vs) + (if map_of ms (f @ '':default'') = None then 0 else 1) \<le> 1"
proof (induction vs arbitrary: ms)
  case (Cons v vs)
  have v: "rm_Kind v \<noteq> f @ '':default''" using Cons.prems plain_kind_not_default by auto
  have "plain_kinds vs" using Cons.prems by simp
  from Cons.IH [OF this] v v [symmetric] show ?case by (auto simp: Let_def update_conv' split: option.split)
qed simp

lemma decode_families_succeed:
  "distinct (map fst fs) \<Longrightarrow> \<forall>(f, vs) \<in> set fs. plain_kinds vs \<Longrightarrow> \<forall>f \<in> fst ` set fs. map_of ms (f @ '':default'') = None
   \<Longrightarrow> (\<exists>ms'. decode_families fs ms = Inr ms') \<longleftrightarrow> (\<forall>(f, vs) \<in> set fs. length (filter rm_Default vs) \<le> 1)"
proof (induction fs ms rule: decode_families.induct)
  case (2 f vs rest ms)
  have one: "(\<exists>ms1. decode_family f vs ms = Inr ms1) \<longleftrightarrow> length (filter rm_Default vs) \<le> 1"
    using decode_family_succeeds [of vs f ms] "2.prems" by simp
  show ?case
  proof (cases "decode_family f vs ms")
    case (Inl err)
    with one show ?thesis by auto
  next
    case (Inr ms1)
    have "map_of ms1 (g @ '':default'') = None" if "g \<in> fst ` set rest" for g
      using decode_family_default [OF Inr, of g] "2.prems" that by auto
    with "2.IH" [OF Inr] "2.prems" one Inr show ?thesis by auto
  qed
qed simp

text \<open>
  C15. On every error of \<open>Decode\<close>, of the two parsers or of its own, the manifests that were there before are kept.
  When the document parses and no kind in it ends in ":default", \<open>Decode\<close> succeeds exactly if no family marks two
  versions as default, and the map that it then stores is determined: a kind gives the version listed with this kind
  (the last one, should there be several), the name family:default gives the family's version that is marked as default,
  and no other name gives anything, in whatever order Go ranges over the families.
\<close>

theorem RuntimeManifests_Decode_resolves:
  assumes "RuntimeManifests_Decode parse_top parse_families s rm = (e, ms)"
  shows "(e \<noteq> None \<longrightarrow> ms = rm) \<and> (\<forall>err. parse_top s = Inl err \<longrightarrow> e \<noteq> None) \<and>
    (\<forall>raw. parse_top s = Inr raw \<longrightarrow>
      (case parse_families (case map_of raw ''runtimes'' of None \<Rightarrow> [] | Some r \<Rightarrow> r) of
         Inl err \<Rightarrow> e \<noteq> None
       | Inr fams \<Rightarrow> distinct (map fst fams) \<longrightarrow> (\<forall>(f, vs) \<in> set fams. plain_kinds vs) \<longrightarrow>
           (e = None \<longleftrightarrow> (\<forall>(f, vs) \<in> set fams. length (filter rm_Default vs) \<le> 1)) \<and>
           (e = None \<longrightarrow>
             (\<forall>k. \<not> HasSuffix k '':default'' \<longrightarrow> map_of ms k = last_of_kind k (concat (map snd fams))) \<and>
             (\<forall>f. map_of ms (f @ '':default'') = (case map_of fams f of None \<Rightarrow> None | Some vs \<Rightarrow> find rm_Default vs)))))"
proof (cases "parse_top s")
  case (Inl err)
  with assms show ?thesis by (auto simp: RuntimeManifests_Decode_def)
next
  case top: (Inr raw)
  show ?thesis
  proof (cases "parse_families (case map_of raw ''runtimes'' of None \<Rightarrow> [] | Some r \<Rightarrow> r)")
    case (Inl err)
    with top assms show ?thesis by (auto simp: RuntimeManifests_Decode_def)
  next
    case fams: (Inr fams)
    have res: "e = None \<longleftrightarrow> (\<exists>ms'. decode_families fams [] = Inr ms')" "e = None \<Longrightarrow> decode_families fams [] = Inr ms"
      "e \<noteq> None \<Longrightarrow> ms = rm"
      using assms top fams by (auto simp: RuntimeManifests_Decode_def split: sum.splits)
    have default: "map_of ms (f @ '':default'') = (case map_of fams f of None \<Rightarrow> None | Some vs \<Rightarrow> find rm_Default vs)"
      if "distinct (map fst fams)" "\<forall>(f, vs) \<in> set fams. plain_kinds vs" "e = None" for f
    proof (cases "map_of fams f")
      case None
      then have "f \<notin> fst ` set fams" by (simp add: map_of_eq_None_iff)
      from decode_families_default_kept [OF res(2) [OF that(3)] this that(2)] None show ?thesis by simp
    next
      case (Some vs)
      with decode_families_default [OF res(2) [OF that(3)] that(1,2) map_of_SomeD [OF Some]] show ?thesis by simp
    qed
    have kind: "map_of ms k = last_of_kind k (concat (map snd fams))" if "e = None" "\<not> HasSuffix k '':default''" for k
      using decode_families_kind [OF res(2) [OF that(1)] that(2)] by (simp split: option.split)
    show ?thesis using res(1,3) decode_families_succeed [of fams "[]"] default kind by (simp add: top fams)
  qed
qed

theorem RuntimeManifests_Decode_resolves_witness:
  "let ms = snd (RuntimeManifests_Decode (\<lambda>_. Inr [(''runtimes'', ''x'')])
      (\<lambda>_. Inr [(''go'', [\<lparr>rm_Kind = ''go:1'', rm_Default = False, rm_Image = ''i'', rm_Stemcells = []\<rparr>,
                          \<lparr>rm_Kind = ''go:2'', rm_Default = True, rm_Image = ''j'', rm_Stemcells = []\<rparr>])]) '''' [])
   in map_of ms ''go:1'' = Some \<lparr>rm_Kind = ''go:1'', rm_Default = False, rm_Image = ''i'', rm_Stemcells = []\<rparr> \<and>
      map_of ms ''go:default'' = Some \<lparr>rm_Kind = ''go:2'', rm_Default = True, rm_Image = ''j'', rm_Stemcells = []\<rparr>"
proof -
  let ?fams = "[(''go'', [\<lparr>rm_Kind = ''go:1'', rm_Default = False, rm_Image = ''i'', rm_Stemcells = []\<rparr>,
      \<lparr>rm_Kind = ''go:2'', rm_Default = True, rm_Image = ''j'', rm_Stemcells = []\<rparr>])]"
  let ?d = "RuntimeManifests_Decode (\<lambda>_. Inr [(''runtimes'', ''x'')]) (\<lambda>_. Inr ?fams) '''' []"
  have plain: "\<forall>(f, vs) \<in> set ?fams. plain_kinds vs" by (simp add: HasSuffix_def)
  have "(\<forall>k. \<not> HasSuffix k '':default'' \<longrightarrow> map_of (snd ?d) k = last_of_kind k (concat (map snd ?fams))) \<and>
      (\<forall>f. map_of (snd ?d) (f @ '':default'') = (case map_of ?fams f of None \<Rightarrow> None | Some vs \<Rightarrow> find rm_Default vs))"
    using RuntimeManifests_Decode_resolves [of "\<lambda>_. Inr [(''runtimes'', ''x'')]" "\<lambda>_. Inr ?fams" "''''" "[]" "fst ?d" "snd ?d"] plain
    by simp
  then have kind: "\<not> HasSuffix ''go:1'' '':default'' \<longrightarrow> map_of (snd ?d) ''go:1'' = last_of_kind ''go:1'' (concat (map snd ?fams))"
    and def: "map_of (snd ?d) (''go'' @ '':default'') = (case map_of ?fams ''go'' of None \<Rightarrow> None | Some vs \<Rightarrow> find rm_Default vs)"
    by blast+
  from kind have "map_of (snd ?d) ''go:1'' = Some \<lparr>rm_Kind = ''go:1'', rm_Default = False, rm_Image = ''i'', rm_Stemcells = []\<rparr>"
    by (simp add: HasSuffix_def last_of_kind_def)
  moreover from def have "map_of (snd ?d) ''go:default'' = Some \<lparr>rm_Kind = ''go:2'', rm_Default = True, rm_Image = ''j'', rm_Stemcells = []\<rparr>"
    by simp
  ultimately show ?thesis unfolding Let_def by (rule conjI)
qed

end
