(* ===== verification/Pool.thy ===== *)
theory Pool
  imports Runtimes
begin

text \<open>
  \<open>pkg/exec/pool.go\<close>, the operations of the container pool: every handler as a function on
  the pool's state and on the world behind its interfaces. Each operation here runs to
  completion on its own; interleavings of the operations are in the theory
  \<open>Pool_Interleaving\<close>, the invariants in \<open>Pool_Invariant\<close>.

  Conventions. A pooled container is only referenced by its current owner (the pool's lists, a
  channel or the caller that \<open>Get\<close> handed it to), so the pointer is modelled by its value. A
  mutex that an early return leaves locked is the flag \<open>idlesLocked\<close>, and an operation that
  locks it again \<open>Blocks\<close>. A send on a channel that \<open>Shutdown\<close> has closed \<open>Panics\<close>.
  The weighted semaphore (\<open>golang.org/x/sync\<close>) is a parameter; a call of \<open>Acquire\<close> that
  waits has no effect until it returns, so the model describes the calls that return. Logging
  and metrics are left out.
\<close>

section \<open>Data\<close>

record WarmContainerKey =
  wck_InvocationNamespace :: string
  wck_Function :: ActivationMessageFunction

record PrewarmContainerKey =
  pck_Kind :: string
  pck_Memory :: ByteSize

record PooledContainer =
  pc_Container :: Container
  pc_initializedFor :: WarmContainerKey
  pc_lastUsed :: Time
  pc_memory :: ByteSize
  pc_firewallCleanup :: "fw_handle option"

text \<open>The zero values a fresh \<open>PooledContainer\<close> starts with.\<close>

definition zero_WarmContainerKey :: WarmContainerKey where
  "zero_WarmContainerKey =
     \<lparr>wck_InvocationNamespace = '''',
      wck_Function = \<lparr>amf_Namespace = '''', amf_Name = '''', amf_Version = '''',
                      amf_Revision = '''', amf_Binding = ''''\<rparr>\<rparr>"

definition new_pooled :: "Container \<Rightarrow> WarmContainerKey \<Rightarrow> ByteSize \<Rightarrow> PooledContainer" where
  "new_pooled c data memory =
     \<lparr>pc_Container = c, pc_initializedFor = data, pc_lastUsed = 0, pc_memory = memory,
      pc_firewallCleanup = None\<rparr>"

type_synonym idle_map = "(WarmContainerKey \<times> PooledContainer list) list"
type_synonym prewarm_map = "(PrewarmContainerKey \<times> PooledContainer list) list"

record 's SemaphoreOps =
  sem_Acquire :: "int \<Rightarrow> 's \<Rightarrow> go_error option \<times> 's"
  sem_Release :: "int \<Rightarrow> 's \<Rightarrow> 's"

text \<open>Everything the pool calls, and the orders in which its \<open>range\<close> loops run.\<close>

record ('w, 's) PoolEnv =
  pe_containers :: "'w ContainerOps"
  pe_factory :: "'w ContainerFactoryOps"
  pe_firewall :: "'w FirewallOps"
  pe_Now :: "'w \<Rightarrow> Time \<times> 'w"
  pe_semaphore :: "'s SemaphoreOps"
  pe_idlesOrder :: "idle_map \<Rightarrow> WarmContainerKey list"
  pe_prewarmOrder :: "prewarm_map \<Rightarrow> PrewarmContainerKey list"
  pe_manifestOrder :: "RuntimeManifests \<Rightarrow> string list"
  pe_creationOrder :: "(PrewarmContainerKey \<times> int) list \<Rightarrow> PrewarmContainerKey list"

record 's ContainerPool =
  runtimeManifests :: RuntimeManifests
  maxMemory :: ByteSize
  containersCreated :: u64
  inFlight :: 's
  inFlightMemory :: u64
  idlesLocked :: bool
  idlesMemory :: ByteSize
  idles :: idle_map
  prewarmed :: prewarm_map
  prewarmPoke :: bool
  containersToDeleteForSpace :: "PooledContainer list"
  poolClosed :: bool

definition pauseGrace :: Duration where "pauseGrace = 150 * Millisecond"

definition deleteBuffer :: nat where "deleteBuffer = 16"

text \<open>\<open>int64(memory)\<close>: the conversion keeps the bits and reads them as a signed number.\<close>

definition int64 :: "u64 \<Rightarrow> int" where "int64 w = sint w"

section \<open>Helpers of the pool\<close>

definition PooledContainer_Remove ::
  "('w, 's) PoolEnv \<Rightarrow> PooledContainer \<Rightarrow> 'w \<Rightarrow> go_error option \<times> 'w" where
  "PooledContainer_Remove env c w =
     (case pc_firewallCleanup c of
        None \<Rightarrow> op_Remove (pe_containers env) (pc_Container c) w
      | Some h \<Rightarrow>
          (let (fwErr, w1) = op_FirewallCleanup (pe_firewall env) h w in
           case fwErr of
             Some err \<Rightarrow> (Some (Errorf ''failed to remove firewall: %w. The container is not removed'' [err]), w1)
           | None \<Rightarrow>
               (let (rmErr, w2) = op_Remove (pe_containers env) (pc_Container c) w1
                in (map_option (\<lambda>err. Errorf ''failed to remove container: %w'' [err]) rmErr, w2))))"

definition PooledContainer_State ::
  "('w, 's) PoolEnv \<Rightarrow> PooledContainer \<Rightarrow> 'w \<Rightarrow> ContainerState result \<times> 'w" where
  "PooledContainer_State env c w = op_State (pe_containers env) (pc_Container c) w"

definition isBrokenByUser :: "('w, 's) PoolEnv \<Rightarrow> PooledContainer \<Rightarrow> 'w \<Rightarrow> bool \<times> 'w" where
  "isBrokenByUser env c w =
     (let (st, w1) = PooledContainer_State env c w in
      case st of
        Inl _ \<Rightarrow> (False, w1)
      | Inr state \<Rightarrow> (cs_OOMKilled state \<or> cs_Status state = ContainerStateStatusExited, w1))"

definition cleanup_pooled ::
  "('w, 's) PoolEnv \<Rightarrow> PooledContainer \<Rightarrow> go_error \<Rightarrow> 'w \<Rightarrow> go_error \<times> 'w" where
  "cleanup_pooled env c err w =
     CleanupContainer (PooledContainer_State env c) (PooledContainer_Remove env c) err w"

text \<open>
  The removal of a container that may be paused, as the deleter, the reaper and \<open>Shutdown\<close>
  do it: unpause first, and when that fails for a reason the user did not cause, clean up.
\<close>

definition remove_idle ::
  "('w, 's) PoolEnv \<Rightarrow> string \<Rightarrow> string \<Rightarrow> PooledContainer \<Rightarrow> 'w \<Rightarrow> go_error option \<times> 'w" where
  "remove_idle env unpauseMsg removeMsg c w =
     (let (unpauseErr, w1) = op_UnpauseIfNeeded (pe_containers env) (pc_Container c) w;
          removal = (\<lambda>w'. let (rmErr, w'') = PooledContainer_Remove env c w'
                           in (map_option (\<lambda>err. Errorf removeMsg [err]) rmErr, w''))
      in case unpauseErr of
           None \<Rightarrow> removal w1
         | Some err \<Rightarrow>
             (let (broken, w2) = isBrokenByUser env c w1 in
              if \<not> broken then
                (let (e, w3) = cleanup_pooled env c (Errorf unpauseMsg [err]) w2 in (Some e, w3))
              else removal w2))"

text \<open>The errors that \<open>multierror.Append\<close> collects; the empty list is a nil error.\<close>

fun remove_all ::
  "('w, 's) PoolEnv \<Rightarrow> string \<Rightarrow> string \<Rightarrow> PooledContainer list \<Rightarrow> 'w \<Rightarrow> go_error list \<times> 'w" where
  "remove_all env unpauseMsg removeMsg [] w = ([], w)"
| "remove_all env unpauseMsg removeMsg (c # cs) w =
     (let (e, w1) = remove_idle env unpauseMsg removeMsg c w;
          (es, w2) = remove_all env unpauseMsg removeMsg cs w1
      in (case e of None \<Rightarrow> es | Some err \<Rightarrow> err # es, w2))"

section \<open>Container names\<close>

definition valid_name_char :: "char \<Rightarrow> bool" where
  "valid_name_char c =
     (let n = of_char c :: nat in
      (97 \<le> n \<and> n \<le> 122) \<or> (65 \<le> n \<and> n \<le> 90) \<or> (48 \<le> n \<and> n \<le> 57) \<or> n = 95 \<or> n = 46 \<or> n = 45)"

definition sanitizeForContainerName :: "string \<Rightarrow> string" where
  "sanitizeForContainerName part = filter valid_name_char part"

definition specificContainerName :: "u64 \<Rightarrow> string \<Rightarrow> string \<Rightarrow> string" where
  "specificContainerName i namespace action =
     ''wsk_'' @ fmt_d (unat i) @ ''_'' @ sanitizeForContainerName namespace @ ''_''
     @ sanitizeForContainerName action"

definition prewarmContainerName :: "u64 \<Rightarrow> string \<Rightarrow> string" where
  "prewarmContainerName i kind =
     ''wsk_'' @ fmt_d (unat i) @ ''_prewarm_'' @ sanitizeForContainerName kind"

section \<open>The idle containers (under \<open>idlesMux\<close>)\<close>

text \<open>The most recently used container of a bucket is its last one.\<close>

definition take_warm ::
  "WarmContainerKey \<Rightarrow> 's ContainerPool \<Rightarrow> (PooledContainer \<times> 's ContainerPool) option" where
  "take_warm data p =
     (let containers = bucket (idles p) data in
      if containers = [] then None
      else let container = last containers in
        Some (container,
              p\<lparr>idles := AList.update data (butlast containers) (idles p),
                idlesMemory := idlesMemory p - pc_memory container\<rparr>))"

text \<open>The inner loop: the head with the smallest \<open>lastUsed\<close> of all buckets.\<close>

fun longest_unused ::
  "WarmContainerKey list \<Rightarrow> idle_map \<Rightarrow> PooledContainer option \<Rightarrow> PooledContainer option" where
  "longest_unused [] m longest = longest"
| "longest_unused (k # ks) m longest =
     (case bucket m k of
        [] \<Rightarrow> longest_unused ks m longest
      | c # _ \<Rightarrow>
          longest_unused ks m
            (case longest of
               None \<Rightarrow> Some c
             | Some l \<Rightarrow> if pc_lastUsed c < pc_lastUsed l then Some c else Some l))"

text \<open>The pool after the head of the evicted container's bucket was cut off.\<close>

definition drop_head :: "PooledContainer \<Rightarrow> PooledContainer list \<Rightarrow> 's ContainerPool \<Rightarrow> 's ContainerPool" where
  "drop_head c rest p =
     p\<lparr>idles := AList.update (pc_initializedFor c) rest (idles p),
       idlesMemory := idlesMemory p - pc_memory c\<rparr>"

lemma size_flat_drop_head:
  assumes "bucket (idles p) (pc_initializedFor c) = x # rest"
  shows "length (flat (idles (drop_head c rest p))) < length (flat (idles p))"
proof -
  have "size (mset (flat (idles (drop_head c rest p))) + mset (bucket (idles p) (pc_initializedFor c)))
      = size (mset (flat (idles p)) + mset rest)"
    by (simp add: drop_head_def mset_flat_update del: size_union)
  with assms show ?thesis by simp
qed

text \<open>
  The loop that makes space. \<open>toDelete\<close> are the containers removed so far. Cutting the
  first element off an empty slice panics.
\<close>

function make_space ::
  "(idle_map \<Rightarrow> WarmContainerKey list) \<Rightarrow> ByteSize \<Rightarrow> PooledContainer list \<Rightarrow> 's ContainerPool
   \<Rightarrow> (PooledContainer list result \<times> 's ContainerPool) outcome" where
  "make_space ord inFl toDelete p =
     (case longest_unused (ord (idles p)) (idles p) None of
        None \<Rightarrow> Returns (Inl (ErrorString ''unable to make enough space in container pool''), p)
      | Some c \<Rightarrow>
          (case bucket (idles p) (pc_initializedFor c) of
             [] \<Rightarrow> Panics ''slice bounds out of range''
           | _ # rest \<Rightarrow>
               (if idlesMemory (drop_head c rest p) + inFl \<le> maxMemory p
                then Returns (Inr (toDelete @ [c]), drop_head c rest p)
                else make_space ord inFl (toDelete @ [c]) (drop_head c rest p))))"
  by pat_completeness auto
termination
  by (relation "measure (\<lambda>(ord, inFl, toDelete, p). length (flat (idles p)))")
    (auto simp: size_flat_drop_head)

declare make_space.simps [simp del]

text \<open>
  The critical section of \<open>getContainer\<close>. The error return inside it does not unlock.
\<close>

datatype idles_result = Warm PooledContainer | NoSpace go_error | Space "PooledContainer list"

definition idles_section ::
  "(idle_map \<Rightarrow> WarmContainerKey list) \<Rightarrow> WarmContainerKey \<Rightarrow> ByteSize \<Rightarrow> 's ContainerPool
   \<Rightarrow> (idles_result \<times> 's ContainerPool) outcome" where
  "idles_section ord data inFl p =
     (if idlesLocked p then Blocks
      else case take_warm data p of
        Some (c, p1) \<Rightarrow> Returns (Warm c, p1)
      | None \<Rightarrow>
          (if idlesMemory p + inFl > maxMemory p then
             (case make_space ord inFl [] p of
                Returns (Inr toDelete, p1) \<Rightarrow> Returns (Space toDelete, p1)
              | Returns (Inl err, p1) \<Rightarrow> Returns (NoSpace err, p1\<lparr>idlesLocked := True\<rparr>)
              | Panics m \<Rightarrow> Panics m
              | Blocks \<Rightarrow> Blocks)
           else Returns (Space [], p)))"

section \<open>getContainer\<close>

text \<open>The rest of the warm path: unpause, then set up or clean up the firewall.\<close>

definition warm_finish ::
  "('w, 's) PoolEnv \<Rightarrow> string \<Rightarrow> PooledContainer \<Rightarrow> 'w \<Rightarrow> (PooledContainer \<times> bool) result \<times> 'w" where
  "warm_finish env namespace c w =
     (let (unpauseErr, w1) = op_UnpauseIfNeeded (pe_containers env) (pc_Container c) w in
      case unpauseErr of
        Some ue \<Rightarrow>
          (let (st, w2) = PooledContainer_State env c w1 in
           case st of
             Inl se \<Rightarrow> (Inl (Errorf ''failed to unpause idle container: %w. The subsequent state-fetching failed with: %w'' [ue, se]), w2)
           | Inr state \<Rightarrow>
               (let (rmErr, w3) = PooledContainer_Remove env c w2 in
                case rmErr of
                  Some re \<Rightarrow> (Inl (Errorf ''failed to unpause idle container: %w, state = %+v. The subsequent remove failed with %w'' [ue, re]), w3)
                | None \<Rightarrow>
                    (Inl (ContainerBrokenDuringReuseError state
                            (Errorf ''failed to unpause idle container: %w'' [ue])), w3)))
      | None \<Rightarrow>
          (let (needs, w2) = op_NeedsPerContainerFirewallSetup (pe_firewall env) namespace w1 in
           case pc_firewallCleanup c of
             None \<Rightarrow>
               (if needs then
                  (let (setup, w3) = op_SetupPerContainerFirewall (pe_firewall env) (ctr_IP (pc_Container c)) namespace w2 in
                   case setup of
                     Inl err \<Rightarrow>
                       (let (e, w4) = cleanup_pooled env c (Errorf ''failed to setup firewall for warm container: %w'' [err]) w3
                        in (Inl e, w4))
                   | Inr h \<Rightarrow> (Inr (c\<lparr>pc_firewallCleanup := Some h\<rparr>, True), w3))
                else (Inr (c, True), w2))
           | Some h \<Rightarrow>
               (if \<not> needs then
                  (let (fwErr, w3) = op_FirewallCleanup (pe_firewall env) h w2 in
                   case fwErr of
                     Some err \<Rightarrow>
                       (let (e, w4) = cleanup_pooled env c (Errorf ''failed to remove firewall for warm container: %w'' [err]) w3
                        in (Inl e, w4))
                   | None \<Rightarrow> (Inr (c\<lparr>pc_firewallCleanup := None\<rparr>, True), w3))
                else (Inr (c, True), w2))))"

text \<open>
  One round of the goroutine that deletes containers: it takes the head of the channel.
\<close>

definition deleter_step ::
  "('w, 's) PoolEnv \<Rightarrow> 's ContainerPool \<Rightarrow> 'w \<Rightarrow> 's ContainerPool \<times> 'w" where
  "deleter_step env p w =
     (case containersToDeleteForSpace p of
        [] \<Rightarrow> (p, w)
      | c # rest \<Rightarrow>
          (let (e, w1) = remove_idle env ''failed to unpause container: %w'' ''failed to delete container while making space'' c w
           in (p\<lparr>containersToDeleteForSpace := rest\<rparr>, w1)))"

text \<open>
  A send on the buffered channel: when the buffer is full, the sender waits until the deleter
  has taken the head.
\<close>

definition send_delete ::
  "('w, 's) PoolEnv \<Rightarrow> PooledContainer \<Rightarrow> 's ContainerPool \<Rightarrow> 'w \<Rightarrow> ('s ContainerPool \<times> 'w) outcome" where
  "send_delete env c p w =
     (if poolClosed p then Panics ''send on closed channel''
      else let (p1, w1) = (if length (containersToDeleteForSpace p) < deleteBuffer then (p, w)
                           else deleter_step env p w)
           in Returns (p1\<lparr>containersToDeleteForSpace := containersToDeleteForSpace p1 @ [c]\<rparr>, w1))"

fun send_deletes ::
  "('w, 's) PoolEnv \<Rightarrow> PooledContainer list \<Rightarrow> 's ContainerPool \<Rightarrow> 'w \<Rightarrow> ('s ContainerPool \<times> 'w) outcome" where
  "send_deletes env [] p w = Returns (p, w)"
| "send_deletes env (c # cs) p w =
     (case send_delete env c p w of
        Returns (p1, w1) \<Rightarrow> send_deletes env cs p1 w1
      | Panics m \<Rightarrow> Panics m
      | Blocks \<Rightarrow> Blocks)"

text \<open>The non-blocking send that requests a reconciliation; a second request coalesces.\<close>

definition poke_prewarm :: "'s ContainerPool \<Rightarrow> 's ContainerPool outcome" where
  "poke_prewarm p =
     (if poolClosed p then Panics ''send on closed channel''
      else Returns (p\<lparr>prewarmPoke := True\<rparr>))"

text \<open>Set up the firewall of a container that has none yet; \<open>fail\<close> is what to do on error.\<close>

definition setup_firewall ::
  "('w, 's) PoolEnv \<Rightarrow> string \<Rightarrow> (go_error \<Rightarrow> 'w \<Rightarrow> go_error \<times> 'w) \<Rightarrow> PooledContainer \<Rightarrow> 'w
   \<Rightarrow> PooledContainer result \<times> 'w" where
  "setup_firewall env namespace fail c w =
     (let (needs, w1) = op_NeedsPerContainerFirewallSetup (pe_firewall env) namespace w in
      if needs then
        (let (setup, w2) = op_SetupPerContainerFirewall (pe_firewall env) (ctr_IP (pc_Container c)) namespace w1 in
         case setup of
           Inl err \<Rightarrow> (let (e, w3) = fail err w2 in (Inl e, w3))
         | Inr h \<Rightarrow> (Inr (c\<lparr>pc_firewallCleanup := Some h\<rparr>), w2))
      else (Inr c, w1))"

text \<open>The prewarm path, for the container that was just taken from the list.\<close>

definition prewarm_finish ::
  "('w, 's) PoolEnv \<Rightarrow> WarmContainerKey \<Rightarrow> PooledContainer \<Rightarrow> 'w \<Rightarrow> (PooledContainer \<times> bool) result \<times> 'w" where
  "prewarm_finish env data c w =
     (let (r, w1) = setup_firewall env (wck_InvocationNamespace data)
            (\<lambda>err. cleanup_pooled env c (Errorf ''failed to setup firewall for prewarm container: %w'' [err])) c w
      in (case r of
            Inl e \<Rightarrow> Inl e
          | Inr c1 \<Rightarrow> Inr (c1\<lparr>pc_initializedFor := data\<rparr>, False), w1))"

text \<open>The cold path. On a firewall error the bare container is cleaned up.\<close>

definition create_cold ::
  "('w, 's) PoolEnv \<Rightarrow> WarmContainerKey \<Rightarrow> string \<Rightarrow> ByteSize \<Rightarrow> 's ContainerPool \<Rightarrow> 'w
   \<Rightarrow> (PooledContainer \<times> bool) result \<times> 's ContainerPool \<times> 'w" where
  "create_cold env data kind memory p w =
     (let containerNumber = containersCreated p + 1;
          p1 = p\<lparr>containersCreated := containerNumber\<rparr>;
          containerName = specificContainerName containerNumber (wck_InvocationNamespace data)
            (amf_Name (wck_Function data));
          (created, w1) = op_CreateContainer (pe_factory env) kind memory containerName w
      in case created of
           Inl err \<Rightarrow> (Inl (Errorf ''failed to create a container: %w'' [err]), p1, w1)
         | Inr container \<Rightarrow>
             (let (r, w2) = setup_firewall env (wck_InvocationNamespace data)
                    (\<lambda>err. CleanupContainer (op_State (pe_containers env) container)
                             (op_Remove (pe_containers env) container)
                             (Errorf ''failed to setup firewall for cold container: %w'' [err]))
                    (new_pooled container data memory) w1
              in (case r of Inl e \<Rightarrow> Inl e | Inr c \<Rightarrow> Inr (c, False), p1, w2)))"

definition getContainer ::
  "('w, 's) PoolEnv \<Rightarrow> string \<Rightarrow> ActivationMessageFunction \<Rightarrow> string \<Rightarrow> ByteSize \<Rightarrow> ByteSize
   \<Rightarrow> 's ContainerPool \<Rightarrow> 'w \<Rightarrow> ((PooledContainer \<times> bool) result \<times> 's ContainerPool \<times> 'w) outcome" where
  "getContainer env namespace fnMeta kind memory inFl p w =
     (let data = \<lparr>wck_InvocationNamespace = namespace, wck_Function = fnMeta\<rparr> in
      case idles_section (pe_idlesOrder env) data inFl p of
        Blocks \<Rightarrow> Blocks
      | Panics m \<Rightarrow> Panics m
      | Returns (Warm c, p1) \<Rightarrow>
          (let (r, w1) = warm_finish env namespace c w in Returns (r, p1, w1))
      | Returns (NoSpace err, p1) \<Rightarrow> Returns (Inl err, p1, w)
      | Returns (Space toDelete, p1) \<Rightarrow>
          (case send_deletes env toDelete p1 w of
             Blocks \<Rightarrow> Blocks
           | Panics m \<Rightarrow> Panics m
           | Returns (p2, w2) \<Rightarrow>
               (let prewarmData = \<lparr>pck_Kind = kind, pck_Memory = memory\<rparr> in
                case bucket (prewarmed p2) prewarmData of
                  c # rest \<Rightarrow>
                    (case poke_prewarm (p2\<lparr>prewarmed := AList.update prewarmData rest (prewarmed p2)\<rparr>) of
                       Blocks \<Rightarrow> Blocks
                     | Panics m \<Rightarrow> Panics m
                     | Returns p3 \<Rightarrow>
                         (let (r, w3) = prewarm_finish env data c w2 in Returns (r, p3, w3)))
                | [] \<Rightarrow> Returns (create_cold env data kind memory p2 w2))))"

section \<open>Get, Put and PutToDestroy\<close>

text \<open>\<open>inFlightMemory.Add(-x)\<close> followed by \<open>inFlight.Release(x)\<close>.\<close>

definition release_capacity :: "('w, 's) PoolEnv \<Rightarrow> ByteSize \<Rightarrow> 's ContainerPool \<Rightarrow> 's ContainerPool" where
  "release_capacity env memory p =
     p\<lparr>inFlightMemory := inFlightMemory p + (- memory),
       inFlight := sem_Release (pe_semaphore env) (int64 memory) (inFlight p)\<rparr>"

definition Get ::
  "('w, 's) PoolEnv \<Rightarrow> string \<Rightarrow> ActivationMessageFunction \<Rightarrow> string \<Rightarrow> ByteSize
   \<Rightarrow> 's ContainerPool \<Rightarrow> 'w \<Rightarrow> ((PooledContainer \<times> bool) result \<times> 's ContainerPool \<times> 'w) outcome" where
  "Get env namespace fnMeta kind memory p w =
     (let (acqErr, sem1) = sem_Acquire (pe_semaphore env) (int64 memory) (inFlight p);
          p1 = p\<lparr>inFlight := sem1\<rparr> in
      case acqErr of
        Some err \<Rightarrow> Returns (Inl (Errorf ''failed to acquire semaphore: %w'' [err]), p1, w)
      | None \<Rightarrow>
          (let inFl = inFlightMemory p1 + memory;
               p2 = p1\<lparr>inFlightMemory := inFl\<rparr> in
           case getContainer env namespace fnMeta kind memory inFl p2 w of
             Blocks \<Rightarrow> Blocks
           | Panics m \<Rightarrow> Panics m
           | Returns (Inl err, p3, w1) \<Rightarrow>
               Returns (Inl (Errorf ''failed to get container: %w'' [err]), release_capacity env memory p3, w1)
           | Returns (Inr res, p3, w1) \<Rightarrow> Returns (Inr res, p3, w1)))"

text \<open>The critical section of \<open>Put\<close>.\<close>

definition put_idle :: "PooledContainer \<Rightarrow> 's ContainerPool \<Rightarrow> 's ContainerPool" where
  "put_idle c p =
     p\<lparr>idlesMemory := idlesMemory p + pc_memory c,
       idles := AList.update (pc_initializedFor c) (bucket (idles p) (pc_initializedFor c) @ [c]) (idles p)\<rparr>"

definition Put ::
  "('w, 's) PoolEnv \<Rightarrow> PooledContainer \<Rightarrow> 's ContainerPool \<Rightarrow> 'w \<Rightarrow> ('s ContainerPool \<times> 'w) outcome" where
  "Put env container p w =
     (let (now, w1) = pe_Now env w;
          c = container\<lparr>pc_lastUsed := now\<rparr>;
          w2 = op_PauseEventually (pe_containers env) (pc_Container c) pauseGrace w1 in
      if idlesLocked p then Blocks
      else Returns (release_capacity env (pc_memory c) (put_idle c p), w2))"

definition PutToDestroy ::
  "('w, 's) PoolEnv \<Rightarrow> PooledContainer \<Rightarrow> 's ContainerPool \<Rightarrow> 'w \<Rightarrow> go_error option \<times> 's ContainerPool \<times> 'w" where
  "PutToDestroy env container p w =
     (let (rmErr, w1) = PooledContainer_Remove env container w
      in (map_option (\<lambda>err. Errorf ''failed to delete container when returning it: %w'' [err]) rmErr,
          release_capacity env (pc_memory container) p, w1))"

section \<open>Reaping, prewarming, shutting down\<close>

text \<open>The containers of a bucket that are not younger than the cutoff, a prefix of it.\<close>

definition reap_prefix :: "Time \<Rightarrow> PooledContainer list \<Rightarrow> PooledContainer list" where
  "reap_prefix olderThan containers = takeWhile (\<lambda>c. \<not> pc_lastUsed c > olderThan) containers"

definition reap_bucket :: "Time \<Rightarrow> WarmContainerKey \<Rightarrow> 's ContainerPool \<Rightarrow> PooledContainer list \<times> 's ContainerPool" where
  "reap_bucket olderThan data p =
     (let containers = bucket (idles p) data;
          toDelete = reap_prefix olderThan containers;
          toKeep = drop (length toDelete) containers
      in (toDelete,
          p\<lparr>idlesMemory := idlesMemory p - sum_list (map pc_memory toDelete),
            idles := (if toKeep \<noteq> [] then AList.update data toKeep (idles p)
                      else AList.delete data (idles p))\<rparr>))"

fun reap_collect ::
  "Time \<Rightarrow> WarmContainerKey list \<Rightarrow> 's ContainerPool \<Rightarrow> PooledContainer list \<times> 's ContainerPool" where
  "reap_collect olderThan [] p = ([], p)"
| "reap_collect olderThan (k # ks) p =
     (let (del1, p1) = reap_bucket olderThan k p;
          (del2, p2) = reap_collect olderThan ks p1
      in (del1 @ del2, p2))"

definition reap ::
  "('w, 's) PoolEnv \<Rightarrow> Time \<Rightarrow> 's ContainerPool \<Rightarrow> 'w \<Rightarrow> (go_error list \<times> 's ContainerPool \<times> 'w) outcome" where
  "reap env olderThan p w =
     (if idlesLocked p then Blocks
      else let (toDelete, p1) = reap_collect olderThan (pe_idlesOrder env (idles p)) p;
               (errs, w1) = remove_all env ''failed to unpause container during reaping: %w''
                 ''failed to delete container during reaping: %w'' toDelete w
           in Returns (errs, p1, w1))"

text \<open>How many containers each prewarm configuration lacks, under \<open>prewarmMux\<close>.\<close>

fun stemcell_creations ::
  "string \<Rightarrow> RuntimeStemcellConfig list \<Rightarrow> prewarm_map \<Rightarrow> (PrewarmContainerKey \<times> int) list
   \<Rightarrow> (PrewarmContainerKey \<times> int) list" where
  "stemcell_creations kind [] pw acc = acc"
| "stemcell_creations kind (sc # scs) pw acc =
     (let prewarmData = \<lparr>pck_Kind = kind, pck_Memory = rsc_Memory sc\<rparr> in
      stemcell_creations kind scs pw
        (AList.update prewarmData (rsc_Count sc - int (length (bucket pw prewarmData))) acc))"

fun necessary_creations ::
  "string list \<Rightarrow> RuntimeManifests \<Rightarrow> prewarm_map \<Rightarrow> (PrewarmContainerKey \<times> int) list
   \<Rightarrow> (PrewarmContainerKey \<times> int) list" where
  "necessary_creations [] ms pw acc = acc"
| "necessary_creations (family # fams) ms pw acc =
     (if HasSuffix family '':default'' then necessary_creations fams ms pw acc
      else case map_of ms family of
             None \<Rightarrow> necessary_creations fams ms pw acc
           | Some m \<Rightarrow> necessary_creations fams ms pw (stemcell_creations (rm_Kind m) (rm_Stemcells m) pw acc))"

text \<open>One container, created and appended to its list; then the two loops around it.\<close>

definition create_prewarm ::
  "('w, 's) PoolEnv \<Rightarrow> PrewarmContainerKey \<Rightarrow> 's ContainerPool \<Rightarrow> 'w \<Rightarrow> go_error option \<times> 's ContainerPool \<times> 'w" where
  "create_prewarm env k p w =
     (let containerNumber = containersCreated p + 1;
          p1 = p\<lparr>containersCreated := containerNumber\<rparr>;
          (created, w1) = op_CreateContainer (pe_factory env) (pck_Kind k) (pck_Memory k)
            (prewarmContainerName containerNumber (pck_Kind k)) w
      in case created of
           Inl err \<Rightarrow> (Some (Errorf ''failed to create prewarm container: %w'' [err]), p1, w1)
         | Inr container \<Rightarrow>
             (None,
              p1\<lparr>prewarmed := AList.update k
                   (bucket (prewarmed p1) k @ [new_pooled container zero_WarmContainerKey (pck_Memory k)])
                   (prewarmed p1)\<rparr>,
              w1))"

fun create_prewarms ::
  "('w, 's) PoolEnv \<Rightarrow> PrewarmContainerKey \<Rightarrow> nat \<Rightarrow> 's ContainerPool \<Rightarrow> 'w \<Rightarrow> go_error option \<times> 's ContainerPool \<times> 'w" where
  "create_prewarms env k 0 p w = (None, p, w)"
| "create_prewarms env k (Suc n) p w =
     (case create_prewarm env k p w of
        (Some e, p1, w1) \<Rightarrow> (Some e, p1, w1)
      | (None, p1, w1) \<Rightarrow> create_prewarms env k n p1 w1)"

fun run_creations ::
  "('w, 's) PoolEnv \<Rightarrow> PrewarmContainerKey list \<Rightarrow> (PrewarmContainerKey \<times> int) list \<Rightarrow> 's ContainerPool \<Rightarrow> 'w
   \<Rightarrow> go_error option \<times> 's ContainerPool \<times> 'w" where
  "run_creations env [] nc p w = (None, p, w)"
| "run_creations env (k # ks) nc p w =
     (case map_of nc k of
        None \<Rightarrow> run_creations env ks nc p w
      | Some toCreate \<Rightarrow>
          (case create_prewarms env k (nat toCreate) p w of
             (Some e, p1, w1) \<Rightarrow> (Some e, p1, w1)
           | (None, p1, w1) \<Rightarrow> run_creations env ks nc p1 w1))"

definition reconcilePrewarm ::
  "('w, 's) PoolEnv \<Rightarrow> 's ContainerPool \<Rightarrow> 'w \<Rightarrow> go_error option \<times> 's ContainerPool \<times> 'w" where
  "reconcilePrewarm env p w =
     (let nc = necessary_creations (pe_manifestOrder env (runtimeManifests p)) (runtimeManifests p) (prewarmed p) []
      in run_creations env (pe_creationOrder env nc) nc p w)"

text \<open>One round of the prewarming goroutine; a failed reconciliation asks for another one.\<close>

definition prewarm_step ::
  "('w, 's) PoolEnv \<Rightarrow> 's ContainerPool \<Rightarrow> 'w \<Rightarrow> ('s ContainerPool \<times> 'w) outcome" where
  "prewarm_step env p w =
     (if \<not> prewarmPoke p then Returns (p, w)
      else let (e, p1, w1) = reconcilePrewarm env (p\<lparr>prewarmPoke := False\<rparr>) w in
           case e of
             None \<Rightarrow> Returns (p1, w1)
           | Some _ \<Rightarrow>
               (case poke_prewarm p1 of
                  Returns p2 \<Rightarrow> Returns (p2, w1)
                | Panics m \<Rightarrow> Panics m
                | Blocks \<Rightarrow> Blocks))"

text \<open>The deleter empties its channel after the channel was closed.\<close>

fun drain_deletes ::
  "('w, 's) PoolEnv \<Rightarrow> PooledContainer list \<Rightarrow> 'w \<Rightarrow> 'w" where
  "drain_deletes env [] w = w"
| "drain_deletes env (c # cs) w =
     drain_deletes env cs (snd (remove_idle env ''failed to unpause container: %w'' ''failed to delete container while making space'' c w))"

fun remove_prewarmed ::
  "('w, 's) PoolEnv \<Rightarrow> PooledContainer list \<Rightarrow> 'w \<Rightarrow> go_error list \<times> 'w" where
  "remove_prewarmed env [] w = ([], w)"
| "remove_prewarmed env (c # cs) w =
     (let (e, w1) = PooledContainer_Remove env c w;
          (es, w2) = remove_prewarmed env cs w1
      in (case e of None \<Rightarrow> es | Some err \<Rightarrow> Errorf ''failed to delete prewarm container: %w'' [err] # es, w2))"

text \<open>All containers of a map, bucket by bucket in the iteration order.\<close>

definition range_values :: "('k \<times> 'v list) list \<Rightarrow> 'k list \<Rightarrow> 'v list" where
  "range_values m ks = concat (map (bucket m) ks)"

text \<open>
  \<open>Shutdown\<close> after all other calls, with one schedule of the goroutines that it waits for: once the channels are closed, the
  deleter empties its channel first, and the prewarm goroutine takes what is left in its own.
\<close>

definition Shutdown ::
  "('w, 's) PoolEnv \<Rightarrow> 's ContainerPool \<Rightarrow> 'w \<Rightarrow> (go_error list \<times> 's ContainerPool \<times> 'w) outcome" where
  "Shutdown env p w =
     (if poolClosed p then Panics ''close of closed channel''
      else let p0 = p\<lparr>poolClosed := True\<rparr>;
               w0 = drain_deletes env (containersToDeleteForSpace p0) w;
               p1 = p0\<lparr>containersToDeleteForSpace := []\<rparr>
           in case prewarm_step env p1 w0 of
                Panics m \<Rightarrow> Panics m
              | Blocks \<Rightarrow> Blocks
              | Returns (p2, w1) \<Rightarrow>
                  (if idlesLocked p2 then Blocks
                   else let (errs1, w2) = remove_all env ''failed to unpause idle container: %w''
                              ''failed to delete idle container: %w''
                              (range_values (idles p2) (pe_idlesOrder env (idles p2))) w1;
                            (errs2, w3) = remove_prewarmed env
                              (range_values (prewarmed p2) (pe_prewarmOrder env (prewarmed p2))) w2
                        in Returns (errs1 @ errs2, p2, w3)))"

text \<open>The state \<open>NewContainerPool\<close> starts with; a first reconciliation is requested at once.\<close>

definition NewContainerPool :: "'s \<Rightarrow> ByteSize \<Rightarrow> RuntimeManifests \<Rightarrow> 's ContainerPool" where
  "NewContainerPool sem userMemory manifests =
     \<lparr>runtimeManifests = manifests, maxMemory = userMemory, containersCreated = 0,
      inFlight = sem, inFlightMemory = 0, idlesLocked = False, idlesMemory = 0, idles = [],
      prewarmed = [], prewarmPoke = True, containersToDeleteForSpace = [], poolClosed = False\<rparr>"

end
