(* ===== verification/Pool_Invariant.thy ===== *)
theory Pool_Invariant
  imports Pool
begin

text \<open>
  The invariants of the container pool and what each operation does to them, operation by
  operation (\<open>pkg/exec/pool.go\<close>): well-formed buckets, exact memory accounting without
  wrap-around, least-recently-used eviction, capacity that is given back on every path.
\<close>

section \<open>Memory of a list of containers\<close>

definition mem_sum :: "PooledContainer list \<Rightarrow> nat" where
  "mem_sum cs = sum_list (map (\<lambda>c. unat (pc_memory c)) cs)"

lemma mem_sum_simps [simp]:
  "mem_sum [] = 0"
  "mem_sum (c # cs) = unat (pc_memory c) + mem_sum cs"
  "mem_sum (xs @ ys) = mem_sum xs + mem_sum ys"
  by (simp_all add: mem_sum_def)

lemma mem_sum_mset: "mset xs = mset ys \<Longrightarrow> mem_sum xs = mem_sum ys"
  unfolding mem_sum_def by (rule sum_list_map_mset)

lemma mem_sum_member: "c \<in> set cs \<Longrightarrow> unat (pc_memory c) \<le> mem_sum cs"
  unfolding mem_sum_def by (rule sum_list_member_le)

lemma mem_sum_split: "mset xs = mset ys + mset zs \<Longrightarrow> mem_sum xs = mem_sum ys + mem_sum zs"
  using mem_sum_mset [of xs "ys @ zs"] by simp

section \<open>Well-formed idle maps\<close>

text \<open>Distinct keys, and every container lies in the bucket it is initialised for.\<close>

definition idles_wf :: "idle_map \<Rightarrow> bool" where
  "idles_wf m = (distinct (map fst m) \<and> (\<forall>k. \<forall>c \<in> set (bucket m k). pc_initializedFor c = k))"

text \<open>Every bucket is ordered by \<open>lastUsed\<close>, the longest unused container first.\<close>

definition idles_sorted :: "idle_map \<Rightarrow> bool" where
  "idles_sorted m = (\<forall>k. sorted (map pc_lastUsed (bucket m k)))"

text \<open>\<open>idlesMemory\<close> is the memory of the idle containers, as a number that did not wrap.\<close>

definition acct_ok :: "'s ContainerPool \<Rightarrow> bool" where
  "acct_ok p = (unat (idlesMemory p) = mem_sum (flat (idles p)))"

lemma idles_wf_update:
  assumes "idles_wf m" and "\<And>c. c \<in> set xs \<Longrightarrow> pc_initializedFor c = k"
  shows "idles_wf (AList.update k xs m)"
  using assms by (simp add: idles_wf_def distinct_update bucket_update)

lemma idles_wf_delete: "idles_wf m \<Longrightarrow> idles_wf (AList.delete k m)"
  by (simp add: idles_wf_def distinct_delete bucket_delete)

lemma idles_wf_bucket: "idles_wf m \<Longrightarrow> c \<in> set (bucket m k) \<Longrightarrow> pc_initializedFor c = k"
  by (simp add: idles_wf_def)

lemma idles_wf_distinct: "idles_wf m \<Longrightarrow> distinct (map fst m)"
  by (simp add: idles_wf_def)

lemma idles_wf_in_flat:
  "idles_wf m \<Longrightarrow> c \<in> set (flat m) \<Longrightarrow> c \<in> set (bucket m (pc_initializedFor c))"
  using in_flat_iff_bucket [of m c] by (auto simp: idles_wf_def)

lemma idles_sorted_update:
  "idles_sorted m \<Longrightarrow> sorted (map pc_lastUsed xs) \<Longrightarrow> idles_sorted (AList.update k xs m)"
  by (simp add: idles_sorted_def bucket_update)

lemma idles_sorted_delete: "idles_sorted m \<Longrightarrow> idles_sorted (AList.delete k m)"
  by (simp add: idles_sorted_def bucket_delete)

lemma idles_wf_Nil [simp]: "idles_wf []"
  by (simp add: idles_wf_def)

lemma idles_sorted_Nil [simp]: "idles_sorted []"
  by (simp add: idles_sorted_def)

section \<open>Taking a warm container\<close>

lemma mset_butlast_last: "xs \<noteq> [] \<Longrightarrow> mset (butlast xs) + {#last xs#} = mset xs"
  by (metis append_butlast_last_id mset.simps(1,2) mset_append)

text \<open>Everything \<open>take_warm\<close> does, in one rule.\<close>

lemma take_warm_SomeD:
  assumes tw: "take_warm data p = Some (c, p')" and wf: "idles_wf (idles p)"
  shows "bucket (idles p) data \<noteq> []"
    and "c = last (bucket (idles p) data)"
    and "pc_initializedFor c = data"
    and "mset (flat (idles p)) = mset (c # flat (idles p'))"
    and "idles_wf (idles p')"
    and "idles_sorted (idles p) \<Longrightarrow> idles_sorted (idles p')"
    and "acct_ok p \<Longrightarrow> acct_ok p'"
    and "p' = p\<lparr>idles := idles p', idlesMemory := idlesMemory p'\<rparr>"
proof -
  let ?b = "bucket (idles p) data"
  show ne: "?b \<noteq> []" and c: "c = last ?b"
    using tw by (auto simp: take_warm_def Let_def split: if_splits)
  have p': "p' = p\<lparr>idles := AList.update data (butlast ?b) (idles p), idlesMemory := idlesMemory p - pc_memory c\<rparr>"
    using tw by (auto simp: take_warm_def Let_def split: if_splits)
  have c_in: "c \<in> set ?b" using ne c by simp
  then show "pc_initializedFor c = data" using wf by (rule idles_wf_bucket [rotated])
  have "mset ?b = mset [c] + mset (butlast ?b)"
    using mset_butlast_last [OF ne] c by simp
  from mset_flat_cut [OF this] show ms: "mset (flat (idles p)) = mset (c # flat (idles p'))"
    by (simp add: p')
  show "idles_wf (idles p')"
    using wf by (auto simp: p' intro!: idles_wf_update dest: in_set_butlastD idles_wf_bucket)
  show "idles_sorted (idles p')" if "idles_sorted (idles p)"
    using that by (simp add: p' idles_sorted_def bucket_update map_butlast sorted_butlast)
  show "acct_ok p'" if "acct_ok p"
  proof -
    have "mem_sum (flat (idles p)) = unat (pc_memory c) + mem_sum (flat (idles p'))"
      using mem_sum_mset [OF ms] by simp
    moreover from this that have "pc_memory c \<le> idlesMemory p"
      by (simp add: acct_ok_def word_le_nat_alt)
    ultimately show ?thesis using that by (simp add: acct_ok_def p' unat_sub_le)
  qed
  show "p' = p\<lparr>idles := idles p', idlesMemory := idlesMemory p'\<rparr>"
    by (simp add: p')
qed

lemma take_warm_None_iff: "take_warm data p = None \<longleftrightarrow> bucket (idles p) data = []"
  by (simp add: take_warm_def Let_def)

section \<open>Making space\<close>

definition heads :: "idle_map \<Rightarrow> WarmContainerKey list \<Rightarrow> PooledContainer list" where
  "heads m ks = map (\<lambda>k. hd (bucket m k)) (filter (\<lambda>k. bucket m k \<noteq> []) ks)"

lemma heads_simps [simp]:
  "heads m [] = []"
  "heads m (k # ks) = (if bucket m k = [] then heads m ks else hd (bucket m k) # heads m ks)"
  by (simp_all add: heads_def)

text \<open>The inner loop computes a head with the smallest \<open>lastUsed\<close>.\<close>

lemma longest_unused_Some:
  "longest_unused ks m acc = Some c \<Longrightarrow>
     (c \<in> set (heads m ks) \<or> acc = Some c) \<and>
     (\<forall>h \<in> set (heads m ks). pc_lastUsed c \<le> pc_lastUsed h) \<and>
     (\<forall>a. acc = Some a \<longrightarrow> pc_lastUsed c \<le> pc_lastUsed a)"
proof (induction ks m acc rule: longest_unused.induct)
  case (2 k ks m longest)
  then show ?case
    by (cases "bucket m k") (auto split: option.splits if_splits)
qed auto

lemma longest_unused_None:
  "longest_unused ks m acc = None \<longleftrightarrow> acc = None \<and> (\<forall>k \<in> set ks. bucket m k = [])"
proof (induction ks m acc rule: longest_unused.induct)
  case (2 k ks m longest)
  then show ?case
    by (cases "bucket m k") (auto split: option.splits)
qed auto

lemma in_heads_bucket: "c \<in> set (heads m ks) \<Longrightarrow> \<exists>k rest. k \<in> set ks \<and> bucket m k = c # rest"
  by (auto simp: heads_def) (metis list.collapse)

text \<open>
  The container the inner loop picks is the head of the bucket it is initialised for; with
  sorted buckets no idle container was used before it.
\<close>

lemma longest_unused_picks:
  assumes wf: "idles_wf m" and ord: "gm_order ord"
    and pick: "longest_unused (ord m) m None = Some c"
  shows "\<exists>rest. bucket m (pc_initializedFor c) = c # rest"
    and "idles_sorted m \<Longrightarrow> d \<in> set (flat m) \<Longrightarrow> pc_lastUsed c \<le> pc_lastUsed d"
proof -
  from longest_unused_Some [OF pick]
  have c_head: "c \<in> set (heads m (ord m))"
    and min: "\<And>h. h \<in> set (heads m (ord m)) \<Longrightarrow> pc_lastUsed c \<le> pc_lastUsed h"
    by auto
  from in_heads_bucket [OF c_head] obtain k rest where k: "bucket m k = c # rest" by blast
  with wf have "pc_initializedFor c = k" by (auto intro: idles_wf_bucket)
  with k show "\<exists>rest. bucket m (pc_initializedFor c) = c # rest" by blast
  show "pc_lastUsed c \<le> pc_lastUsed d" if srt: "idles_sorted m" and d: "d \<in> set (flat m)"
  proof -
    from d idles_wf_distinct [OF wf] obtain j
      where j: "j \<in> fst ` set m" and dj: "d \<in> set (bucket m j)"
      by (auto simp: in_flat_iff_bucket)
    have "hd (bucket m j) \<in> set (heads m (ord m))"
      using j dj gm_order_set [OF ord idles_wf_distinct [OF wf]] by (auto simp: heads_def)
    then have "pc_lastUsed c \<le> pc_lastUsed (hd (bucket m j))" by (rule min)
    also have "\<dots> \<le> pc_lastUsed d"
      using srt dj by (cases "bucket m j") (auto simp: idles_sorted_def dest: spec [of _ j])
    finally show ?thesis .
  qed
qed

lemma longest_unused_finds:
  assumes "idles_wf m" and "gm_order ord" and "flat m \<noteq> []"
  shows "longest_unused (ord m) m None \<noteq> None"
  using assms gm_order_set [OF assms(2) idles_wf_distinct [OF assms(1)]]
    in_flat_iff_bucket [OF idles_wf_distinct [OF assms(1)]]
  by (auto simp: longest_unused_None) (metis in_set_conv_nth length_greater_0_conv nth_mem
      list.set_intros(1) neq_Nil_conv list.set(1) empty_iff)

text \<open>What cutting off the head of a bucket does.\<close>

lemma drop_head_props:
  assumes wf: "idles_wf (idles p)" and b: "bucket (idles p) (pc_initializedFor c) = c # rest"
  shows "mset (flat (idles p)) = mset (c # flat (idles (drop_head c rest p)))"
    and "idles_wf (idles (drop_head c rest p))"
    and "idles_sorted (idles p) \<Longrightarrow> idles_sorted (idles (drop_head c rest p))"
    and "acct_ok p \<Longrightarrow> acct_ok (drop_head c rest p)"
proof -
  have "mset (bucket (idles p) (pc_initializedFor c)) = mset [c] + mset rest"
    by (simp add: b)
  from mset_flat_cut [OF this]
  show ms: "mset (flat (idles p)) = mset (c # flat (idles (drop_head c rest p)))"
    by (simp add: drop_head_def)
  show "idles_wf (idles (drop_head c rest p))"
    using wf b by (auto simp: drop_head_def intro!: idles_wf_update idles_wf_bucket [OF wf])
  show "idles_sorted (idles (drop_head c rest p))" if "idles_sorted (idles p)"
  proof -
    have "sorted (map pc_lastUsed (c # rest))"
      using that b by (metis idles_sorted_def)
    with that show ?thesis by (simp add: drop_head_def idles_sorted_update)
  qed
  show "acct_ok (drop_head c rest p)" if "acct_ok p"
  proof -
    have "mem_sum (flat (idles p)) = unat (pc_memory c) + mem_sum (flat (idles (drop_head c rest p)))"
      using mem_sum_mset [OF ms] by simp
    moreover from this that have "pc_memory c \<le> idlesMemory p"
      by (simp add: acct_ok_def word_le_nat_alt)
    ultimately show ?thesis using that
      by (simp add: acct_ok_def drop_head_def unat_sub_le)
  qed
qed

text \<open>
  What the loop that makes space promises: the evicted containers leave the idle map and
  nothing else does, the rest fits, the last eviction was necessary, and (with sorted buckets)
  the evicted containers are the longest unused ones, in that order.
\<close>

definition evicts :: "ByteSize \<Rightarrow> PooledContainer list \<Rightarrow> 's ContainerPool \<Rightarrow> 's ContainerPool \<Rightarrow> bool" where
  "evicts inFl ds p p' =
     (ds \<noteq> [] \<and>
      mset (flat (idles p)) = mset ds + mset (flat (idles p')) \<and>
      idles_wf (idles p') \<and> acct_ok p' \<and>
      p' = p\<lparr>idles := idles p', idlesMemory := idlesMemory p'\<rparr> \<and>
      mem_sum (flat (idles p')) + unat inFl \<le> unat (maxMemory p) \<and>
      unat (maxMemory p) < mem_sum (flat (idles p')) + unat (pc_memory (last ds)) + unat inFl \<and>
      (idles_sorted (idles p) \<longrightarrow>
         idles_sorted (idles p') \<and> sorted (map pc_lastUsed ds) \<and>
         (\<forall>d \<in> set ds. \<forall>c \<in> set (flat (idles p')). pc_lastUsed d \<le> pc_lastUsed c)))"

lemma evicts_Cons:
  assumes wf: "idles_wf (idles p)" and b: "bucket (idles p) (pc_initializedFor c) = c # rest"
    and min: "\<And>d. idles_sorted (idles p) \<Longrightarrow> d \<in> set (flat (idles p)) \<Longrightarrow> pc_lastUsed c \<le> pc_lastUsed d"
    and ev: "evicts inFl ds (drop_head c rest p) p'"
  shows "evicts inFl (c # ds) p p'"
proof -
  note dh = drop_head_props [OF wf b]
  have sub: "set ds \<union> set (flat (idles p')) \<subseteq> set (flat (idles p))"
    using ev dh(1) by (auto simp: evicts_def dest!: arg_cong [where f = set_mset])
  then show ?thesis
    using ev dh(1,3) min by (auto simp: evicts_def drop_head_def)
qed

text \<open>The loop ends with enough space whenever the request alone fits.\<close>

lemma make_space_ok:
  assumes "gm_order ord" and "idles_wf (idles p)" and "acct_ok p"
    and "unat inFl \<le> unat (maxMemory p)"
    and "mem_sum (flat (idles p)) + unat inFl < 2 ^ 64"
    and "unat (maxMemory p) < mem_sum (flat (idles p)) + unat inFl"
  shows "\<exists>ds p'. make_space ord inFl acc p = Returns (Inr (acc @ ds), p') \<and> evicts inFl ds p p'"
  using assms
proof (induction ord inFl acc p rule: make_space.induct)
  case (1 ord inFl acc p)
  note ord = "1.prems"(1) and wf = "1.prems"(2) and ac = "1.prems"(3)
  have "flat (idles p) \<noteq> []" using "1.prems"(4,6) by auto
  then obtain c where c: "longest_unused (ord (idles p)) (idles p) None = Some c"
    using longest_unused_finds [OF wf ord] by blast
  note pick = longest_unused_picks [OF wf ord c]
  from pick(1) obtain rest where b: "bucket (idles p) (pc_initializedFor c) = c # rest" by blast
  let ?p = "drop_head c rest p"
  note dh = drop_head_props [OF wf b]
  have sum: "mem_sum (flat (idles p)) = unat (pc_memory c) + mem_sum (flat (idles ?p))"
    using mem_sum_mset [OF dh(1)] by simp
  have mx: "maxMemory ?p = maxMemory p" by (simp add: drop_head_def)
  have nowrap: "unat (idlesMemory ?p + inFl) = mem_sum (flat (idles ?p)) + unat inFl"
    using dh(4) [OF ac] sum "1.prems"(5) by (subst unat_plus_no_wrap) (auto simp: acct_ok_def)
  have sub: "set (flat (idles ?p)) \<subseteq> set (flat (idles p))"
    using mset_eq_setD [OF dh(1)] by auto
  show ?case
  proof (cases "idlesMemory ?p + inFl \<le> maxMemory p")
    case True
    then have "evicts inFl [c] p ?p"
      using dh ac "1.prems"(6) sum nowrap pick(2) sub
      by (auto simp: evicts_def word_le_nat_alt drop_head_def)
    with True show ?thesis
      by (subst make_space.simps) (auto simp: c b)
  next
    case False
    then have "unat (maxMemory ?p) < mem_sum (flat (idles ?p)) + unat inFl"
      using nowrap mx by (simp add: word_le_nat_alt)
    then obtain ds p' where ms: "make_space ord inFl (acc @ [c]) ?p = Returns (Inr ((acc @ [c]) @ ds), p')"
      and ev: "evicts inFl ds ?p p'"
      using "1.IH" [OF c b False ord dh(2) dh(4) [OF ac]] "1.prems"(4,5) sum mx by auto
    have "evicts inFl (c # ds) p p'"
      by (rule evicts_Cons [OF wf b pick(2) ev])
    moreover have "make_space ord inFl acc p = Returns (Inr (acc @ c # ds), p')"
      using False ms by (subst make_space.simps) (simp add: c b)
    ultimately show ?thesis by blast
  qed
qed

section \<open>The critical section of \<open>getContainer\<close>\<close>

text \<open>
  Under the accounting invariant the section never blocks, never panics and never reports
  that it could not make space.
\<close>

lemma idles_section_cases:
  assumes ord: "gm_order ord" and wf: "idles_wf (idles p)" and ac: "acct_ok p"
    and unlocked: "\<not> idlesLocked p"
    and fits: "unat inFl \<le> unat (maxMemory p)"
    and nowrap: "mem_sum (flat (idles p)) + unat inFl < 2 ^ 64"
  obtains (warm) c p' where "idles_section ord data inFl p = Returns (Warm c, p')"
      and "take_warm data p = Some (c, p')"
  | (roomy) "idles_section ord data inFl p = Returns (Space [], p)"
      and "bucket (idles p) data = []"
      and "mem_sum (flat (idles p)) + unat inFl \<le> unat (maxMemory p)"
  | (evict) ds p' where "idles_section ord data inFl p = Returns (Space ds, p')"
      and "bucket (idles p) data = []"
      and "unat (maxMemory p) < mem_sum (flat (idles p)) + unat inFl"
      and "evicts inFl ds p p'"
proof (cases "take_warm data p")
  case (Some r)
  then obtain c p' where "take_warm data p = Some (c, p')" by (cases r) auto
  with unlocked warm show ?thesis by (auto simp: idles_section_def)
next
  case None
  then have b: "bucket (idles p) data = []" by (simp add: take_warm_None_iff)
  have sum: "unat (idlesMemory p + inFl) = mem_sum (flat (idles p)) + unat inFl"
    using ac nowrap by (subst unat_plus_no_wrap) (auto simp: acct_ok_def)
  show ?thesis
  proof (cases "idlesMemory p + inFl > maxMemory p")
    case True
    then have gt: "unat (maxMemory p) < mem_sum (flat (idles p)) + unat inFl"
      using sum by (simp add: word_less_nat_alt)
    from make_space_ok [OF ord wf ac fits nowrap gt, of "[]"] obtain ds p'
      where "make_space ord inFl [] p = Returns (Inr ds, p')" and "evicts inFl ds p p'" by auto
    with None True unlocked b gt evict show ?thesis by (auto simp: idles_section_def)
  next
    case False
    with None unlocked sum b roomy show ?thesis
      by (auto simp: idles_section_def word_less_nat_alt)
  qed
qed

section \<open>The paths of \<open>getContainer\<close> outside the critical section\<close>

lemma warm_finish_InrD:
  assumes "warm_finish env ns c w = (Inr (c', reused), w')"
  shows "reused \<and> pc_memory c' = pc_memory c \<and> pc_initializedFor c' = pc_initializedFor c
    \<and> pc_Container c' = pc_Container c \<and> pc_lastUsed c' = pc_lastUsed c"
  using assms
  by (auto simp: warm_finish_def Let_def split: prod.splits option.splits if_splits sum.splits)

lemma setup_firewall_InrD:
  assumes "setup_firewall env ns fail c w = (Inr c', w')"
  shows "pc_memory c' = pc_memory c \<and> pc_initializedFor c' = pc_initializedFor c
    \<and> pc_Container c' = pc_Container c"
  using assms
  by (auto simp: setup_firewall_def Let_def split: prod.splits if_splits sum.splits)

lemma prewarm_finish_InrD:
  assumes "prewarm_finish env data c w = (Inr (c', reused), w')"
  shows "\<not> reused \<and> pc_memory c' = pc_memory c \<and> pc_initializedFor c' = data
    \<and> pc_Container c' = pc_Container c"
  using assms
  by (auto simp: prewarm_finish_def Let_def split: prod.splits sum.splits
      dest!: setup_firewall_InrD)

lemma create_cold_pool:
  "fst (snd (create_cold env data kind memory p w)) = p\<lparr>containersCreated := containersCreated p + 1\<rparr>"
  by (simp add: create_cold_def Let_def split: prod.splits sum.splits)

lemma create_cold_InrD:
  assumes "create_cold env data kind memory p w = (Inr (c, reused), p', w')"
  shows "\<not> reused \<and> pc_memory c = memory \<and> pc_initializedFor c = data"
  using assms
  by (auto simp: create_cold_def Let_def new_pooled_def split: prod.splits sum.splits
      dest!: setup_firewall_InrD)

lemma deleter_step_pool:
  "fst (deleter_step env p w) = p\<lparr>containersToDeleteForSpace := tl (containersToDeleteForSpace p)\<rparr>"
  by (simp add: deleter_step_def Let_def split: list.splits prod.splits)

text \<open>Sends never block on an open channel, and the buffer never exceeds its capacity.\<close>

lemma send_delete_returns:
  assumes "\<not> poolClosed p"
  shows "\<exists>n w'. send_delete env c p w = Returns
     (p\<lparr>containersToDeleteForSpace := drop n (containersToDeleteForSpace p) @ [c]\<rparr>, w') \<and>
     (length (containersToDeleteForSpace p) \<le> deleteBuffer \<longrightarrow>
        length (drop n (containersToDeleteForSpace p) @ [c]) \<le> deleteBuffer)"
proof (cases "length (containersToDeleteForSpace p) < deleteBuffer")
  case True
  with assms show ?thesis
    by (intro exI [of _ 0] exI [of _ w]) (simp add: send_delete_def)
next
  case False
  obtain p1 w1 where d: "deleter_step env p w = (p1, w1)" by force
  then have "p1 = p\<lparr>containersToDeleteForSpace := drop 1 (containersToDeleteForSpace p)\<rparr>"
    using deleter_step_pool [of env p w] by (simp add: drop_Suc)
  with False assms d show ?thesis
    by (intro exI [of _ 1] exI [of _ w1]) (auto simp: send_delete_def deleteBuffer_def)
qed

lemma send_deletes_returns:
  assumes "\<not> poolClosed p"
  shows "\<exists>q w'. send_deletes env ds p w = Returns (p\<lparr>containersToDeleteForSpace := q\<rparr>, w') \<and>
     suffix q (containersToDeleteForSpace p @ ds) \<and>
     (length (containersToDeleteForSpace p) \<le> deleteBuffer \<longrightarrow> length q \<le> deleteBuffer)"
  using assms
proof (induction ds arbitrary: p w)
  case Nil
  then show ?case
    by (intro exI [of _ "containersToDeleteForSpace p"] exI [of _ w]) simp
next
  case (Cons d ds)
  let ?old = "containersToDeleteForSpace p"
  obtain n w1 where sd: "send_delete env d p w = Returns (p\<lparr>containersToDeleteForSpace := drop n ?old @ [d]\<rparr>, w1)"
    and len: "length ?old \<le> deleteBuffer \<longrightarrow> length (drop n ?old @ [d]) \<le> deleteBuffer"
    using send_delete_returns [OF Cons.prems, of env d w] by blast
  obtain q w' where rest: "send_deletes env ds (p\<lparr>containersToDeleteForSpace := drop n ?old @ [d]\<rparr>) w1
        = Returns (p\<lparr>containersToDeleteForSpace := q\<rparr>, w')"
    and suf: "suffix q ((drop n ?old @ [d]) @ ds)"
    and len': "length (drop n ?old @ [d]) \<le> deleteBuffer \<longrightarrow> length q \<le> deleteBuffer"
    using Cons.IH [of "p\<lparr>containersToDeleteForSpace := drop n ?old @ [d]\<rparr>" w1] Cons.prems by auto
  have "suffix ((drop n ?old @ [d]) @ ds) (?old @ d # ds)"
    by (metis append.assoc append_Cons append_Nil append_take_drop_id suffixI)
  with suf have "suffix q (?old @ d # ds)" by (rule suffix_order.trans)
  with sd rest len len' show ?case by auto
qed

section \<open>Ownership of containers\<close>

text \<open>
  \<open>used w\<close> are the container IDs that the daemon has given out so far. It only grows, and a
  container that is created gets an ID that was never used before; these are the documented
  properties of docker's container IDs.
\<close>

definition grows :: "('w \<Rightarrow> string set) \<Rightarrow> ('w \<Rightarrow> 'a \<times> 'w) \<Rightarrow> bool" where
  "grows used f = (\<forall>w. used w \<subseteq> used (snd (f w)))"

definition ids_fresh :: "('w \<Rightarrow> string set) \<Rightarrow> ('w, 's) PoolEnv \<Rightarrow> bool" where
  "ids_fresh used env =
     ((\<forall>c. grows used (op_State (pe_containers env) c) \<and>
           grows used (op_Remove (pe_containers env) c) \<and>
           grows used (op_UnpauseIfNeeded (pe_containers env) c)) \<and>
      (\<forall>c d w. used w \<subseteq> used (op_PauseEventually (pe_containers env) c d w)) \<and>
      (\<forall>ns. grows used (op_NeedsPerContainerFirewallSetup (pe_firewall env) ns)) \<and>
      (\<forall>ip ns. grows used (op_SetupPerContainerFirewall (pe_firewall env) ip ns)) \<and>
      (\<forall>h. grows used (op_FirewallCleanup (pe_firewall env) h)) \<and>
      grows used (pe_Now env) \<and>
      (\<forall>kind memory name. grows used (op_CreateContainer (pe_factory env) kind memory name)) \<and>
      (\<forall>kind memory name w c w'.
         op_CreateContainer (pe_factory env) kind memory name w = (Inr c, w') \<longrightarrow>
           ctr_ID c \<notin> used w \<and> ctr_ID c \<in> used w'))"

named_theorems grows_intro \<open>rules that take the body of a world-changing operation apart\<close>

lemma growsD: "grows used f \<Longrightarrow> f w = (r, w') \<Longrightarrow> used w \<subseteq> used w'"
  by (metis grows_def snd_conv)

lemma grows_return [grows_intro]: "grows used (\<lambda>w. (x, w))"
  by (simp add: grows_def)

lemma grows_bind [grows_intro]:
  "grows used f \<Longrightarrow> (\<And>r. grows used (g r)) \<Longrightarrow> grows used (\<lambda>w. case f w of (r, w1) \<Rightarrow> g r w1)"
  by (fastforce simp: grows_def split: prod.splits)

lemma grows_case_option [grows_intro]:
  "grows used f \<Longrightarrow> (\<And>x. grows used (g x)) \<Longrightarrow>
   grows used (\<lambda>w. case r of None \<Rightarrow> f w | Some x \<Rightarrow> g x w)"
  by (cases r) auto

lemma grows_case_sum [grows_intro]:
  "(\<And>x. grows used (f x)) \<Longrightarrow> (\<And>x. grows used (g x)) \<Longrightarrow>
   grows used (\<lambda>w. case r of Inl x \<Rightarrow> f x w | Inr x \<Rightarrow> g x w)"
  by (cases r) auto

lemma grows_if [grows_intro]:
  "grows used f \<Longrightarrow> grows used g \<Longrightarrow> grows used (\<lambda>w. if b then f w else g w)"
  by (cases b) auto

lemma ids_fresh_ops:
  assumes "ids_fresh used env"
  shows "grows used (op_State (pe_containers env) c)"
    and "grows used (op_Remove (pe_containers env) c)"
    and "grows used (op_UnpauseIfNeeded (pe_containers env) c)"
    and "grows used (op_NeedsPerContainerFirewallSetup (pe_firewall env) ns)"
    and "grows used (op_SetupPerContainerFirewall (pe_firewall env) ip ns)"
    and "grows used (op_FirewallCleanup (pe_firewall env) h)"
    and "grows used (op_CreateContainer (pe_factory env) kind memory name)"
    and "grows used (pe_Now env)"
  using assms by (simp_all add: ids_fresh_def)

lemma ids_fresh_create:
  assumes "ids_fresh used env"
    and "op_CreateContainer (pe_factory env) kind memory name w = (Inr c, w')"
  shows "ctr_ID c \<notin> used w" and "ctr_ID c \<in> used w'"
  using assms unfolding ids_fresh_def by blast+

lemma grows_CleanupContainer [grows_intro]:
  "grows used st \<Longrightarrow> grows used rm \<Longrightarrow> grows used (CleanupContainer st rm err)"
  by (simp add: grows_def CleanupContainer_removes) blast

lemma grows_PooledContainer_State [grows_intro]:
  "ids_fresh used env \<Longrightarrow> grows used (PooledContainer_State env c)"
  unfolding PooledContainer_State_def [abs_def] by (intro ids_fresh_ops)

lemma grows_PooledContainer_Remove [grows_intro]:
  "ids_fresh used env \<Longrightarrow> grows used (PooledContainer_Remove env c)"
  unfolding PooledContainer_Remove_def [abs_def] Let_def by (intro grows_intro ids_fresh_ops)

lemma grows_cleanup_pooled [grows_intro]:
  "ids_fresh used env \<Longrightarrow> grows used (cleanup_pooled env c err)"
  unfolding cleanup_pooled_def [abs_def] by (intro grows_intro)

lemma grows_isBrokenByUser [grows_intro]:
  "ids_fresh used env \<Longrightarrow> grows used (isBrokenByUser env c)"
  unfolding isBrokenByUser_def [abs_def] Let_def by (intro grows_intro)

lemma grows_remove_idle [grows_intro]:
  "ids_fresh used env \<Longrightarrow> grows used (remove_idle env m1 m2 c)"
  unfolding remove_idle_def [abs_def] Let_def by (intro grows_intro ids_fresh_ops)

lemma grows_warm_finish [grows_intro]:
  "ids_fresh used env \<Longrightarrow> grows used (warm_finish env ns c)"
  unfolding warm_finish_def [abs_def] Let_def by (intro grows_intro ids_fresh_ops)

lemma grows_setup_firewall [grows_intro]:
  "ids_fresh used env \<Longrightarrow> (\<And>err. grows used (fail err)) \<Longrightarrow> grows used (setup_firewall env ns fail c)"
  unfolding setup_firewall_def [abs_def] Let_def by (intro grows_intro ids_fresh_ops)

lemma grows_prewarm_finish [grows_intro]:
  "ids_fresh used env \<Longrightarrow> grows used (prewarm_finish env data c)"
  unfolding prewarm_finish_def [abs_def] Let_def by (intro grows_intro)

text \<open>
  The IDs of a list of containers, the containers a pool owns (idle, prewarmed, waiting to be
  deleted) and the container that a result of \<open>Get\<close> hands to the caller.
\<close>

definition ids :: "PooledContainer list \<Rightarrow> string list" where
  "ids cs = map (\<lambda>c. ctr_ID (pc_Container c)) cs"

definition owned :: "'s ContainerPool \<Rightarrow> PooledContainer list" where
  "owned p = flat (idles p) @ flat (prewarmed p) @ containersToDeleteForSpace p"

definition handed :: "(PooledContainer \<times> bool) result \<Rightarrow> PooledContainer list" where
  "handed r = (case r of Inl _ \<Rightarrow> [] | Inr (c, _) \<Rightarrow> [c])"

text \<open>
  Containers only move, disappear or are created with a fresh ID: the containers \<open>cs'\<close> in
  world \<open>w'\<close> are among the containers \<open>cs\<close> of world \<open>w\<close> and the new ones.
\<close>

definition moves ::
  "('w \<Rightarrow> string set) \<Rightarrow> 'w \<Rightarrow> PooledContainer list \<Rightarrow> 'w \<Rightarrow> PooledContainer list \<Rightarrow> bool" where
  "moves used w cs w' cs' =
     (used w \<subseteq> used w' \<and>
      (\<exists>new. distinct new \<and> set new \<inter> used w = {} \<and> set new \<subseteq> used w' \<and>
             mset (ids cs') \<subseteq># mset (ids cs) + mset new))"

definition owner_inv :: "('w \<Rightarrow> string set) \<Rightarrow> 'w \<Rightarrow> PooledContainer list \<Rightarrow> bool" where
  "owner_inv used w cs = (distinct (ids cs) \<and> set (ids cs) \<subseteq> used w)"

lemma ids_simps [simp]:
  "ids [] = []" "ids (c # cs) = ctr_ID (pc_Container c) # ids cs" "ids (xs @ ys) = ids xs @ ids ys"
  by (simp_all add: ids_def)

lemma mset_ids: "mset xs = mset ys \<Longrightarrow> mset (ids xs) = mset (ids ys)"
  unfolding ids_def by (metis mset_map)

lemma moves_old: "used w \<subseteq> used w' \<Longrightarrow> mset (ids cs') \<subseteq># mset (ids cs) \<Longrightarrow> moves used w cs w' cs'"
  unfolding moves_def by (intro conjI exI [of _ "[]"]) auto

lemma moves_new:
  "used w \<subseteq> used w' \<Longrightarrow> ctr_ID (pc_Container c) \<notin> used w \<Longrightarrow> ctr_ID (pc_Container c) \<in> used w'
   \<Longrightarrow> mset cs' = mset (c # cs) \<Longrightarrow> moves used w cs w' cs'"
  using mset_ids [of cs' "c # cs"] unfolding moves_def
  by (intro conjI exI [of _ "[ctr_ID (pc_Container c)]"]) auto

lemma moves_trans:
  assumes "moves used w1 as w2 bs" and "moves used w2 bs w3 cs"
  shows "moves used w1 as w3 cs"
proof -
  from assms(1) obtain n where n: "used w1 \<subseteq> used w2" "distinct n" "set n \<inter> used w1 = {}"
    "set n \<subseteq> used w2" "mset (ids bs) \<subseteq># mset (ids as) + mset n" by (auto simp: moves_def)
  from assms(2) obtain m where m: "used w2 \<subseteq> used w3" "distinct m" "set m \<inter> used w2 = {}"
    "set m \<subseteq> used w3" "mset (ids cs) \<subseteq># mset (ids bs) + mset m" by (auto simp: moves_def)
  have "mset (ids cs) \<subseteq># mset (ids as) + mset (n @ m)"
    using subset_mset.order_trans [OF m(5) subset_mset.add_right_mono [OF n(5), of "mset m"]]
    by (simp add: union_assoc)
  moreover have "distinct (n @ m)" using n m by auto
  ultimately show ?thesis using n m unfolding moves_def by (intro conjI exI [of _ "n @ m"]) auto
qed

lemma moves_append: "moves used w as w' bs \<Longrightarrow> moves used w (as @ cs) w' (bs @ cs)"
proof -
  assume "moves used w as w' bs"
  then obtain n where n: "used w \<subseteq> used w'" "distinct n" "set n \<inter> used w = {}" "set n \<subseteq> used w'"
    and sub: "mset (ids bs) \<subseteq># mset (ids as) + mset n" by (auto simp: moves_def)
  have "mset (ids (bs @ cs)) \<subseteq># mset (ids (as @ cs)) + mset n"
    using subset_mset.add_right_mono [OF sub, of "mset (ids cs)"] by (simp add: union_assoc union_commute)
  with n show ?thesis unfolding moves_def by blast
qed

lemma moves_mset: "moves used w as w' bs \<Longrightarrow> mset cs = mset as \<Longrightarrow> mset ds = mset bs \<Longrightarrow> moves used w cs w' ds"
  using mset_ids [of cs as] mset_ids [of ds bs] unfolding moves_def by simp

text \<open>A move keeps the IDs distinct and known to the daemon.\<close>

lemma owner_inv_moves:
  assumes "owner_inv used w cs" and "moves used w cs w' cs'"
  shows "owner_inv used w' cs'"
proof -
  from assms(2) obtain n where n: "used w \<subseteq> used w'" "distinct n" "set n \<inter> used w = {}"
    "set n \<subseteq> used w'" and sub: "mset (ids cs') \<subseteq># mset (ids cs @ n)" by (auto simp: moves_def)
  have d: "distinct (ids cs @ n)" using assms(1) n by (auto simp: owner_inv_def)
  have "count (mset (ids cs')) x \<le> 1" for x
    using sub d by (metis distinct_count_atmost_1 mset_subset_eq_count order.trans le_numeral_extra(4) zero_le)
  then have "distinct (ids cs')" by (metis distinct_count_atmost_1 count_mset_0_iff le_antisym not_one_le_zero
        Suc_leI count_greater_zero_iff set_mset_mset One_nat_def)
  moreover have "set (ids cs') \<subseteq> used w'"
    using set_mset_mono [OF sub] assms(1) n unfolding owner_inv_def by (simp, blast)
  ultimately show ?thesis by (simp add: owner_inv_def)
qed

lemma send_deletes_grows:
  assumes fresh: "ids_fresh used env"
  shows "send_deletes env ds p w = Returns (p', w') \<Longrightarrow> used w \<subseteq> used w'"
proof (induction ds arbitrary: p w)
  case (Cons d ds)
  then obtain p1 w1 where sd: "send_delete env d p w = Returns (p1, w1)"
    and rest: "send_deletes env ds p1 w1 = Returns (p', w')"
    by (auto split: outcome.splits prod.splits)
  have "used w \<subseteq> used w1"
    using sd growsD [OF grows_remove_idle [OF fresh]]
    by (fastforce simp: send_delete_def deleter_step_def Let_def split: if_splits prod.splits list.splits)
  with Cons.IH [OF rest] show ?case by blast
qed simp

lemma mset_ids_mono: "mset xs \<subseteq># mset ys \<Longrightarrow> mset (ids xs) \<subseteq># mset (ids ys)"
  unfolding ids_def mset_map by (rule image_mset_subseteq_mono)

lemma suffix_mset: "suffix xs ys \<Longrightarrow> mset xs \<subseteq># mset ys"
  by (auto simp: suffix_def)

lemma handed_simps [simp]: "handed (Inl e) = []" "handed (Inr (c, reused)) = [c]"
  by (simp_all add: handed_def)

text \<open>Evicted containers move from the idle map to the channel, or are deleted.\<close>

lemma send_deletes_moves:
  assumes fresh: "ids_fresh used env"
    and sd: "send_deletes env ds p1 w = Returns (p1\<lparr>containersToDeleteForSpace := q\<rparr>, w2)"
    and suf: "suffix q (containersToDeleteForSpace p1 @ ds)"
    and split: "mset (flat (idles p)) = mset ds + mset (flat (idles p1))"
    and same: "prewarmed p1 = prewarmed p" "containersToDeleteForSpace p1 = containersToDeleteForSpace p"
  shows "moves used w (owned p) w2 (owned (p1\<lparr>containersToDeleteForSpace := q\<rparr>))"
proof (rule moves_old)
  show "used w \<subseteq> used w2" by (rule send_deletes_grows [OF fresh sd])
  have "mset q \<subseteq># mset ds + mset (containersToDeleteForSpace p)"
    using suffix_mset [OF suf] same by (simp add: union_commute)
  from subset_mset.add_left_mono [OF this, of "mset (flat (idles p1)) + mset (flat (prewarmed p))"]
  have "mset (owned (p1\<lparr>containersToDeleteForSpace := q\<rparr>)) \<subseteq># mset (owned p)"
    using split same by (simp add: owned_def ac_simps)
  then show "mset (ids (owned (p1\<lparr>containersToDeleteForSpace := q\<rparr>))) \<subseteq># mset (ids (owned p))"
    by (rule mset_ids_mono)
qed

lemma create_cold_moves:
  assumes fresh: "ids_fresh used env"
    and cc: "create_cold env data kind memory p w = (r, p', w')"
  shows "moves used w (owned p) w' (handed r @ owned p')"
proof -
  have p': "p' = p\<lparr>containersCreated := containersCreated p + 1\<rparr>"
    using create_cold_pool [of env data kind memory p w] cc by simp
  then have same: "owned p' = owned p" by (simp add: owned_def)
  let ?name = "specificContainerName (containersCreated p + 1) (wck_InvocationNamespace data) (amf_Name (wck_Function data))"
  obtain cr w1 where cr: "op_CreateContainer (pe_factory env) kind memory ?name w = (cr, w1)" by force
  note g1 = growsD [OF ids_fresh_ops(7) [OF fresh] cr]
  show ?thesis
  proof (cases cr)
    case (Inl e)
    with cc cr have "r = Inl (Errorf ''failed to create a container: %w'' [e])" "w' = w1"
      by (auto simp: create_cold_def)
    with g1 same show ?thesis by (auto intro: moves_old)
  next
    case (Inr ctr)
    let ?fail = "\<lambda>err. CleanupContainer (op_State (pe_containers env) ctr) (op_Remove (pe_containers env) ctr)
        (Errorf ''failed to setup firewall for cold container: %w'' [err])"
    obtain fr w2 where fr: "setup_firewall env (wck_InvocationNamespace data) ?fail (new_pooled ctr data memory) w1 = (fr, w2)"
      by force
    have w': "w' = w2" and r: "r = (case fr of Inl e \<Rightarrow> Inl e | Inr c \<Rightarrow> Inr (c, False))"
      using cc cr Inr fr by (auto simp: create_cold_def)
    have g2: "used w1 \<subseteq> used w2"
      by (rule growsD [OF grows_setup_firewall [OF fresh grows_CleanupContainer] fr])
        (rule ids_fresh_ops [OF fresh])+
    note nc = ids_fresh_create [OF fresh cr [unfolded Inr]]
    show ?thesis
    proof (cases fr)
      case (Inl e)
      with r same w' g1 g2 show ?thesis by (auto intro: moves_old)
    next
      case inr: (Inr c)
      then have "pc_Container c = ctr"
        using setup_firewall_InrD fr by (fastforce simp: new_pooled_def)
      with r same w' g1 g2 nc inr show ?thesis by (auto intro!: moves_new)
    qed
  qed
qed

lemma warm_moves:
  assumes fresh: "ids_fresh used env" and wf: "idles_wf (idles p)"
    and tw: "take_warm data p = Some (c, p1)" and f: "warm_finish env ns c w = (r, w')"
  shows "moves used w (owned p) w' (handed r @ owned p1)"
proof -
  note T = take_warm_SomeD [OF tw wf]
  have same: "prewarmed p1 = prewarmed p" "containersToDeleteForSpace p1 = containersToDeleteForSpace p"
    by (subst T(8), simp)+
  have g: "used w \<subseteq> used w'" by (rule growsD [OF grows_warm_finish [OF fresh] f])
  have ms: "mset (ids (owned p)) = mset (ids (c # owned p1))"
    by (rule mset_ids) (simp add: owned_def same T(4))
  show ?thesis
  proof (cases r)
    case (Inl e)
    with g ms show ?thesis by (auto intro: moves_old)
  next
    case (Inr res)
    with f have "pc_Container (fst res) = pc_Container c"
      by (cases res) (auto dest: warm_finish_InrD)
    with g ms Inr show ?thesis by (cases res) (auto intro: moves_old)
  qed
qed

lemma prewarm_moves:
  assumes fresh: "ids_fresh used env" and b: "bucket (prewarmed p) k = c # rest"
    and f: "prewarm_finish env data c w = (r, w')"
    and p': "idles p' = idles p" "prewarmed p' = AList.update k rest (prewarmed p)"
      "containersToDeleteForSpace p' = containersToDeleteForSpace p"
  shows "moves used w (owned p) w' (handed r @ owned p')"
proof -
  have g: "used w \<subseteq> used w'" by (rule growsD [OF grows_prewarm_finish [OF fresh] f])
  have "mset (bucket (prewarmed p) k) = mset [c] + mset rest" by (simp add: b)
  from mset_flat_cut [OF this] have ms: "mset (ids (owned p)) = mset (ids (c # owned p'))"
    by (intro mset_ids) (simp add: owned_def p')
  show ?thesis
  proof (cases r)
    case (Inl e)
    with g ms show ?thesis by (auto intro: moves_old)
  next
    case (Inr res)
    with f have "pc_Container (fst res) = pc_Container c"
      by (cases res) (auto dest: prewarm_finish_InrD)
    with g ms Inr show ?thesis by (cases res) (auto intro: moves_old)
  qed
qed

section \<open>The pool invariant\<close>

text \<open>
  The documented behaviour of the weighted semaphore: \<open>held s\<close> is the weight in use; a
  successful \<open>Acquire\<close> adds to it and never exceeds the size, a failed one leaves the
  semaphore alone, \<open>Release\<close> gives the weight back.
\<close>

definition semaphore_ok :: "'s SemaphoreOps \<Rightarrow> int \<Rightarrow> ('s \<Rightarrow> int) \<Rightarrow> bool" where
  "semaphore_ok ops cap held =
     ((\<forall>n s s'. 0 \<le> n \<longrightarrow> sem_Acquire ops n s = (None, s') \<longrightarrow> held s' = held s + n \<and> held s' \<le> cap) \<and>
      (\<forall>n s e s'. sem_Acquire ops n s = (Some e, s') \<longrightarrow> s' = s) \<and>
      (\<forall>n s. 0 \<le> n \<longrightarrow> n \<le> held s \<longrightarrow> held (sem_Release ops n s) = held s - n))"

lemma semaphore_acquire:
  "semaphore_ok ops cap held \<Longrightarrow> sem_Acquire ops (int n) s = (None, s')
   \<Longrightarrow> held s' = held s + int n \<and> held s' \<le> cap"
  by (metis semaphore_ok_def of_nat_0_le_iff)

lemma semaphore_acquire_fails:
  "semaphore_ok ops cap held \<Longrightarrow> sem_Acquire ops n s = (Some e, s') \<Longrightarrow> s' = s"
  by (auto simp: semaphore_ok_def)

lemma semaphore_release:
  "semaphore_ok ops cap held \<Longrightarrow> int n \<le> held s \<Longrightarrow> held (sem_Release ops (int n) s) = held s - int n"
  by (metis semaphore_ok_def of_nat_0_le_iff)

text \<open>A container in the prewarm list for a key has the memory that the key names.\<close>

definition prewarm_wf :: "prewarm_map \<Rightarrow> bool" where
  "prewarm_wf m = (distinct (map fst m) \<and> (\<forall>k. \<forall>c \<in> set (bucket m k). pc_memory c = pck_Memory k))"

text \<open>
  \<open>out\<close> are the containers that \<open>Get\<close> handed out and that were not returned yet. The
  memory of the idle and of the handed-out containers together stays within the budget.
\<close>

definition pool_inv :: "('s \<Rightarrow> int) \<Rightarrow> 's ContainerPool \<Rightarrow> PooledContainer list \<Rightarrow> bool" where
  "pool_inv held p out =
     (idles_wf (idles p) \<and> acct_ok p \<and> \<not> idlesLocked p \<and> prewarm_wf (prewarmed p) \<and>
      unat (maxMemory p) < 2 ^ 63 \<and>
      unat (inFlightMemory p) = mem_sum out \<and> held (inFlight p) = int (mem_sum out) \<and>
      mem_sum (flat (idles p)) + mem_sum out \<le> unat (maxMemory p))"

lemma prewarm_wf_update:
  "prewarm_wf m \<Longrightarrow> (\<And>c. c \<in> set xs \<Longrightarrow> pc_memory c = pck_Memory k) \<Longrightarrow> prewarm_wf (AList.update k xs m)"
  by (simp add: prewarm_wf_def distinct_update bucket_update)

lemma prewarm_wf_bucket: "prewarm_wf m \<Longrightarrow> c \<in> set (bucket m k) \<Longrightarrow> pc_memory c = pck_Memory k"
  by (simp add: prewarm_wf_def)

lemma prewarm_wf_Nil [simp]: "prewarm_wf []"
  by (simp add: prewarm_wf_def)

lemma int64_small:
  assumes "unat w < 2 ^ 63"
  shows "int64 w = int (unat w)"
proof -
  from assms have "int (unat w) < int (2 ^ 63)" by (simp only: of_nat_less_iff)
  then have "uint w < 2 ^ 63" by simp
  moreover have "- (2 ^ 63) \<le> uint w" using order.trans [OF _ uint_ge_0 [of w]] by simp
  ultimately have "signed_take_bit 63 (uint w) = uint w" by (intro signed_take_bit_int_eq_self)
  then show ?thesis by (simp add: int64_def sint_uint)
qed

text \<open>
  What \<open>getContainer\<close> promises to \<open>Get\<close>, which has already added the request to the
  memory in flight (\<open>inFl\<close>): it returns, it leaves the accounting intact and the lock free,
  it changes neither the semaphore nor the memory in flight, and afterwards the idle
  containers fit beside everything in flight.
\<close>

definition got_ok ::
  "WarmContainerKey \<Rightarrow> ByteSize \<Rightarrow> ByteSize \<Rightarrow> 's ContainerPool
   \<Rightarrow> (PooledContainer \<times> bool) result \<Rightarrow> 's ContainerPool \<Rightarrow> bool" where
  "got_ok data memory inFl p r p' =
     (idles_wf (idles p') \<and> acct_ok p' \<and> \<not> idlesLocked p' \<and> prewarm_wf (prewarmed p') \<and>
      maxMemory p' = maxMemory p \<and> inFlight p' = inFlight p \<and>
      inFlightMemory p' = inFlightMemory p \<and> poolClosed p' = poolClosed p \<and>
      mem_sum (flat (idles p')) + unat inFl \<le> unat (maxMemory p) \<and>
      (idles_sorted (idles p) \<longrightarrow> idles_sorted (idles p')) \<and>
      set (flat (idles p')) \<subseteq> set (flat (idles p)) \<and>
      (\<forall>c reused. r = Inr (c, reused) \<longrightarrow>
         pc_memory c = memory \<and> pc_initializedFor c = data \<and>
         (reused \<longleftrightarrow> bucket (idles p) data \<noteq> [])))"

text \<open>The continuation after the section that made space (or found enough).\<close>

lemma getContainer_space:
  fixes p :: "'s ContainerPool"
  assumes sec: "idles_section (pe_idlesOrder env) data inFl p = Returns (Space ds, p1)"
    and data: "data = \<lparr>wck_InvocationNamespace = ns, wck_Function = fn\<rparr>"
    and p1: "p1 = p\<lparr>idles := idles p1, idlesMemory := idlesMemory p1\<rparr>"
    and empty: "bucket (idles p) data = []"
    and ok1: "idles_wf (idles p1)" "acct_ok p1"
      "idles_sorted (idles p) \<longrightarrow> idles_sorted (idles p1)"
      "set (flat (idles p1)) \<subseteq> set (flat (idles p))"
      "mem_sum (flat (idles p1)) + unat inFl \<le> unat (maxMemory p)"
    and p: "\<not> idlesLocked p" "\<not> poolClosed p" "prewarm_wf (prewarmed p)"
    and split: "mset (flat (idles p)) = mset ds + mset (flat (idles p1))"
  shows "\<exists>r p' w'. getContainer env ns fn kind memory inFl p w = Returns (r, p', w')
    \<and> got_ok data memory inFl p r p'
    \<and> (\<forall>used. ids_fresh used env \<longrightarrow> moves used w (owned p) w' (handed r @ owned p'))"
proof -
  have p1_frame: "idlesLocked p1 = idlesLocked p" "poolClosed p1 = poolClosed p"
    "prewarmed p1 = prewarmed p" "maxMemory p1 = maxMemory p" "inFlight p1 = inFlight p"
    "inFlightMemory p1 = inFlightMemory p"
    "containersToDeleteForSpace p1 = containersToDeleteForSpace p"
    by (subst p1, simp)+
  obtain q w2 where sd: "send_deletes env ds p1 w = Returns (p1\<lparr>containersToDeleteForSpace := q\<rparr>, w2)"
    and suf: "suffix q (containersToDeleteForSpace p1 @ ds)"
    using send_deletes_returns [of p1 env ds w] p(2) p1_frame(2) by auto
  let ?p2 = "p1\<lparr>containersToDeleteForSpace := q\<rparr>"
  let ?k = "\<lparr>pck_Kind = kind, pck_Memory = memory\<rparr>"
  show ?thesis
  proof (cases "bucket (prewarmed ?p2) ?k")
    case Nil
    obtain r p' w' where cc: "create_cold env data kind memory ?p2 w2 = (r, p', w')"
      by (metis prod_cases3)
    then have "p' = ?p2\<lparr>containersCreated := containersCreated ?p2 + 1\<rparr>"
      using create_cold_pool [of env data kind memory ?p2 w2] by simp
    moreover have "getContainer env ns fn kind memory inFl p w = Returns (r, p', w')"
      using sec sd Nil cc by (simp add: getContainer_def data)
    moreover have "moves used w (owned p) w' (handed r @ owned p')" if "ids_fresh used env" for used
      by (rule moves_trans [OF send_deletes_moves [OF that sd suf split p1_frame(3,7)]
            create_cold_moves [OF that cc]])
    ultimately show ?thesis
      using ok1 p p1_frame empty create_cold_InrD [of env data kind memory ?p2 w2] cc
      by (auto simp: got_ok_def acct_ok_def)
  next
    case (Cons c rest)
    obtain r w' where pf: "prewarm_finish env data c w2 = (r, w')" by force
    let ?p3 = "?p2\<lparr>prewarmed := AList.update ?k rest (prewarmed ?p2), prewarmPoke := True\<rparr>"
    have "getContainer env ns fn kind memory inFl p w = Returns (r, ?p3, w')"
      using sec sd Cons pf p(2) p1_frame(2) by (simp add: getContainer_def poke_prewarm_def data)
    moreover have "pc_memory c = memory"
      using prewarm_wf_bucket [of "prewarmed p" c ?k] Cons p(3) p1_frame(3) by simp
    moreover have "prewarm_wf (AList.update ?k rest (prewarmed p))"
      using p(3) Cons p1_frame(3) by (intro prewarm_wf_update) (auto dest: prewarm_wf_bucket [of _ _ ?k])
    moreover have "moves used w (owned p) w' (handed r @ owned ?p3)" if "ids_fresh used env" for used
      by (rule moves_trans [OF send_deletes_moves [OF that sd suf split p1_frame(3,7)]
            prewarm_moves [OF that Cons pf]]) simp_all
    ultimately show ?thesis
      using ok1 p p1_frame empty prewarm_finish_InrD [of env data c w2] pf
      by (auto simp: got_ok_def acct_ok_def)
  qed
qed

lemma getContainer_ok:
  fixes p :: "'s ContainerPool"
  assumes ord: "gm_order (pe_idlesOrder env)"
    and wf: "idles_wf (idles p)" and ac: "acct_ok p" and pw: "prewarm_wf (prewarmed p)"
    and lock: "\<not> idlesLocked p" and open_: "\<not> poolClosed p"
    and fits: "unat inFl \<le> unat (maxMemory p)"
    and nowrap: "mem_sum (flat (idles p)) + unat inFl < 2 ^ 64"
    and before: "mem_sum (flat (idles p)) + unat inFl \<le> unat (maxMemory p) + unat memory"
    and data: "data = \<lparr>wck_InvocationNamespace = ns, wck_Function = fn\<rparr>"
    and uniform: "\<And>c. c \<in> set (bucket (idles p) data) \<Longrightarrow> pc_memory c = memory"
  shows "\<exists>r p' w'. getContainer env ns fn kind memory inFl p w = Returns (r, p', w')
    \<and> got_ok data memory inFl p r p'
    \<and> (\<forall>used. ids_fresh used env \<longrightarrow> moves used w (owned p) w' (handed r @ owned p'))"
  using ord wf ac lock fits nowrap
proof (cases rule: idles_section_cases [where data = data])
  case (warm c p1)
  note tw = take_warm_SomeD [OF warm(2) wf]
  obtain r w' where f: "warm_finish env ns c w = (r, w')" by force
  have cm: "pc_memory c = memory" using tw(1,2) uniform by simp
  have "mem_sum (flat (idles p)) = unat memory + mem_sum (flat (idles p1))"
    using mem_sum_mset [OF tw(4)] cm by simp
  moreover have "set (flat (idles p1)) \<subseteq> set (flat (idles p))"
    using mset_eq_setD [OF tw(4)] by auto
  moreover have "idlesLocked p1 = idlesLocked p" "poolClosed p1 = poolClosed p"
    "prewarmed p1 = prewarmed p" "maxMemory p1 = maxMemory p" "inFlight p1 = inFlight p"
    "inFlightMemory p1 = inFlightMemory p"
    by (subst tw(8), simp)+
  ultimately have "got_ok data memory inFl p r p1"
    using tw(1,3,5,6,7) ac before pw lock cm warm_finish_InrD [of env ns c w] f
    by (auto simp: got_ok_def)
  moreover have "getContainer env ns fn kind memory inFl p w = Returns (r, p1, w')"
    using warm(1) f by (simp add: getContainer_def data)
  ultimately show ?thesis using warm_moves [OF _ wf warm(2) f] by blast
next
  case roomy
  then show ?thesis
    by (intro getContainer_space [OF _ data]) (use wf ac lock open_ pw in auto)
next
  case (evict ds p1)
  have "set (flat (idles p1)) \<subseteq> set (flat (idles p))"
    using evict(4) by (auto simp: evicts_def dest!: arg_cong [where f = set_mset])
  with evict show ?thesis
    by (intro getContainer_space [OF _ data]) (use lock open_ pw in \<open>auto simp: evicts_def\<close>)
qed

section \<open>Get, Put and PutToDestroy keep the invariant\<close>

text \<open>Giving capacity back, for memory that is part of what is in flight.\<close>

lemma release_capacity_ok:
  assumes sem: "semaphore_ok (pe_semaphore env) cap held"
    and fly: "unat (inFlightMemory p) = unat m + rest" "held (inFlight p) = int (unat m + rest)"
    and small: "unat m < 2 ^ 63"
  shows "unat (inFlightMemory (release_capacity env m p)) = rest"
    and "held (inFlight (release_capacity env m p)) = int rest"
proof -
  have "m \<le> inFlightMemory p" using fly(1) by (simp add: word_le_nat_alt)
  then have "unat (inFlightMemory p - m) = rest" using fly(1) by (simp add: unat_sub_le)
  then show "unat (inFlightMemory (release_capacity env m p)) = rest"
    by (simp add: release_capacity_def)
  show "held (inFlight (release_capacity env m p)) = int rest"
    using semaphore_release [OF sem, of "unat m" "inFlight p"] fly(2)
    by (simp add: release_capacity_def int64_small [OF small])
qed

lemma release_capacity_frame [frame]:
  "idles (release_capacity env m p) = idles p"
  "idlesMemory (release_capacity env m p) = idlesMemory p"
  "idlesLocked (release_capacity env m p) = idlesLocked p"
  "prewarmed (release_capacity env m p) = prewarmed p"
  "maxMemory (release_capacity env m p) = maxMemory p"
  "poolClosed (release_capacity env m p) = poolClosed p"
  "containersToDeleteForSpace (release_capacity env m p) = containersToDeleteForSpace p"
  by (simp_all add: release_capacity_def)

lemma acct_ok_release [simp]: "acct_ok (release_capacity env m p) = acct_ok p"
  by (simp add: acct_ok_def frame)

text \<open>What \<open>Get\<close> knows when it has acquired the memory from the semaphore.\<close>

lemma acquired_capacity:
  assumes inv: "pool_inv held p out" and sem: "semaphore_ok (pe_semaphore env) (int (unat (maxMemory p))) held"
    and small: "unat memory < 2 ^ 63" and acq: "sem_Acquire (pe_semaphore env) (int64 memory) (inFlight p) = (None, s1)"
  shows "held s1 = int (mem_sum out + unat memory)" and "mem_sum out + unat memory \<le> unat (maxMemory p)"
    and "unat (inFlightMemory p + memory) = mem_sum out + unat memory"
proof -
  note I = inv [unfolded pool_inv_def]
  from semaphore_acquire [OF sem acq [unfolded int64_small [OF small]]] I
  have s1: "held s1 = int (mem_sum out + unat memory)" and "int (mem_sum out + unat memory) \<le> int (unat (maxMemory p))"
    by simp_all
  then have cap: "mem_sum out + unat memory \<le> unat (maxMemory p)" by (simp only: of_nat_le_iff)
  from s1 cap show "held s1 = int (mem_sum out + unat memory)" "mem_sum out + unat memory \<le> unat (maxMemory p)" .
  show "unat (inFlightMemory p + memory) = mem_sum out + unat memory"
    using I cap by (subst unat_plus_no_wrap) auto
qed

lemma Get_keeps_inv:
  fixes p :: "'s ContainerPool"
  assumes inv: "pool_inv held p out"
    and ord: "gm_order (pe_idlesOrder env)"
    and sem: "semaphore_ok (pe_semaphore env) (int (unat (maxMemory p))) held"
    and open_: "\<not> poolClosed p" and small: "unat memory < 2 ^ 63"
    and data: "data = \<lparr>wck_InvocationNamespace = ns, wck_Function = fn\<rparr>"
    and uniform: "\<And>c. c \<in> set (bucket (idles p) data) \<Longrightarrow> pc_memory c = memory"
  shows "\<exists>r p' w'. Get env ns fn kind memory p w = Returns (r, p', w') \<and>
    pool_inv held p' ((case r of Inl _ \<Rightarrow> [] | Inr (c, _) \<Rightarrow> [c]) @ out) \<and>
    \<not> poolClosed p' \<and> maxMemory p' = maxMemory p \<and>
    (idles_sorted (idles p) \<longrightarrow> idles_sorted (idles p')) \<and>
    set (flat (idles p')) \<subseteq> set (flat (idles p)) \<and>
    (\<forall>c reused. r = Inr (c, reused) \<longrightarrow> pc_memory c = memory \<and> pc_initializedFor c = data \<and>
       (reused \<longleftrightarrow> bucket (idles p) data \<noteq> [])) \<and>
    (\<forall>used. ids_fresh used env \<longrightarrow> moves used w (owned p) w' (handed r @ owned p'))"
proof -
  obtain ae s1 where acq: "sem_Acquire (pe_semaphore env) (int64 memory) (inFlight p) = (ae, s1)"
    by force
  note I = inv [unfolded pool_inv_def]
  show ?thesis
  proof (cases ae)
    case (Some e)
    with acq sem have "s1 = inFlight p" by (auto simp: semaphore_ok_def)
    with Some acq open_ inv show ?thesis by (simp add: Get_def moves_old)
  next
    case None
    note acq' = acq [unfolded None]
    note s1 = acquired_capacity(1) [OF inv sem small acq'] and cap = acquired_capacity(2) [OF inv sem small acq']
      and inFl = acquired_capacity(3) [OF inv sem small acq']
    let ?inFl = "inFlightMemory p + memory"
    let ?p2 = "p\<lparr>inFlight := s1, inFlightMemory := ?inFl\<rparr>"
    have "\<exists>r p' w'. getContainer env ns fn kind memory ?inFl ?p2 w = Returns (r, p', w')
        \<and> got_ok data memory ?inFl ?p2 r p'
        \<and> (\<forall>used. ids_fresh used env \<longrightarrow> moves used w (owned ?p2) w' (handed r @ owned p'))"
      by (rule getContainer_ok [OF ord]) (use I open_ inFl cap data uniform in \<open>auto simp: acct_ok_def\<close>)
    then obtain r p3 w' where gc: "getContainer env ns fn kind memory ?inFl ?p2 w = Returns (r, p3, w')"
      and ok: "got_ok data memory ?inFl ?p2 r p3"
      and mv: "\<And>used. ids_fresh used env \<Longrightarrow> moves used w (owned ?p2) w' (handed r @ owned p3)" by blast
    note G = ok [unfolded got_ok_def]
    have own: "owned ?p2 = owned p" "owned (release_capacity env memory p3) = owned p3"
      by (simp_all add: owned_def frame)
    show ?thesis
    proof (cases r)
      case (Inl e)
      let ?p4 = "release_capacity env memory p3"
      have "unat (inFlightMemory ?p4) = mem_sum out" "held (inFlight ?p4) = int (mem_sum out)"
        using release_capacity_ok [OF sem _ _ small, of p3 "mem_sum out"] G inFl s1
        by (simp_all add: add.commute)
      then have "pool_inv held ?p4 out"
        using G I inFl by (auto simp: pool_inv_def frame)
      moreover have "Get env ns fn kind memory p w
          = Returns (Inl (Errorf ''failed to get container: %w'' [e]), ?p4, w')"
        using acq None gc Inl by (simp add: Get_def Let_def)
      ultimately show ?thesis using G open_ mv Inl own by (auto simp: frame)
    next
      case (Inr res)
      obtain c reused where res: "res = (c, reused)" by force
      with Inr G have "pc_memory c = memory" by auto
      then have "pool_inv held p3 (c # out)"
        using G I inFl s1 by (auto simp: pool_inv_def add.commute)
      moreover have "Get env ns fn kind memory p w = Returns (Inr (c, reused), p3, w')"
        using acq None gc Inr res by (simp add: Get_def Let_def)
      ultimately show ?thesis using G Inr res open_ mv own by auto
    qed
  qed
qed

lemma put_idle_props:
  assumes wf: "idles_wf (idles p)" and ac: "acct_ok p"
    and fits: "mem_sum (flat (idles p)) + unat (pc_memory c) < 2 ^ 64"
  shows "mset (flat (idles (put_idle c p))) = mset (c # flat (idles p))"
    and "idles_wf (idles (put_idle c p))"
    and "acct_ok (put_idle c p)"
    and "idles_sorted (idles p) \<Longrightarrow> (\<And>d. d \<in> set (flat (idles p)) \<Longrightarrow> pc_lastUsed d \<le> pc_lastUsed c)
      \<Longrightarrow> idles_sorted (idles (put_idle c p))"
proof -
  show ms: "mset (flat (idles (put_idle c p))) = mset (c # flat (idles p))"
    by (simp add: put_idle_def mset_flat_grow)
  show "idles_wf (idles (put_idle c p))"
    using wf by (auto simp: put_idle_def intro!: idles_wf_update dest: idles_wf_bucket)
  have "unat (idlesMemory p + pc_memory c) = mem_sum (flat (idles p)) + unat (pc_memory c)"
    using ac fits by (subst unat_plus_no_wrap) (auto simp: acct_ok_def)
  then show "acct_ok (put_idle c p)"
    using mem_sum_mset [OF ms] by (simp add: acct_ok_def put_idle_def)
  show "idles_sorted (idles (put_idle c p))"
    if "idles_sorted (idles p)" "\<And>d. d \<in> set (flat (idles p)) \<Longrightarrow> pc_lastUsed d \<le> pc_lastUsed c"
    using that bucket_subset_flat [of "idles p" "pc_initializedFor c"]
    by (auto simp: put_idle_def idles_sorted_def bucket_update sorted_append)
qed

lemma put_idle_frame [frame]:
  "inFlight (put_idle c p) = inFlight p"
  "inFlightMemory (put_idle c p) = inFlightMemory p"
  "idlesLocked (put_idle c p) = idlesLocked p"
  "prewarmed (put_idle c p) = prewarmed p"
  "maxMemory (put_idle c p) = maxMemory p"
  "poolClosed (put_idle c p) = poolClosed p"
  "containersToDeleteForSpace (put_idle c p) = containersToDeleteForSpace p"
  by (simp_all add: put_idle_def)

text \<open>Returning a container, idle or destroyed, gives exactly its capacity back.\<close>

lemma inv_small: "pool_inv held p (c # out) \<Longrightarrow> unat (pc_memory c) < 2 ^ 63"
  by (simp add: pool_inv_def)

lemma Put_keeps_inv:
  assumes inv: "pool_inv held p (c # out)"
    and sem: "semaphore_ok (pe_semaphore env) (int (unat (maxMemory p))) held"
  shows "\<exists>p' w'. Put env c p w = Returns (p', w') \<and> pool_inv held p' out \<and>
    maxMemory p' = maxMemory p \<and> poolClosed p' = poolClosed p \<and>
    idles p' = idles (put_idle (c\<lparr>pc_lastUsed := fst (pe_Now env w)\<rparr>) p)"
proof -
  note I = inv [unfolded pool_inv_def]
  obtain now w1 where now: "pe_Now env w = (now, w1)" by force
  let ?c = "c\<lparr>pc_lastUsed := now\<rparr>"
  let ?p1 = "put_idle ?c p"
  let ?p' = "release_capacity env (pc_memory c) ?p1"
  have "unat (inFlightMemory ?p') = mem_sum out" "held (inFlight ?p') = int (mem_sum out)"
    using release_capacity_ok [OF sem _ _ inv_small [OF inv], of ?p1 "mem_sum out"] I
    by (simp_all add: frame)
  moreover have "mem_sum (flat (idles p)) + unat (pc_memory ?c) < 2 ^ 64"
    using I by simp
  ultimately have "pool_inv held ?p' out"
    using I put_idle_props [of p ?c] mem_sum_mset [OF put_idle_props(1) [of p ?c]]
    by (simp add: pool_inv_def frame)
  moreover have "Put env c p w
      = Returns (?p', op_PauseEventually (pe_containers env) (pc_Container c) pauseGrace w1)"
    using I now by (simp add: Put_def)
  ultimately show ?thesis using now by (auto simp: frame)
qed

lemma PutToDestroy_keeps_inv:
  assumes inv: "pool_inv held p (c # out)"
    and sem: "semaphore_ok (pe_semaphore env) (int (unat (maxMemory p))) held"
    and run: "PutToDestroy env c p w = (e, p', w')"
  shows "pool_inv held p' out" and "idles p' = idles p" and "maxMemory p' = maxMemory p"
    and "poolClosed p' = poolClosed p"
proof -
  note I = inv [unfolded pool_inv_def]
  have p': "p' = release_capacity env (pc_memory c) p"
    using run by (auto simp: PutToDestroy_def split: prod.splits)
  have "unat (inFlightMemory p') = mem_sum out" "held (inFlight p') = int (mem_sum out)"
    using release_capacity_ok [OF sem _ _ inv_small [OF inv], of p "mem_sum out"] I
    by (simp_all add: p')
  then show "pool_inv held p' out" using I by (simp add: p' pool_inv_def frame)
qed (use run in \<open>auto simp: PutToDestroy_def frame split: prod.splits\<close>)

section \<open>Reaping\<close>

lemma unat_sum_memory: "mem_sum cs < 2 ^ 64 \<Longrightarrow> unat (sum_list (map pc_memory cs)) = mem_sum cs"
proof (induction cs)
  case (Cons c cs)
  then show ?case by (simp, subst unat_plus_no_wrap) auto
qed simp

lemma reap_prefix_split: "reap_prefix t cs @ drop (length (reap_prefix t cs)) cs = cs"
  unfolding reap_prefix_def by (metis dropWhile_eq_drop takeWhile_dropWhile_id)

text \<open>One bucket: a prefix leaves, the accounting follows.\<close>

lemma reap_bucket_props:
  assumes r: "reap_bucket t k p = (del, p')" and wf: "idles_wf (idles p)" and ac: "acct_ok p"
  shows "mset (flat (idles p)) = mset del + mset (flat (idles p'))"
    and "idles_wf (idles p')" and "acct_ok p'"
    and "idles_sorted (idles p) \<Longrightarrow> idles_sorted (idles p')"
    and "bucket (idles p') k = drop (length del) (bucket (idles p) k)"
    and "j \<noteq> k \<Longrightarrow> bucket (idles p') j = bucket (idles p) j"
    and "del = reap_prefix t (bucket (idles p) k)"
    and "p' = p\<lparr>idles := idles p', idlesMemory := idlesMemory p'\<rparr>"
proof -
  let ?b = "bucket (idles p) k"
  let ?keep = "drop (length del) ?b"
  show del: "del = reap_prefix t ?b" using r by (simp add: reap_bucket_def Let_def)
  have p': "p' = p\<lparr>idlesMemory := idlesMemory p - sum_list (map pc_memory del),
      idles := (if ?keep \<noteq> [] then AList.update k ?keep (idles p) else AList.delete k (idles p))\<rparr>"
    using r by (auto simp: reap_bucket_def Let_def del)
  have split: "?b = del @ ?keep" using reap_prefix_split [of t ?b] del by simp
  show bk: "bucket (idles p') k = ?keep"
    by (simp add: p' bucket_update bucket_delete)
  show "bucket (idles p') j = bucket (idles p) j" if "j \<noteq> k"
    using that by (simp add: p' bucket_update bucket_delete)
  have eq: "mset ?b = mset del + mset ?keep" by (metis split mset_append)
  show ms: "mset (flat (idles p)) = mset del + mset (flat (idles p'))"
  proof (cases "?keep = []")
    case True
    with eq mset_flat_delete [OF idles_wf_distinct [OF wf], of k] show ?thesis
      by (simp add: p' add.commute)
  next
    case False
    with mset_flat_cut [OF eq] show ?thesis by (simp add: p')
  qed
  show "idles_wf (idles p')"
    using wf by (auto simp: p' intro!: idles_wf_update idles_wf_delete idles_wf_bucket [OF wf]
        dest: in_set_dropD)
  show "idles_sorted (idles p')" if "idles_sorted (idles p)"
    using that by (simp add: p' idles_sorted_def bucket_update bucket_delete drop_map [symmetric]
        sorted_wrt_drop)
  show "acct_ok p'"
  proof -
    have sum: "mem_sum (flat (idles p)) = mem_sum del + mem_sum (flat (idles p'))"
      by (rule mem_sum_split [OF ms])
    have "mem_sum (flat (idles p)) < 2 ^ 64"
      using ac unat_lt_size64 [of "idlesMemory p"] by (simp add: acct_ok_def)
    then have "unat (sum_list (map pc_memory del)) = mem_sum del"
      using sum by (intro unat_sum_memory) simp
    with ac sum show ?thesis
      by (simp add: acct_ok_def p' unat_sub_le word_le_nat_alt)
  qed
  show "p' = p\<lparr>idles := idles p', idlesMemory := idlesMemory p'\<rparr>" by (simp add: p')
qed

lemma reap_prefix_old: "c \<in> set (reap_prefix t cs) \<Longrightarrow> pc_lastUsed c \<le> t"
  by (auto simp: reap_prefix_def dest: set_takeWhileD)

lemma drop_reap_prefix: "drop (length (reap_prefix t cs)) cs = dropWhile (\<lambda>c. \<not> pc_lastUsed c > t) cs"
  by (simp add: reap_prefix_def dropWhile_eq_drop)

lemma reap_collect_props:
  assumes "reap_collect t ks p = (del, p')" and "idles_wf (idles p)" and "acct_ok p"
  shows "mset (flat (idles p)) = mset del + mset (flat (idles p')) \<and>
    idles_wf (idles p') \<and> acct_ok p' \<and> (idles_sorted (idles p) \<longrightarrow> idles_sorted (idles p')) \<and>
    (\<forall>c \<in> set del. pc_lastUsed c \<le> t) \<and>
    (\<forall>k. bucket (idles p') k =
       (if k \<in> set ks then dropWhile (\<lambda>c. \<not> pc_lastUsed c > t) (bucket (idles p) k) else bucket (idles p) k)) \<and>
    p' = p\<lparr>idles := idles p', idlesMemory := idlesMemory p'\<rparr>"
  using assms
proof (induction ks arbitrary: p del)
  case (Cons k ks)
  obtain d1 p1 where r1: "reap_bucket t k p = (d1, p1)" by force
  obtain d2 p2 where r2: "reap_collect t ks p1 = (d2, p2)" by force
  from Cons.prems(1) r1 r2 have eq: "del = d1 @ d2" "p' = p2" by simp_all
  note B = reap_bucket_props [OF r1 Cons.prems(2,3)]
  note IH = Cons.IH [OF r2 [folded eq(2)] B(2,3)]
  have "dropWhile P (dropWhile P xs) = dropWhile P xs" for P and xs :: "PooledContainer list"
    by (induction xs) auto
  then have "bucket (idles p') j =
      (if j \<in> set (k # ks) then dropWhile (\<lambda>c. \<not> pc_lastUsed c > t) (bucket (idles p) j)
       else bucket (idles p) j)" for j
    using IH B(5,6,7) drop_reap_prefix [of t] by (cases "j = k") auto
  moreover have "p' = p\<lparr>idles := idles p', idlesMemory := idlesMemory p'\<rparr>"
  proof -
    have "p' = p1\<lparr>idles := idles p', idlesMemory := idlesMemory p'\<rparr>" using IH by blast
    also have "\<dots> = p\<lparr>idles := idles p', idlesMemory := idlesMemory p'\<rparr>" by (subst B(8)) simp
    finally show ?thesis .
  qed
  ultimately show ?case
    using IH B reap_prefix_old eq by (auto simp: union_assoc)
qed simp

end
