(* ===== verification/Pool_Prewarm.thy ===== *)
theory Pool_Prewarm
  imports Pool_Invariant
begin

text \<open>
  Reaping and prewarming (\<open>reap\<close>, \<open>reconcilePrewarm\<close> and the prewarming goroutine of
  \<open>pkg/exec/pool.go\<close>): what a round changes, that a successful reconciliation fills every
  configured list, and that the deleter, the reaper and the prewarming goroutine keep the
  pool's invariant and the ownership of containers.
\<close>

section \<open>Creating prewarm containers\<close>

lemma create_prewarm_frame:
  assumes "create_prewarm env k p w = (e, p', w')"
  shows "p' = p\<lparr>containersCreated := containersCreated p', prewarmed := prewarmed p'\<rparr>"
  using assms by (auto simp: create_prewarm_def Let_def split: prod.splits sum.splits)

lemma create_prewarm_None:
  assumes "create_prewarm env k p w = (None, p', w')"
  shows "length (bucket (prewarmed p') k) = Suc (length (bucket (prewarmed p) k))"
    and "j \<noteq> k \<Longrightarrow> bucket (prewarmed p') j = bucket (prewarmed p) j"
  using assms by (auto simp: create_prewarm_def Let_def bucket_update split: prod.splits sum.splits)

lemma create_prewarm_wf:
  assumes "create_prewarm env k p w = (e, p', w')" and "prewarm_wf (prewarmed p)"
  shows "prewarm_wf (prewarmed p')"
  using assms prewarm_wf_bucket [OF assms(2), of _ k]
  by (auto simp: create_prewarm_def Let_def new_pooled_def split: prod.splits sum.splits
      intro!: prewarm_wf_update)

lemma create_prewarm_moves:
  assumes fresh: "ids_fresh used env" and cp: "create_prewarm env k p w = (e, p', w')"
  shows "moves used w (owned p) w' (owned p')"
proof -
  let ?name = "prewarmContainerName (containersCreated p + 1) (pck_Kind k)"
  obtain cr w1 where cr: "op_CreateContainer (pe_factory env) (pck_Kind k) (pck_Memory k) ?name w = (cr, w1)"
    by force
  have g: "used w \<subseteq> used w1" by (rule growsD [OF ids_fresh_ops(7) [OF fresh] cr])
  show ?thesis
  proof (cases cr)
    case (Inl err)
    with cp cr have "w' = w1" "owned p' = owned p"
      by (auto simp: create_prewarm_def owned_def)
    with g show ?thesis by (auto intro: moves_old)
  next
    case (Inr ctr)
    let ?c = "new_pooled ctr zero_WarmContainerKey (pck_Memory k)"
    from cp cr Inr have "w' = w1" "mset (owned p') = mset (?c # owned p)"
      by (auto simp: create_prewarm_def owned_def mset_flat_grow)
    moreover have "ctr_ID (pc_Container ?c) \<notin> used w" "ctr_ID (pc_Container ?c) \<in> used w1"
      using ids_fresh_create [OF fresh cr [unfolded Inr]] by (simp_all add: new_pooled_def)
    ultimately show ?thesis using g by (auto intro: moves_new)
  qed
qed

text \<open>
  What both loops of \<open>reconcilePrewarm\<close> keep; \<open>grown\<close> says by how much each list grew
  when no creation failed.
\<close>

definition prewarm_change ::
  "('w, 's) PoolEnv \<Rightarrow> (PrewarmContainerKey \<Rightarrow> nat) \<Rightarrow> 's ContainerPool \<Rightarrow> 'w
   \<Rightarrow> go_error option \<times> 's ContainerPool \<times> 'w \<Rightarrow> bool" where
  "prewarm_change env grown p w res =
     (case res of (e, p', w') \<Rightarrow>
        p' = p\<lparr>containersCreated := containersCreated p', prewarmed := prewarmed p'\<rparr> \<and>
        (prewarm_wf (prewarmed p) \<longrightarrow> prewarm_wf (prewarmed p')) \<and>
        (\<forall>used. ids_fresh used env \<longrightarrow> moves used w (owned p) w' (owned p')) \<and>
        (e = None \<longrightarrow> (\<forall>k. length (bucket (prewarmed p') k) = length (bucket (prewarmed p) k) + grown k)))"

lemma prewarm_change_refl: "prewarm_change env (\<lambda>_. 0) p w (None, p, w)"
  by (simp add: prewarm_change_def moves_old)

lemma prewarm_change_one:
  assumes "create_prewarm env k p w = (e, p', w')"
  shows "prewarm_change env (\<lambda>j. if j = k then 1 else 0) p w (e, p', w')"
  using create_prewarm_frame [OF assms] create_prewarm_wf [OF assms] create_prewarm_moves [OF _ assms]
    create_prewarm_None [of env k p w p' w'] assms
  by (auto simp: prewarm_change_def)

text \<open>A failed first part ends the loop; otherwise the changes add up.\<close>

lemma prewarm_change_stop:
  "prewarm_change env g p w (Some e, p', w') \<Longrightarrow> prewarm_change env h p w (Some e, p', w')"
  by (simp add: prewarm_change_def)

lemma prewarm_change_trans:
  assumes a: "prewarm_change env g p w (None, p1, w1)" and b: "prewarm_change env h p1 w1 res"
  shows "prewarm_change env (\<lambda>k. g k + h k) p w res"
proof -
  obtain e p2 w2 where res: "res = (e, p2, w2)" by (metis prod_cases3)
  have p1: "p1 = p\<lparr>containersCreated := containersCreated p1, prewarmed := prewarmed p1\<rparr>"
    and p2: "p2 = p1\<lparr>containersCreated := containersCreated p2, prewarmed := prewarmed p2\<rparr>"
    using a b res by (simp_all add: prewarm_change_def)
  have "p2 = p\<lparr>containersCreated := containersCreated p2, prewarmed := prewarmed p2\<rparr>"
    by (subst p2, subst p1) simp
  moreover have "moves used w (owned p) w2 (owned p2)" if "ids_fresh used env" for used
    using a b res that by (auto simp: prewarm_change_def intro: moves_trans)
  ultimately show ?thesis using a b res by (auto simp: prewarm_change_def)
qed

lemma prewarm_change_cong:
  "prewarm_change env g p w res \<Longrightarrow> (\<And>k. g k = h k) \<Longrightarrow> prewarm_change env h p w res"
  by (metis ext)

lemma create_prewarms_change:
  "prewarm_change env (\<lambda>j. if j = k then n else 0) p w (create_prewarms env k n p w)"
proof (induction n arbitrary: p w)
  case 0
  then show ?case using prewarm_change_refl [of env p w] by (simp add: if_distrib cong: if_cong)
next
  case (Suc n)
  obtain e p1 w1 where c: "create_prewarm env k p w = (e, p1, w1)" by (metis prod_cases3)
  show ?case
  proof (cases e)
    case (Some err)
    with prewarm_change_one [OF c] c show ?thesis by (auto intro: prewarm_change_stop)
  next
    case None
    have "prewarm_change env (\<lambda>j. (if j = k then 1 else 0) + (if j = k then n else 0)) p w
        (create_prewarms env k n p1 w1)"
      by (rule prewarm_change_trans [OF prewarm_change_one [OF c [unfolded None]] Suc.IH])
    then show ?thesis using c None by (auto elim!: prewarm_change_cong)
  qed
qed

text \<open>The list lacks \<open>nc k\<close> containers; a non-positive number creates nothing.\<close>

definition wanted :: "(PrewarmContainerKey \<times> int) list \<Rightarrow> PrewarmContainerKey list \<Rightarrow> PrewarmContainerKey \<Rightarrow> nat" where
  "wanted nc ks k = (if k \<in> set ks then (case map_of nc k of None \<Rightarrow> 0 | Some n \<Rightarrow> nat n) else 0)"

lemma run_creations_change:
  "distinct ks \<Longrightarrow> prewarm_change env (wanted nc ks) p w (run_creations env ks nc p w)"
proof (induction ks arbitrary: p w)
  case Nil
  then show ?case using prewarm_change_refl [of env p w] by (simp add: wanted_def [abs_def])
next
  case (Cons k ks)
  show ?case
  proof (cases "map_of nc k")
    case None
    with Cons.IH [of p w] Cons.prems show ?thesis
      by (auto simp: wanted_def elim!: prewarm_change_cong)
  next
    case (Some n)
    obtain e p1 w1 where c: "create_prewarms env k (nat n) p w = (e, p1, w1)" by (metis prod_cases3)
    note one = create_prewarms_change [of env k "nat n" p w, unfolded c]
    show ?thesis
    proof (cases e)
      case (Some err)
      with one c \<open>map_of nc k = Some n\<close> show ?thesis by (auto intro: prewarm_change_stop)
    next
      case None
      have "prewarm_change env (\<lambda>j. (if j = k then nat n else 0) + wanted nc ks j) p w
          (run_creations env ks nc p1 w1)"
        by (rule prewarm_change_trans [OF one [unfolded None] Cons.IH]) (use Cons.prems in simp)
      then show ?thesis using c None Some Cons.prems
        by (auto simp: wanted_def elim!: prewarm_change_cong)
    qed
  qed
qed

lemma necessary_creations_distinct:
  "distinct (map fst acc) \<Longrightarrow> distinct (map fst (necessary_creations fams ms pw acc))"
proof (induction fams ms pw acc rule: necessary_creations.induct)
  case (2 family fams ms pw acc)
  have "distinct (map fst a) \<Longrightarrow> distinct (map fst (stemcell_creations k scs pw a))" for k scs a
    by (induction k scs pw a rule: stemcell_creations.induct) (auto simp: Let_def distinct_update)
  with 2 show ?case by (auto split: option.splits)
qed simp

text \<open>One reconciliation, with the order of the final loop chosen by Go.\<close>

lemma reconcilePrewarm_change:
  assumes "gm_order (pe_creationOrder env)"
  defines "nc p \<equiv> necessary_creations (pe_manifestOrder env (runtimeManifests p)) (runtimeManifests p) (prewarmed p) []"
  shows "prewarm_change env (\<lambda>k. case map_of (nc p) k of None \<Rightarrow> 0 | Some n \<Rightarrow> nat n) p w (reconcilePrewarm env p w)"
proof -
  have d: "distinct (map fst (nc p))" by (simp add: nc_def necessary_creations_distinct)
  have ks: "distinct (pe_creationOrder env (nc p))" "set (pe_creationOrder env (nc p)) = fst ` set (nc p)"
    using gm_order_distinct [OF assms(1) d] gm_order_set [OF assms(1) d] by auto
  have w: "wanted (nc p) (pe_creationOrder env (nc p)) k = (case map_of (nc p) k of None \<Rightarrow> 0 | Some n \<Rightarrow> nat n)" for k
    using ks(2) by (cases "map_of (nc p) k") (force simp: wanted_def dest: map_of_SomeD)+
  have "reconcilePrewarm env p w = run_creations env (pe_creationOrder env (nc p)) (nc p) p w"
    by (simp add: reconcilePrewarm_def nc_def Let_def)
  with prewarm_change_cong [OF run_creations_change [OF ks(1)] w] show ?thesis by simp
qed

section \<open>A successful reconciliation fills every configured list\<close>

text \<open>
  \<open>Decode\<close> keys every manifest by its kind, except for the aliases, which \<open>reconcilePrewarm\<close>
  skips.
\<close>

definition manifests_by_kind :: "RuntimeManifests \<Rightarrow> bool" where
  "manifests_by_kind ms =
     (distinct (map fst ms) \<and>
      (\<forall>family m. map_of ms family = Some m \<longrightarrow> HasSuffix family '':default'' \<or> rm_Kind m = family))"

lemma manifests_by_kindD:
  "manifests_by_kind ms \<Longrightarrow> map_of ms f = Some m \<Longrightarrow> \<not> HasSuffix f '':default'' \<Longrightarrow> rm_Kind m = f"
  unfolding manifests_by_kind_def by blast

lemma manifests_by_kind_update:
  "manifests_by_kind ms \<Longrightarrow> HasSuffix k '':default'' \<or> rm_Kind v = k \<Longrightarrow> manifests_by_kind (AList.update k v ms)"
  by (auto simp: manifests_by_kind_def distinct_update update_conv')

lemma decode_family_by_kind:
  "decode_family f vs ms = Inr ms' \<Longrightarrow> manifests_by_kind ms \<Longrightarrow> manifests_by_kind ms'"
proof (induction vs arbitrary: ms)
  case (Cons v vs)
  from Cons.prems(1) show ?case
    by (cases rule: decode_family_step)
      (auto intro!: Cons.IH Cons.prems(2) manifests_by_kind_update simp del: append_assoc)
qed simp

lemma decode_families_by_kind:
  "decode_families fs ms = Inr ms' \<Longrightarrow> manifests_by_kind ms \<Longrightarrow> manifests_by_kind ms'"
  by (induction fs ms rule: decode_families.induct)
    (auto split: sum.splits dest: decode_family_by_kind)

lemma stemcell_creations_other:
  "pck_Kind k \<noteq> kind \<Longrightarrow> map_of (stemcell_creations kind scs pw acc) k = map_of acc k"
  by (induction kind scs pw acc rule: stemcell_creations.induct) (auto simp: Let_def update_conv')

lemma stemcell_creations_other_memory:
  "pck_Memory k \<notin> rsc_Memory ` set scs \<Longrightarrow> map_of (stemcell_creations kind scs pw acc) k = map_of acc k"
  by (induction kind scs pw acc rule: stemcell_creations.induct) (auto simp: Let_def update_conv')

lemma stemcell_creations_lookup:
  "sc \<in> set scs \<Longrightarrow> distinct (map rsc_Memory scs) \<Longrightarrow>
   map_of (stemcell_creations kind scs pw acc) \<lparr>pck_Kind = kind, pck_Memory = rsc_Memory sc\<rparr>
     = Some (rsc_Count sc - int (length (bucket pw \<lparr>pck_Kind = kind, pck_Memory = rsc_Memory sc\<rparr>)))"
proof (induction scs arbitrary: acc)
  case (Cons sc' scs)
  then show ?case
    by (cases "sc = sc'") (auto simp: Let_def update_conv' stemcell_creations_other_memory)
qed simp

lemma necessary_creations_other:
  "manifests_by_kind ms \<Longrightarrow> pck_Kind k \<notin> set fams
   \<Longrightarrow> map_of (necessary_creations fams ms pw acc) k = map_of acc k"
proof (induction fams ms pw acc rule: necessary_creations.induct)
  case (2 family fams ms pw acc)
  show ?case
  proof (cases "HasSuffix family '':default'' \<or> map_of ms family = None")
    case True
    with 2 show ?thesis by auto
  next
    case False
    then obtain m where m: "map_of ms family = Some m" "\<not> HasSuffix family '':default''" by auto
    with 2 manifests_by_kindD [OF 2(4) m] show ?thesis by (simp add: stemcell_creations_other)
  qed
qed simp

lemma necessary_creations_lookup:
  assumes kinds: "manifests_by_kind ms" and fam: "\<not> HasSuffix family '':default''"
    and m: "map_of ms family = Some m" and sc: "sc \<in> set (rm_Stemcells m)"
    and dist: "distinct (map rsc_Memory (rm_Stemcells m))"
  shows "family \<in> set fams \<Longrightarrow> distinct fams \<Longrightarrow>
    map_of (necessary_creations fams ms pw acc) \<lparr>pck_Kind = rm_Kind m, pck_Memory = rsc_Memory sc\<rparr>
      = Some (rsc_Count sc - int (length (bucket pw \<lparr>pck_Kind = rm_Kind m, pck_Memory = rsc_Memory sc\<rparr>)))"
proof (induction fams arbitrary: acc)
  case (Cons f fams)
  have "rm_Kind m = family" by (rule manifests_by_kindD [OF kinds m fam])
  with Cons show ?case
    using fam m necessary_creations_other [OF kinds] stemcell_creations_lookup [OF sc dist]
    by (cases "f = family") (auto split: option.splits)
qed simp

section \<open>The background goroutines keep the invariant\<close>

lemma prewarm_step_ok:
  assumes ord: "gm_order (pe_creationOrder env)" and run: "prewarm_step env p w = Returns (p', w')"
  shows "p' = p\<lparr>containersCreated := containersCreated p', prewarmed := prewarmed p', prewarmPoke := prewarmPoke p'\<rparr>"
    and "prewarm_wf (prewarmed p) \<Longrightarrow> prewarm_wf (prewarmed p')"
    and "ids_fresh used env \<Longrightarrow> moves used w (owned p) w' (owned p')"
proof -
  let ?p = "p\<lparr>prewarmPoke := False\<rparr>"
  obtain e p1 w1 where r: "reconcilePrewarm env ?p w = (e, p1, w1)" by (metis prod_cases3)
  from reconcilePrewarm_change [OF ord, of ?p w] r
  have c: "p1 = ?p\<lparr>containersCreated := containersCreated p1, prewarmed := prewarmed p1\<rparr>"
    "prewarm_wf (prewarmed ?p) \<longrightarrow> prewarm_wf (prewarmed p1)"
    "\<forall>used. ids_fresh used env \<longrightarrow> moves used w (owned ?p) w1 (owned p1)"
    by (simp_all add: prewarm_change_def)
  have "p' = p \<and> w' = w \<or> (p' = p1 \<or> p' = p1\<lparr>prewarmPoke := True\<rparr>) \<and> w' = w1"
    using run r by (auto simp: prewarm_step_def poke_prewarm_def Let_def split: if_splits option.splits)
  then consider "p' = p" "w' = w" | "p' = p1" "w' = w1" | "p' = p1\<lparr>prewarmPoke := True\<rparr>" "w' = w1"
    by blast
  then show "p' = p\<lparr>containersCreated := containersCreated p', prewarmed := prewarmed p', prewarmPoke := prewarmPoke p'\<rparr>"
  proof cases
    case 2
    have "prewarmPoke p1 = False" by (subst c(1)) simp
    then show ?thesis unfolding 2 by simp (subst c(1), simp)
  next
    case 3
    show ?thesis unfolding 3 by (subst c(1)) simp
  qed simp
  show "prewarm_wf (prewarmed p')" if "prewarm_wf (prewarmed p)"
    using \<open>p' = p \<and> w' = w \<or> _\<close> c(2) that by auto
  show "moves used w (owned p) w' (owned p')" if "ids_fresh used env"
    using \<open>p' = p \<and> w' = w \<or> _\<close> c(3) that by (auto simp: owned_def moves_old)
qed

lemma deleter_step_moves:
  assumes "ids_fresh used env" and "deleter_step env p w = (p', w')"
  shows "moves used w (owned p) w' (owned p')"
proof (rule moves_old)
  show "used w \<subseteq> used w'"
    using assms growsD [OF grows_remove_idle [OF assms(1)]]
    by (auto simp: deleter_step_def Let_def split: list.splits prod.splits)
  have "p' = p\<lparr>containersToDeleteForSpace := tl (containersToDeleteForSpace p)\<rparr>"
    using deleter_step_pool [of env p w] assms(2) by simp
  then have "mset (owned p') \<subseteq># mset (owned p)"
    by (cases "containersToDeleteForSpace p") (auto simp: owned_def)
  then show "mset (ids (owned p')) \<subseteq># mset (ids (owned p))" by (rule mset_ids_mono)
qed

lemma remove_all_grows:
  assumes "ids_fresh used env"
  shows "remove_all env m1 m2 cs w = (es, w') \<Longrightarrow> used w \<subseteq> used w'"
proof (induction cs arbitrary: w es)
  case (Cons c cs)
  then show ?case
    using growsD [OF grows_remove_idle [OF assms], of m1 m2 c w]
    by (fastforce simp: Let_def split: prod.splits)
qed simp

lemma prewarm_step_returns:
  assumes ord: "gm_order (pe_creationOrder env)" and open_: "\<not> poolClosed p"
  shows "\<exists>p' w'. prewarm_step env p w = Returns (p', w')"
proof -
  let ?p = "p\<lparr>prewarmPoke := False\<rparr>"
  obtain e p1 w1 where r: "reconcilePrewarm env ?p w = (e, p1, w1)" by (metis prod_cases3)
  from reconcilePrewarm_change [OF ord, of ?p w] r
  have c: "p1 = ?p\<lparr>containersCreated := containersCreated p1, prewarmed := prewarmed p1\<rparr>"
    by (simp add: prewarm_change_def)
  have "poolClosed p1 = poolClosed p" by (subst c) simp
  with open_ r show ?thesis
    by (cases e) (simp_all add: prewarm_step_def poke_prewarm_def)
qed

end
