(* ===== verification/Transition.thy ===== *)
theory Transition
  imports Prelude
begin

text \<open>
  The contracts that the components' state machines share: a system whose calls all return and
  keep an invariant (\<open>call_system\<close>), and a step relation with an invariant that excludes
  bad states (\<open>transition_system\<close>, \<open>safe_system\<close>). The components interpret the locales
  on their own definitions.
\<close>

section \<open>Sequences of calls\<close>

text \<open>The calls run one after the other; the first one that does not return ends the run.\<close>

fun run_calls :: "('c \<Rightarrow> 's \<Rightarrow> 's outcome) \<Rightarrow> 'c list \<Rightarrow> 's \<Rightarrow> 's outcome" where
  "run_calls call [] s = Returns s"
| "run_calls call (c # cs) s =
     (case call c s of
        Returns s' \<Rightarrow> run_calls call cs s'
      | Panics m \<Rightarrow> Panics m
      | Blocks \<Rightarrow> Blocks)"

lemma run_calls_append:
  "run_calls call (cs @ ds) s =
     (case run_calls call cs s of
        Returns s' \<Rightarrow> run_calls call ds s'
      | Panics m \<Rightarrow> Panics m
      | Blocks \<Rightarrow> Blocks)"
  by (induction cs arbitrary: s) (simp_all split: outcome.split)

locale call_system =
  fixes call :: "'c \<Rightarrow> 's \<Rightarrow> 's outcome" and inv :: "'s \<Rightarrow> bool"
  assumes call_returns: "inv s \<Longrightarrow> \<exists>s'. call c s = Returns s' \<and> inv s'"
begin

lemma run_returns: "inv s \<Longrightarrow> \<exists>s'. run_calls call cs s = Returns s' \<and> inv s'"
proof (induction cs arbitrary: s)
  case (Cons c cs)
  from call_returns [OF Cons.prems, of c] obtain s1 where "call c s = Returns s1" "inv s1" by blast
  with Cons.IH show ?case by auto
qed simp

lemma run_inv: "inv s \<Longrightarrow> run_calls call cs s = Returns s' \<Longrightarrow> inv s'"
  using run_returns [of s cs] by auto

end

section \<open>Step relations\<close>

locale transition_system =
  fixes step :: "'s \<Rightarrow> 's \<Rightarrow> bool" and inv :: "'s \<Rightarrow> bool"
  assumes step_inv: "inv s \<Longrightarrow> step s s' \<Longrightarrow> inv s'"
begin

lemma reachable_inv: "inv s \<Longrightarrow> rtranclp step s s' \<Longrightarrow> inv s'"
  by (erule rtranclp_induct [rotated]) (auto intro: step_inv)

end

locale safe_system = transition_system step inv
  for step :: "'s \<Rightarrow> 's \<Rightarrow> bool" and inv :: "'s \<Rightarrow> bool" +
  fixes good :: "'s \<Rightarrow> bool"
  assumes inv_good: "inv s \<Longrightarrow> good s"
begin

lemma always_good: "inv s \<Longrightarrow> rtranclp step s s' \<Longrightarrow> good s'"
  using reachable_inv inv_good by blast

end

text \<open>Steps that use up work: every run ends, whatever the schedule.\<close>

locale terminating_system = transition_system step inv
  for step :: "'s \<Rightarrow> 's \<Rightarrow> bool" and inv :: "'s \<Rightarrow> bool" +
  fixes work :: "'s \<Rightarrow> nat"
  assumes step_work: "inv s \<Longrightarrow> step s s' \<Longrightarrow> work s' < work s"
begin

lemma no_infinite_run:
  assumes "inv (f 0)"
  shows "\<not> (\<forall>n. step (f n) (f (Suc n)))"
proof
  assume run: "\<forall>n. step (f n) (f (Suc n))"
  have inv: "inv (f n)" for n using assms run step_inv by (induction n) blast+
  have "work (f n) + n \<le> work (f 0)" for n
  proof (induction n)
    case (Suc n)
    from step_work [OF inv [of n], of "f (Suc n)"] run Suc show ?case by simp
  qed simp
  from this [of "Suc (work (f 0))"] show False by simp
qed

lemma run_ends: "inv s \<Longrightarrow> \<exists>s'. rtranclp step s s' \<and> inv s' \<and> (\<forall>t. \<not> step s' t)"
proof (induction "work s" arbitrary: s rule: less_induct)
  case less
  show ?case
  proof (cases "\<exists>t. step s t")
    case True
    then obtain t where t: "step s t" by blast
    from less.hyps [OF step_work [OF less.prems t] step_inv [OF less.prems t]] t show ?thesis
      by (meson converse_rtranclp_into_rtranclp)
  qed (use less.prems in blast)
qed

end

section \<open>Refinement\<close>

text \<open>Every step of the detailed system is a step of the abstract one or invisible there.\<close>

locale step_refinement =
  fixes step :: "'s \<Rightarrow> 's \<Rightarrow> bool" and astep :: "'a \<Rightarrow> 'a \<Rightarrow> bool" and abs :: "'s \<Rightarrow> 'a"
  assumes step_refines: "step s s' \<Longrightarrow> astep (abs s) (abs s') \<or> abs s = abs s'"
begin

lemma simulated: "rtranclp step s s' \<Longrightarrow> rtranclp astep (abs s) (abs s')"
proof (induction rule: rtranclp_induct)
  case (step t u)
  from step_refines [OF step.hyps(2)] step.IH show ?case by (auto intro: rtranclp.rtrancl_into_rtrancl)
qed simp

end

end
