(* ===== verification/Pool_System.thy ===== *)
theory Pool_System
  imports Pool_Prewarm Transition
begin

text \<open>
  The pool as a system: any sequence of calls of \<open>Get\<close>, \<open>Put\<close>, \<open>PutToDestroy\<close> and of
  rounds of the background goroutines, with the containers that are handed out. The theorems
  are about every such sequence: the calls return, the memory budget holds, no container has
  two owners, the idle containers are ordered by their last use.
\<close>

section \<open>Calls\<close>

datatype pool_call =
    CallGet string ActivationMessageFunction string
  | CallPut nat
  | CallPutToDestroy nat
  | CallReap Time
  | CallDeleter
  | CallPrewarm

text \<open>
  \<open>sys_out\<close> are the containers the callers hold (a caller returns a container it holds, by
  its position), \<open>sys_times\<close> the clock readings of \<open>Put\<close>, latest first.
\<close>

record ('w, 's) System =
  sys_pool :: "'s ContainerPool"
  sys_out :: "PooledContainer list"
  sys_world :: 'w
  sys_times :: "Time list"

definition remove_nth :: "nat \<Rightarrow> 'a list \<Rightarrow> 'a list" where
  "remove_nth i xs = take i xs @ drop (Suc i) xs"

text \<open>
  The memory limit belongs to a version of a function: \<open>limit\<close> gives it for every key, as
  the runner does, which reads it from the function's document of that revision.
\<close>

fun sys_call ::
  "('w, 's) PoolEnv \<Rightarrow> (WarmContainerKey \<Rightarrow> ByteSize) \<Rightarrow> pool_call \<Rightarrow> ('w, 's) System \<Rightarrow> ('w, 's) System outcome" where
  "sys_call env limit (CallGet ns fn kind) s =
     (case Get env ns fn kind (limit \<lparr>wck_InvocationNamespace = ns, wck_Function = fn\<rparr>) (sys_pool s) (sys_world s) of
        Returns (r, p, w) \<Rightarrow> Returns (s\<lparr>sys_pool := p, sys_out := handed r @ sys_out s, sys_world := w\<rparr>)
      | Panics m \<Rightarrow> Panics m
      | Blocks \<Rightarrow> Blocks)"
| "sys_call env limit (CallPut i) s =
     (if length (sys_out s) \<le> i then Returns s
      else case Put env (sys_out s ! i) (sys_pool s) (sys_world s) of
        Returns (p, w) \<Rightarrow>
          Returns (s\<lparr>sys_pool := p, sys_out := remove_nth i (sys_out s), sys_world := w,
                     sys_times := fst (pe_Now env (sys_world s)) # sys_times s\<rparr>)
      | Panics m \<Rightarrow> Panics m
      | Blocks \<Rightarrow> Blocks)"
| "sys_call env limit (CallPutToDestroy i) s =
     (if length (sys_out s) \<le> i then Returns s
      else let (e, p, w) = PutToDestroy env (sys_out s ! i) (sys_pool s) (sys_world s)
           in Returns (s\<lparr>sys_pool := p, sys_out := remove_nth i (sys_out s), sys_world := w\<rparr>))"
| "sys_call env limit (CallReap t) s =
     (case reap env t (sys_pool s) (sys_world s) of
        Returns (errs, p, w) \<Rightarrow> Returns (s\<lparr>sys_pool := p, sys_world := w\<rparr>)
      | Panics m \<Rightarrow> Panics m
      | Blocks \<Rightarrow> Blocks)"
| "sys_call env limit CallDeleter s =
     (let (p, w) = deleter_step env (sys_pool s) (sys_world s) in Returns (s\<lparr>sys_pool := p, sys_world := w\<rparr>))"
| "sys_call env limit CallPrewarm s =
     (case prewarm_step env (sys_pool s) (sys_world s) of
        Returns (p, w) \<Rightarrow> Returns (s\<lparr>sys_pool := p, sys_world := w\<rparr>)
      | Panics m \<Rightarrow> Panics m
      | Blocks \<Rightarrow> Blocks)"

definition new_system :: "'s \<Rightarrow> ByteSize \<Rightarrow> RuntimeManifests \<Rightarrow> 'w \<Rightarrow> ('w, 's) System" where
  "new_system sem userMemory manifests w =
     \<lparr>sys_pool = NewContainerPool sem userMemory manifests, sys_out = [], sys_world = w, sys_times = []\<rparr>"

lemma mset_remove_nth: "i < length xs \<Longrightarrow> mset xs = mset (xs ! i # remove_nth i xs)"
  by (metis add_mset_add_single append_take_drop_id Cons_nth_drop_Suc mset.simps(2) mset_append
      remove_nth_def union_mset_add_mset_right)

lemma pool_inv_mset: "pool_inv held p out \<Longrightarrow> mset out = mset out' \<Longrightarrow> pool_inv held p out'"
  using mem_sum_mset [of out out'] by (simp add: pool_inv_def)

section \<open>The invariant of the system\<close>

text \<open>What the pool relies on outside its own code.\<close>

definition env_ok :: "('w, 's) PoolEnv \<Rightarrow> (WarmContainerKey \<Rightarrow> ByteSize) \<Rightarrow> ByteSize \<Rightarrow> ('s \<Rightarrow> int) \<Rightarrow> bool" where
  "env_ok env limit userMemory held =
     (gm_order (pe_idlesOrder env) \<and> gm_order (pe_creationOrder env) \<and>
      semaphore_ok (pe_semaphore env) (int (unat userMemory)) held \<and>
      (\<forall>k. unat (limit k) < 2 ^ 63))"

text \<open>
  Beside the pool's invariant: every container has the memory limit of the function it is
  initialised for, and every idle container carries a clock reading of \<open>Put\<close>.
\<close>

definition sys_inv ::
  "('w, 's) PoolEnv \<Rightarrow> (WarmContainerKey \<Rightarrow> ByteSize) \<Rightarrow> ByteSize \<Rightarrow> ('s \<Rightarrow> int) \<Rightarrow> ('w, 's) System \<Rightarrow> bool" where
  "sys_inv env limit userMemory held s =
     (env_ok env limit userMemory held \<and>
      pool_inv held (sys_pool s) (sys_out s) \<and> \<not> poolClosed (sys_pool s) \<and>
      maxMemory (sys_pool s) = userMemory \<and>
      (\<forall>c \<in> set (sys_out s) \<union> set (flat (idles (sys_pool s))). pc_memory c = limit (pc_initializedFor c)) \<and>
      pc_lastUsed ` set (flat (idles (sys_pool s))) \<subseteq> set (sys_times s) \<and>
      (sorted (rev (sys_times s)) \<longrightarrow> idles_sorted (idles (sys_pool s))))"

definition sys_owner :: "('w \<Rightarrow> string set) \<Rightarrow> ('w, 's) System \<Rightarrow> bool" where
  "sys_owner used s = owner_inv used (sys_world s) (sys_out s @ owned (sys_pool s))"

lemma sys_inv_limit:
  "sys_inv env limit userMemory held s \<Longrightarrow> c \<in> set (flat (idles (sys_pool s))) \<Longrightarrow> pc_memory c = limit (pc_initializedFor c)"
  by (simp add: sys_inv_def)

text \<open>A call that adds no idle container keeps what is not part of the pool's invariant.\<close>

lemma sys_inv_shrink:
  assumes "sys_inv env limit userMemory held s" and "pool_inv held p out"
    and "poolClosed p = poolClosed (sys_pool s)" and "maxMemory p = maxMemory (sys_pool s)"
    and srt: "idles_sorted (idles (sys_pool s)) \<Longrightarrow> idles_sorted (idles p)"
    and sub: "set (flat (idles p)) \<subseteq> set (flat (idles (sys_pool s)))"
    and lim: "\<And>c. c \<in> set out \<Longrightarrow> c \<in> set (sys_out s) \<or> pc_memory c = limit (pc_initializedFor c)"
  shows "sys_inv env limit userMemory held (s\<lparr>sys_pool := p, sys_out := out, sys_world := w\<rparr>)"
proof -
  note S = assms(1) [unfolded sys_inv_def]
  have "\<forall>c \<in> set out \<union> set (flat (idles p)). pc_memory c = limit (pc_initializedFor c)"
    using S sub lim by blast
  moreover have "pc_lastUsed ` set (flat (idles p)) \<subseteq> set (sys_times s)"
    using S image_mono [OF sub] by (meson order.trans)
  moreover have "sorted (rev (sys_times s)) \<longrightarrow> idles_sorted (idles p)" using S srt by blast
  ultimately show ?thesis using S assms(2-4) by (simp add: sys_inv_def)
qed

lemmas sys_inv_shrink_world = sys_inv_shrink [where out = "sys_out s" and s = s for s, simplified]

text \<open>The state of a call, as a rule: what every call keeps.\<close>

definition keeps ::
  "('w, 's) PoolEnv \<Rightarrow> (WarmContainerKey \<Rightarrow> ByteSize) \<Rightarrow> ByteSize \<Rightarrow> ('s \<Rightarrow> int) \<Rightarrow> ('w, 's) System \<Rightarrow> ('w, 's) System outcome \<Rightarrow> bool" where
  "keeps env limit userMemory held s res =
     (\<exists>s'. res = Returns s' \<and> sys_inv env limit userMemory held s' \<and>
        (\<forall>used. ids_fresh used env \<longrightarrow> sys_owner used s \<longrightarrow> sys_owner used s'))"

lemma CallGet_keeps:
  assumes "sys_inv env limit userMemory held s"
  shows "keeps env limit userMemory held s (sys_call env limit (CallGet ns fn kind) s)"
proof -
  let ?k = "\<lparr>wck_InvocationNamespace = ns, wck_Function = fn\<rparr>"
  note S = assms [unfolded sys_inv_def env_ok_def]
  have unif: "pc_memory c = limit ?k" if "c \<in> set (bucket (idles (sys_pool s)) ?k)" for c
  proof -
    have "idles_wf (idles (sys_pool s))" using S by (simp add: pool_inv_def)
    then have "pc_initializedFor c = ?k" using that by (rule idles_wf_bucket)
    moreover have "c \<in> set (flat (idles (sys_pool s)))" by (rule subsetD [OF bucket_subset_flat that])
    ultimately show ?thesis using sys_inv_limit [OF assms] by simp
  qed
  from S have inv: "pool_inv held (sys_pool s) (sys_out s)" and ord: "gm_order (pe_idlesOrder env)"
    and sem: "semaphore_ok (pe_semaphore env) (int (unat (maxMemory (sys_pool s)))) held"
    and open_: "\<not> poolClosed (sys_pool s)" and small: "unat (limit ?k) < 2 ^ 63" by auto
  from Get_keeps_inv [OF inv ord sem open_ small refl unif]
  obtain r p w where get: "Get env ns fn kind (limit ?k) (sys_pool s) (sys_world s) = Returns (r, p, w)"
    and G: "pool_inv held p ((case r of Inl _ \<Rightarrow> [] | Inr (c, _) \<Rightarrow> [c]) @ sys_out s)"
      "\<not> poolClosed p" "maxMemory p = maxMemory (sys_pool s)"
      "idles_sorted (idles (sys_pool s)) \<longrightarrow> idles_sorted (idles p)"
      "set (flat (idles p)) \<subseteq> set (flat (idles (sys_pool s)))"
      "\<forall>c reused. r = Inr (c, reused) \<longrightarrow> pc_memory c = limit ?k \<and> pc_initializedFor c = ?k"
      "\<forall>used. ids_fresh used env \<longrightarrow> moves used (sys_world s) (owned (sys_pool s)) w (handed r @ owned p)"
    by blast
  let ?s = "s\<lparr>sys_pool := p, sys_out := handed r @ sys_out s, sys_world := w\<rparr>"
  have "pool_inv held p (handed r @ sys_out s)" using G(1) by (simp add: handed_def)
  moreover have "pc_memory c = limit (pc_initializedFor c)" if "c \<in> set (handed r)" for c
    using that G(6) by (auto simp: handed_def split: sum.splits)
  ultimately have "sys_inv env limit userMemory held ?s"
    using G open_ by (intro sys_inv_shrink [OF assms]) auto
  moreover have "sys_owner used ?s" if "ids_fresh used env" "sys_owner used s" for used
    using owner_inv_moves [OF _ moves_mset [OF moves_append [OF G(7) [rule_format, OF that(1)], of "sys_out s"]]]
      that(2) by (simp add: sys_owner_def union_ac)
  ultimately show ?thesis using get by (auto simp: keeps_def)
qed

lemma Put_world: "Put env c p w = Returns (p', w') \<Longrightarrow> ids_fresh used env \<Longrightarrow> used w \<subseteq> used w'"
proof -
  assume put: "Put env c p w = Returns (p', w')" and fresh: "ids_fresh used env"
  obtain t w1 where now: "pe_Now env w = (t, w1)" by force
  have "used w \<subseteq> used w1" by (rule growsD [OF ids_fresh_ops(8) [OF fresh] now])
  also have "\<dots> \<subseteq> used (op_PauseEventually (pe_containers env) (pc_Container c) pauseGrace w1)"
    using fresh by (simp add: ids_fresh_def)
  finally show "used w \<subseteq> used w'" using put now by (simp add: Put_def Let_def split: if_splits)
qed

lemma Put_moves:
  assumes fresh: "ids_fresh used env" and put: "Put env c p w = Returns (p', w')"
  shows "moves used w (c # out @ owned p) w' (out @ owned p')"
proof (rule moves_old)
  show "used w \<subseteq> used w'" by (rule Put_world [OF put fresh])
  let ?c = "c\<lparr>pc_lastUsed := fst (pe_Now env w)\<rparr>"
  have p': "owned p' = owned (put_idle ?c p)"
    using put by (auto simp: Put_def Let_def owned_def frame split: prod.splits if_splits)
  have "mset (owned (put_idle ?c p)) = mset (?c # owned p)"
    by (simp add: owned_def put_idle_def mset_flat_grow)
  from mset_ids [OF this] show "mset (ids (out @ owned p')) \<subseteq># mset (ids (c # out @ owned p))"
    by (simp add: p')
qed

lemma CallPut_keeps:
  assumes "sys_inv env limit userMemory held s"
  shows "keeps env limit userMemory held s (sys_call env limit (CallPut i) s)"
proof (cases "length (sys_out s) \<le> i")
  case True
  with assms show ?thesis by (auto simp: keeps_def)
next
  case False
  let ?c = "sys_out s ! i" and ?out = "remove_nth i (sys_out s)" and ?now = "fst (pe_Now env (sys_world s))"
  let ?c' = "?c\<lparr>pc_lastUsed := ?now\<rparr>"
  note S = assms [unfolded sys_inv_def env_ok_def]
  have ms: "mset (sys_out s) = mset (?c # ?out)" using False by (intro mset_remove_nth) simp
  have inv: "pool_inv held (sys_pool s) (?c # ?out)" using S ms by (auto intro: pool_inv_mset)
  have sem: "semaphore_ok (pe_semaphore env) (int (unat (maxMemory (sys_pool s)))) held" using S by simp
  from Put_keeps_inv [OF inv sem, of "sys_world s"] obtain p w
    where put: "Put env ?c (sys_pool s) (sys_world s) = Returns (p, w)"
      and P: "pool_inv held p ?out" "maxMemory p = maxMemory (sys_pool s)" "poolClosed p = poolClosed (sys_pool s)"
        "idles p = idles (put_idle ?c' (sys_pool s))" by blast
  let ?s = "s\<lparr>sys_pool := p, sys_out := ?out, sys_world := w, sys_times := ?now # sys_times s\<rparr>"
  have pi: "idles_wf (idles (sys_pool s))" "acct_ok (sys_pool s)"
    "mem_sum (flat (idles (sys_pool s))) + unat (pc_memory ?c') < 2 ^ 64"
    using inv by (auto simp: pool_inv_def)
  note Q = put_idle_props [OF pi]
  have fl: "set (flat (idles p)) = insert ?c' (set (flat (idles (sys_pool s))))"
    using mset_eq_setD [OF Q(1)] P(4) by simp
  have outs: "set ?out \<subseteq> set (sys_out s)" "?c \<in> set (sys_out s)" using mset_eq_setD [OF ms] by auto
  have "idles_sorted (idles p)" if "sorted (rev (?now # sys_times s))"
    unfolding P(4) using that S by (intro Q(4)) (auto simp: sorted_append)
  then have "sys_inv env limit userMemory held ?s"
    using assms P fl outs by (auto simp: sys_inv_def)
  moreover have "sys_owner used ?s" if "ids_fresh used env" "sys_owner used s" for used
    using owner_inv_moves [OF _ moves_mset [OF Put_moves [OF that(1) put, of ?out]]] that(2) ms
    by (simp add: sys_owner_def)
  ultimately show ?thesis using put False by (auto simp: keeps_def)
qed

lemma CallPutToDestroy_keeps:
  assumes "sys_inv env limit userMemory held s"
  shows "keeps env limit userMemory held s (sys_call env limit (CallPutToDestroy i) s)"
proof (cases "length (sys_out s) \<le> i")
  case True
  with assms show ?thesis by (auto simp: keeps_def)
next
  case False
  let ?c = "sys_out s ! i" and ?out = "remove_nth i (sys_out s)"
  note S = assms [unfolded sys_inv_def env_ok_def]
  have ms: "mset (sys_out s) = mset (?c # ?out)" using False by (intro mset_remove_nth) simp
  have inv: "pool_inv held (sys_pool s) (?c # ?out)" using S ms by (auto intro: pool_inv_mset)
  have sem: "semaphore_ok (pe_semaphore env) (int (unat (maxMemory (sys_pool s)))) held" using S by simp
  obtain e p w where ptd: "PutToDestroy env ?c (sys_pool s) (sys_world s) = (e, p, w)" by (metis prod_cases3)
  note P = PutToDestroy_keeps_inv [OF inv sem ptd]
  have own: "owned p = owned (sys_pool s)"
    using ptd by (auto simp: PutToDestroy_def owned_def frame split: prod.splits)
  let ?s = "s\<lparr>sys_pool := p, sys_out := ?out, sys_world := w\<rparr>"
  have "set ?out \<subseteq> set (sys_out s)" using mset_eq_setD [OF ms] by auto
  with P have "sys_inv env limit userMemory held ?s" by (intro sys_inv_shrink [OF assms]) auto
  moreover have "sys_owner used ?s" if "ids_fresh used env" "sys_owner used s" for used
  proof -
    have "used (sys_world s) \<subseteq> used w"
      using growsD [OF grows_PooledContainer_Remove [OF that(1)]] ptd
      by (fastforce simp: PutToDestroy_def split: prod.splits)
    moreover have "mset (ids (?out @ owned p)) \<subseteq># mset (ids (sys_out s @ owned (sys_pool s)))"
      using mset_ids [OF ms] own by simp
    ultimately have "moves used (sys_world s) (sys_out s @ owned (sys_pool s)) w (?out @ owned p)"
      by (rule moves_old)
    with that(2) show ?thesis by (auto simp: sys_owner_def intro: owner_inv_moves)
  qed
  ultimately show ?thesis using ptd False by (auto simp: keeps_def)
qed

text \<open>The reaper: what it takes out of the idle map it has removed, and the accounting follows.\<close>

lemma reap_ok:
  assumes inv: "pool_inv held p out"
  obtains del p' errs w' where "reap env t p w = Returns (errs, p', w')"
    and "reap_collect t (pe_idlesOrder env (idles p)) p = (del, p')"
    and "remove_all env ''failed to unpause container during reaping: %w''
           ''failed to delete container during reaping: %w'' del w = (errs, w')"
    and "pool_inv held p' out"
proof -
  obtain del p' where c: "reap_collect t (pe_idlesOrder env (idles p)) p = (del, p')" by force
  obtain errs w' where r: "remove_all env ''failed to unpause container during reaping: %w''
      ''failed to delete container during reaping: %w'' del w = (errs, w')" by force
  note I = inv [unfolded pool_inv_def]
  have "reap env t p w = Returns (errs, p', w')" using I c r by (simp add: reap_def)
  moreover have "pool_inv held p' out"
  proof -
    from reap_collect_props [OF c] I
    have R: "mset (flat (idles p)) = mset del + mset (flat (idles p'))" "idles_wf (idles p')" "acct_ok p'"
      and p': "p' = p\<lparr>idles := idles p', idlesMemory := idlesMemory p'\<rparr>" by auto
    have "idlesLocked p' = idlesLocked p" "prewarmed p' = prewarmed p" "maxMemory p' = maxMemory p"
      "inFlightMemory p' = inFlightMemory p" "inFlight p' = inFlight p" by (subst p', simp)+
    then show ?thesis using I R mem_sum_split [OF R(1)] by (simp add: pool_inv_def)
  qed
  ultimately show ?thesis using c r that by blast
qed

lemma CallReap_keeps:
  assumes "sys_inv env limit userMemory held s"
  shows "keeps env limit userMemory held s (sys_call env limit (CallReap t) s)"
proof -
  have inv: "pool_inv held (sys_pool s) (sys_out s)" using assms by (simp add: sys_inv_def)
  obtain del p errs w where r: "reap env t (sys_pool s) (sys_world s) = Returns (errs, p, w)"
    and c: "reap_collect t (pe_idlesOrder env (idles (sys_pool s))) (sys_pool s) = (del, p)"
    and rm: "remove_all env ''failed to unpause container during reaping: %w''
           ''failed to delete container during reaping: %w'' del (sys_world s) = (errs, w)"
    and inv': "pool_inv held p (sys_out s)" by (rule reap_ok [OF inv])
  from reap_collect_props [OF c] inv
  have R: "mset (flat (idles (sys_pool s))) = mset del + mset (flat (idles p))"
    "idles_sorted (idles (sys_pool s)) \<longrightarrow> idles_sorted (idles p)"
    and p: "p = (sys_pool s)\<lparr>idles := idles p, idlesMemory := idlesMemory p\<rparr>" by (auto simp: pool_inv_def)
  have fr: "poolClosed p = poolClosed (sys_pool s)" "maxMemory p = maxMemory (sys_pool s)"
    "prewarmed p = prewarmed (sys_pool s)"
    "containersToDeleteForSpace p = containersToDeleteForSpace (sys_pool s)" by (subst p, simp)+
  have "set (flat (idles p)) \<subseteq> set (flat (idles (sys_pool s)))"
    using arg_cong [OF R(1), of set_mset] by auto
  then have "sys_inv env limit userMemory held (s\<lparr>sys_pool := p, sys_world := w\<rparr>)"
    using R(2) by (intro sys_inv_shrink_world [OF assms inv' fr(1,2)]) auto
  moreover have "sys_owner used (s\<lparr>sys_pool := p, sys_world := w\<rparr>)"
    if "ids_fresh used env" "sys_owner used s" for used
  proof -
    have "mset (sys_out s @ owned p) \<subseteq># mset (sys_out s @ owned (sys_pool s))"
      using R(1) fr by (simp add: owned_def)
    then have "moves used (sys_world s) (sys_out s @ owned (sys_pool s)) w (sys_out s @ owned p)"
      using remove_all_grows [OF that(1) rm] by (intro moves_old mset_ids_mono)
    with that(2) show ?thesis by (auto simp: sys_owner_def intro: owner_inv_moves)
  qed
  ultimately show ?thesis using r by (auto simp: keeps_def)
qed

lemma sys_owner_moves:
  assumes "sys_owner used s" and "moves used (sys_world s) (owned (sys_pool s)) w (owned p)"
  shows "sys_owner used (s\<lparr>sys_pool := p, sys_world := w\<rparr>)"
proof -
  have "moves used (sys_world s) (sys_out s @ owned (sys_pool s)) w (sys_out s @ owned p)"
    by (rule moves_mset [OF moves_append [OF assms(2), of "sys_out s"]]) (simp_all add: union_commute)
  with assms(1) show ?thesis by (auto simp: sys_owner_def intro: owner_inv_moves)
qed

lemma CallDeleter_keeps:
  assumes "sys_inv env limit userMemory held s"
  shows "keeps env limit userMemory held s (sys_call env limit CallDeleter s)"
proof -
  have inv: "pool_inv held (sys_pool s) (sys_out s)" using assms by (simp add: sys_inv_def)
  obtain p w where d: "deleter_step env (sys_pool s) (sys_world s) = (p, w)" by force
  have p: "p = (sys_pool s)\<lparr>containersToDeleteForSpace := tl (containersToDeleteForSpace (sys_pool s))\<rparr>"
    using deleter_step_pool [of env "sys_pool s" "sys_world s"] d by simp
  have "pool_inv held p (sys_out s)"
    using inv by (simp add: p pool_inv_def acct_ok_def)
  then have "sys_inv env limit userMemory held (s\<lparr>sys_pool := p, sys_world := w\<rparr>)"
    by (intro sys_inv_shrink_world [OF assms]) (simp_all add: p)
  with d show ?thesis by (auto simp: keeps_def intro: sys_owner_moves deleter_step_moves)
qed

lemma CallPrewarm_keeps:
  assumes "sys_inv env limit userMemory held s"
  shows "keeps env limit userMemory held s (sys_call env limit CallPrewarm s)"
proof -
  have ord: "gm_order (pe_creationOrder env)" and open_: "\<not> poolClosed (sys_pool s)"
    and inv: "pool_inv held (sys_pool s) (sys_out s)"
    using assms by (simp_all add: sys_inv_def env_ok_def)
  obtain p w where d: "prewarm_step env (sys_pool s) (sys_world s) = Returns (p, w)"
    using prewarm_step_returns [OF ord open_] by blast
  note P = prewarm_step_ok [OF ord d]
  have fr: "idles p = idles (sys_pool s)" "idlesMemory p = idlesMemory (sys_pool s)"
    "idlesLocked p = idlesLocked (sys_pool s)" "maxMemory p = maxMemory (sys_pool s)"
    "inFlight p = inFlight (sys_pool s)" "inFlightMemory p = inFlightMemory (sys_pool s)"
    "poolClosed p = poolClosed (sys_pool s)" by (subst P(1), simp)+
  have "pool_inv held p (sys_out s)"
    using inv P(2) by (simp add: fr pool_inv_def acct_ok_def)
  then have "sys_inv env limit userMemory held (s\<lparr>sys_pool := p, sys_world := w\<rparr>)"
    by (intro sys_inv_shrink_world [OF assms]) (simp_all add: fr)
  with d show ?thesis by (auto simp: keeps_def intro: sys_owner_moves P(3))
qed

lemma sys_call_keeps:
  "sys_inv env limit userMemory held s \<Longrightarrow> keeps env limit userMemory held s (sys_call env limit c s)"
  by (cases c)
    (simp_all only: CallGet_keeps CallPut_keeps CallPutToDestroy_keeps CallReap_keeps
      CallDeleter_keeps CallPrewarm_keeps)

section \<open>Every sequence of calls\<close>

interpretation pool: call_system "sys_call env limit" "sys_inv env limit userMemory held"
  for env :: "('w, 's) PoolEnv" and limit userMemory held
  by unfold_locales (use sys_call_keeps in \<open>fastforce simp: keeps_def\<close>)

interpretation owners: call_system "sys_call env limit"
    "\<lambda>s. sys_inv env limit userMemory held s \<and> ids_fresh used env \<and> sys_owner used s"
  for env :: "('w, 's) PoolEnv" and limit userMemory held used
  by unfold_locales (use sys_call_keeps in \<open>fastforce simp: keeps_def\<close>)

lemma new_system_inv:
  assumes "env_ok env limit userMemory held" and "unat userMemory < 2 ^ 63" and "held sem = 0"
  shows "sys_inv env limit userMemory held (new_system sem userMemory manifests w)"
  using assms by (simp add: sys_inv_def new_system_def NewContainerPool_def pool_inv_def acct_ok_def)

end
