(* ===== verification/Pool_Properties.thy ===== *)
theory Pool_Properties
  imports Pool_System
begin

text \<open>
  What the container pool promises (\<open>pkg/exec/pool.go\<close>), for every sequence of calls and
  operation by operation, with a small concrete environment on which the hypotheses of the
  theorems are seen to hold.
\<close>

section \<open>A concrete environment\<close>

text \<open>
  The world counts the containers created and the clock ticks; every container gets a new ID.
  The semaphore is the counter of its documentation.
\<close>

definition example_containers :: "nat ContainerOps" where
  "example_containers =
     \<lparr>op_Initialize = \<lambda>c i w. (([], None), w), op_Run = \<lambda>c r w. (([], None), w),
      op_State = \<lambda>c w. (Inr \<lparr>cs_Status = ''running'', cs_Running = True, cs_Paused = False,
        cs_OOMKilled = False, cs_Dead = False, cs_ExitCode = 0, cs_Error = '''', cs_StartedAt = '''', cs_FinishedAt = ''''\<rparr>, w),
      op_Pause = \<lambda>c w. (None, w), op_Unpause = \<lambda>c w. (None, w), op_Remove = \<lambda>c w. (None, w),
      op_PauseEventually = \<lambda>c d w. w, op_UnpauseIfNeeded = \<lambda>c w. (None, w)\<rparr>"

definition example_env :: "ByteSize \<Rightarrow> (nat, int) PoolEnv" where
  "example_env userMemory =
     \<lparr>pe_containers = example_containers,
      pe_factory = \<lparr>op_CreateContainer = \<lambda>kind memory name w.
        (Inr \<lparr>ctr_ID = replicate w CHR ''x'', ctr_IP = ''10.0.0.1''\<rparr>, Suc w)\<rparr>,
      pe_firewall = \<lparr>op_NeedsPerContainerFirewallSetup = \<lambda>ns w. (False, w),
        op_SetupPerContainerFirewall = \<lambda>ip ns w. (Inr 0, w), op_FirewallCleanup = \<lambda>h w. (None, w)\<rparr>,
      pe_Now = \<lambda>w. (int w, Suc w),
      pe_semaphore = \<lparr>sem_Acquire = \<lambda>n s. if s + n \<le> int (unat userMemory) then (None, s + n)
                                          else (Some (ErrorString ''context canceled''), s),
                      sem_Release = \<lambda>n s. s - n\<rparr>,
      pe_idlesOrder = map fst, pe_prewarmOrder = map fst, pe_manifestOrder = map fst,
      pe_creationOrder = map fst\<rparr>"

definition example_used :: "nat \<Rightarrow> string set" where
  "example_used w = (\<lambda>i. replicate i CHR ''x'') ` {..<w}"

definition example_fn :: "string \<Rightarrow> ActivationMessageFunction" where
  "example_fn name = \<lparr>amf_Namespace = ''ns'', amf_Name = name, amf_Version = ''0.0.1'',
     amf_Revision = ''1'', amf_Binding = ''''\<rparr>"

lemma example_env_ok: "(\<And>k. unat (limit k) < 2 ^ 63) \<Longrightarrow> env_ok (example_env m) limit m id"
  by (auto simp: env_ok_def example_env_def gm_order_map_fst semaphore_ok_def split: if_splits)

lemma example_ids_fresh: "ids_fresh example_used (example_env m)"
  by (auto simp: ids_fresh_def example_env_def example_containers_def grows_def example_used_def
      inj_on_def replicate_eq_replicate)

section \<open>Every sequence of calls\<close>

text \<open>
  C1. From a new pool, whatever the sequence of calls of Get, Put, PutToDestroy and of rounds of
  the reaper, the deleter and the prewarming goroutine, and however the daemon, the firewall
  and the semaphore answer: every call returns (no panic, no deadlock, no failure to make
  space), the memory of the idle containers and of those handed out stays within the
  configured user memory, and the two counters of the pool and the weight held in the
  semaphore are exactly these sums.
\<close>

theorem pool_memory_budget:
  assumes "env_ok env limit userMemory held" and "unat userMemory < 2 ^ 63" and "held sem = 0"
  shows "\<exists>s. run_calls (sys_call env limit) calls (new_system sem userMemory manifests w) = Returns s \<and>
    mem_sum (flat (idles (sys_pool s))) + mem_sum (sys_out s) \<le> unat userMemory \<and>
    unat (idlesMemory (sys_pool s)) = mem_sum (flat (idles (sys_pool s))) \<and>
    unat (inFlightMemory (sys_pool s)) = mem_sum (sys_out s) \<and>
    held (inFlight (sys_pool s)) = int (mem_sum (sys_out s))"
proof -
  from pool.run_returns [OF new_system_inv [OF assms], of calls] obtain s
    where "run_calls (sys_call env limit) calls (new_system sem userMemory manifests w) = Returns s"
      and "sys_inv env limit userMemory held s" by blast
  then show ?thesis by (auto simp: sys_inv_def pool_inv_def acct_ok_def)
qed

definition example_calls :: "pool_call list" where
  "example_calls =
     [CallPrewarm, CallGet ''ns'' (example_fn ''a'') ''go'', CallGet ''ns'' (example_fn ''a'') ''go'', CallPut 0, CallPut 0,
      CallGet ''ns'' (example_fn ''a'') ''go'', CallGet ''ns'' (example_fn ''b'') ''go'', CallDeleter]"

theorem pool_memory_budget_witness:
  "env_ok (example_env 10) (\<lambda>_. 5) 10 id \<and>
   (\<exists>s. run_calls (sys_call (example_env 10) (\<lambda>_. 5)) example_calls (new_system 0 10 [] 0) = Returns s \<and>
     mem_sum (flat (idles (sys_pool s))) + mem_sum (sys_out s) \<le> 10)"
  using pool_memory_budget [OF example_env_ok, of "\<lambda>_. 5" 10 0 example_calls "[]" 0] example_env_ok [of "\<lambda>_. 5" 10]
  by auto

text \<open>
  C2. No container has two owners: the containers handed out to callers, the idle ones, the
  prewarmed ones and those that wait to be deleted have pairwise different IDs after every
  sequence of calls. In particular Get never hands out a container that another caller holds.
\<close>

theorem pool_exclusive_ownership:
  assumes "env_ok env limit userMemory held" and "unat userMemory < 2 ^ 63" and "held sem = 0"
    and "ids_fresh used env"
    and "run_calls (sys_call env limit) calls (new_system sem userMemory manifests w) = Returns s"
  shows "distinct (ids (sys_out s @ flat (idles (sys_pool s)) @ flat (prewarmed (sys_pool s))
           @ containersToDeleteForSpace (sys_pool s)))"
proof -
  let ?s0 = "new_system sem userMemory manifests w"
  have "sys_owner used ?s0"
    by (simp add: sys_owner_def new_system_def NewContainerPool_def owned_def owner_inv_def)
  with new_system_inv [OF assms(1-3)] assms(4)
  have "sys_inv env limit userMemory held ?s0 \<and> ids_fresh used env \<and> sys_owner used ?s0" by blast
  from owners.run_inv [OF this assms(5)] show ?thesis
    by (simp add: sys_owner_def owner_inv_def owned_def)
qed

theorem pool_exclusive_ownership_witness:
  "\<exists>s. run_calls (sys_call (example_env 10) (\<lambda>_. 5)) example_calls (new_system 0 10 [] 0) = Returns s \<and>
     length (sys_out s) = 2 \<and> distinct (ids (sys_out s @ owned (sys_pool s)))"
proof -
  have "(case run_calls (sys_call (example_env 10) (\<lambda>_. 5)) example_calls (new_system 0 10 [] 0) of
      Returns s \<Rightarrow> length (sys_out s) = 2 | _ \<Rightarrow> False)" by code_simp
  then obtain s where s: "run_calls (sys_call (example_env 10) (\<lambda>_. 5)) example_calls (new_system 0 10 [] 0) = Returns s"
    and n: "length (sys_out s) = 2" by (auto split: outcome.splits)
  from pool_exclusive_ownership [OF example_env_ok _ _ example_ids_fresh s] n s show ?thesis
    by (simp add: owned_def)
qed

text \<open>
  As long as the clock readings of Put do not decrease, every list of idle containers stays
  ordered by the time of the last use, whatever the calls: the order that eviction, reuse and
  reaping rely on.
\<close>

theorem pool_idles_ordered:
  assumes "env_ok env limit userMemory held" and "unat userMemory < 2 ^ 63" and "held sem = 0"
    and "run_calls (sys_call env limit) calls (new_system sem userMemory manifests w) = Returns s"
    and "sorted (rev (sys_times s))"
  shows "sorted (map pc_lastUsed (bucket (idles (sys_pool s)) k))"
  using pool.run_inv [OF new_system_inv [OF assms(1-3)] assms(4)] assms(5)
  by (simp add: sys_inv_def idles_sorted_def)

definition example_key :: "string \<Rightarrow> WarmContainerKey" where
  "example_key name = \<lparr>wck_InvocationNamespace = ''ns'', wck_Function = example_fn name\<rparr>"

theorem pool_idles_ordered_witness:
  "\<exists>s. run_calls (sys_call (example_env 10) (\<lambda>_. 5)) (take 5 example_calls) (new_system 0 10 [] 0) = Returns s \<and>
     length (bucket (idles (sys_pool s)) (example_key ''a'')) = 2 \<and>
     sorted (map pc_lastUsed (bucket (idles (sys_pool s)) (example_key ''a'')))"
proof -
  have "(case run_calls (sys_call (example_env 10) (\<lambda>_. 5)) (take 5 example_calls) (new_system 0 10 [] 0) of
      Returns s \<Rightarrow> length (bucket (idles (sys_pool s)) (example_key ''a'')) = 2 \<and> sorted (rev (sys_times s))
    | _ \<Rightarrow> False)" by code_simp
  then obtain s where s: "run_calls (sys_call (example_env 10) (\<lambda>_. 5)) (take 5 example_calls) (new_system 0 10 [] 0) = Returns s"
    and n: "length (bucket (idles (sys_pool s)) (example_key ''a'')) = 2" "sorted (rev (sys_times s))"
    by (auto split: outcome.splits)
  from pool_idles_ordered [OF example_env_ok _ _ s n(2)] n(1) s show ?thesis by simp
qed

section \<open>Operation by operation\<close>

text \<open>A decimal number followed by a separator determines the number.\<close>

lemma digit_valid: "is_digit c \<Longrightarrow> valid_name_char c"
  by (auto simp: is_digit_def valid_name_char_def Let_def)

lemma fmt_d_sep: "m \<noteq> n \<Longrightarrow> fmt_d m @ CHR ''_'' # xs \<noteq> fmt_d n @ CHR ''_'' # ys"
proof
  assume "m \<noteq> n" and eq: "fmt_d m @ CHR ''_'' # xs = fmt_d n @ CHR ''_'' # ys"
  have d: "takeWhile is_digit (fmt_d k @ CHR ''_'' # zs) = fmt_d k" for k zs
    using fmt_d_digits [of _ k] by (subst takeWhile_append2) (auto simp: is_digit_def)
  from eq d [of m xs] d [of n ys] have "fmt_d m = fmt_d n" by simp
  with fmt_d_inj \<open>m \<noteq> n\<close> show False by blast
qed

text \<open>No path through \<open>getContainer\<close> touches the semaphore or the memory in flight.\<close>

lemma make_space_capacity:
  "make_space ord inFl acc p = Returns (r, p') \<Longrightarrow> inFlight p' = inFlight p \<and> inFlightMemory p' = inFlightMemory p"
proof (induction ord inFl acc p rule: make_space.induct)
  case (1 ord inFl acc p)
  from "1.prems" show ?case
    by (subst (asm) make_space.simps)
      (auto simp: drop_head_def split: option.splits list.splits if_splits dest!: "1.IH")
qed

lemma idles_section_capacity:
  "idles_section ord data inFl p = Returns (r, p') \<Longrightarrow> inFlight p' = inFlight p \<and> inFlightMemory p' = inFlightMemory p"
  by (auto simp: idles_section_def take_warm_def Let_def
      split: if_splits option.splits outcome.splits sum.splits dest!: make_space_capacity)

lemma send_deletes_capacity:
  "send_deletes env ds p w = Returns (p', w') \<Longrightarrow> inFlight p' = inFlight p \<and> inFlightMemory p' = inFlightMemory p"
proof (induction ds arbitrary: p w)
  case (Cons d ds)
  then obtain p1 w1 where s: "send_delete env d p w = Returns (p1, w1)"
    and r: "send_deletes env ds p1 w1 = Returns (p', w')" by (auto split: outcome.splits prod.splits)
  have "inFlight p1 = inFlight p \<and> inFlightMemory p1 = inFlightMemory p"
    using s by (auto simp: send_delete_def deleter_step_def Let_def split: if_splits prod.splits list.splits)
  with Cons.IH [OF r] show ?case by simp
qed simp

lemma create_cold_capacity:
  "create_cold env data kind memory p w = (r, p', w') \<Longrightarrow> inFlight p' = inFlight p \<and> inFlightMemory p' = inFlightMemory p"
  using create_cold_pool [of env data kind memory p w] by simp

lemma getContainer_capacity:
  assumes "getContainer env ns fn kind memory inFl p w = Returns (r, p', w')"
  shows "inFlight p' = inFlight p \<and> inFlightMemory p' = inFlightMemory p"
  using assms
  by (auto simp: getContainer_def poke_prewarm_def Let_def
      split: outcome.splits idles_result.splits prod.splits list.splits if_splits
      dest!: idles_section_capacity send_deletes_capacity create_cold_capacity)

text \<open>Dropping the old prefix of sorted lists leaves only young containers.\<close>

lemma sorted_dropWhile_young:
  fixes t :: int
  shows "sorted (map f xs) \<Longrightarrow> x \<in> set (dropWhile (\<lambda>c. \<not> f c > t) xs) \<Longrightarrow> f x > t"
  by (induction xs) (auto split: if_splits)

lemma reap_keeps_young:
  assumes ord: "gm_order ord" and wf: "idles_wf m" and srt: "idles_sorted m"
    and b: "\<And>k. k \<in> set (ord m) \<Longrightarrow> bucket m' k = dropWhile (\<lambda>c. \<not> pc_lastUsed c > t) (bucket m k)"
      "\<And>k. k \<notin> set (ord m) \<Longrightarrow> bucket m' k = bucket m k"
    and c: "c \<in> set (bucket m' k)"
  shows "pc_lastUsed c > t"
proof -
  have "k \<in> set (ord m)"
  proof (rule ccontr)
    assume k: "k \<notin> set (ord m)"
    then have "bucket m k = []"
      using gm_order_set [OF ord idles_wf_distinct [OF wf]] map_of_eq_None_iff [of m k] by (simp add: bucket_def)
    with b(2) [OF k] c show False by simp
  qed
  with b(1) c srt show ?thesis by (auto simp: idles_sorted_def intro: sorted_dropWhile_young)
qed

text \<open>
  C9. The critical section of getContainer evicts only when it has to, never more than it has
  to, and always the longest unused containers first. When the request does not fit beside the
  idle containers, it evicts a list of containers ordered by last use, none of which was used
  after a container that stays; what stays fits together with everything in flight; with the
  last eviction undone it would not fit.
\<close>

theorem eviction_least_recently_used:
  assumes "gm_order ord" and "idles_wf (idles p)" and "acct_ok p" and "\<not> idlesLocked p"
    and "idles_sorted (idles p)"
    and "unat inFl \<le> unat (maxMemory p)" and "mem_sum (flat (idles p)) + unat inFl < 2 ^ 64"
    and "bucket (idles p) data = []"
  shows "\<exists>ds p'. idles_section ord data inFl p = Returns (Space ds, p') \<and>
    mset (flat (idles p)) = mset ds + mset (flat (idles p')) \<and>
    sorted (map pc_lastUsed ds) \<and>
    (\<forall>d \<in> set ds. \<forall>c \<in> set (flat (idles p')). pc_lastUsed d \<le> pc_lastUsed c) \<and>
    mem_sum (flat (idles p')) + unat inFl \<le> unat (maxMemory p) \<and>
    (ds = [] \<longleftrightarrow> mem_sum (flat (idles p)) + unat inFl \<le> unat (maxMemory p)) \<and>
    (ds \<noteq> [] \<longrightarrow> unat (maxMemory p) < mem_sum (flat (idles p')) + unat (pc_memory (last ds)) + unat inFl)"
  using assms(1-4,6,7)
proof (cases rule: idles_section_cases [where data = data])
  case (warm c p')
  with assms(8) show ?thesis using take_warm_None_iff [of data p] by simp
next
  case roomy
  then show ?thesis by (intro exI [of _ "[]"] exI [of _ p]) simp
next
  case (evict ds p')
  with assms(5) show ?thesis by (intro exI [of _ ds] exI [of _ p']) (auto simp: evicts_def)
qed

definition example_pooled :: "string \<Rightarrow> string \<Rightarrow> Time \<Rightarrow> ByteSize \<Rightarrow> PooledContainer" where
  "example_pooled cid name t m =
     \<lparr>pc_Container = \<lparr>ctr_ID = cid, ctr_IP = ''10.0.0.1''\<rparr>, pc_initializedFor = example_key name,
      pc_lastUsed = t, pc_memory = m, pc_firewallCleanup = None\<rparr>"

definition example_pool :: "int ContainerPool" where
  "example_pool =
     (NewContainerPool 0 10 [])
       \<lparr>idles := [(example_key ''a'', [example_pooled ''1'' ''a'' 3 2, example_pooled ''2'' ''a'' 7 2]),
                 (example_key ''b'', [example_pooled ''3'' ''b'' 5 4])],
        idlesMemory := 8\<rparr>"

lemma example_pool_ok:
  "idles_wf (idles example_pool)" "acct_ok example_pool" "idles_sorted (idles example_pool)"
  "\<not> idlesLocked example_pool" "mem_sum (flat (idles example_pool)) = 8" "maxMemory example_pool = 10"
  "pool_inv id example_pool []"
proof -
  show wf: "idles_wf (idles example_pool)" and srt: "idles_sorted (idles example_pool)"
    by (auto simp: idles_wf_def idles_sorted_def example_pool_def bucket_def example_pooled_def
        example_key_def example_fn_def)
  show sum: "mem_sum (flat (idles example_pool)) = 8"
    by (simp add: example_pool_def flat_def mem_sum_def example_pooled_def)
  then show ac: "acct_ok example_pool" by (simp add: acct_ok_def example_pool_def)
  show l: "\<not> idlesLocked example_pool" and m: "maxMemory example_pool = 10"
    by (simp_all add: example_pool_def NewContainerPool_def)
  show "pool_inv id example_pool []"
    using wf ac l m sum by (simp add: pool_inv_def) (simp add: example_pool_def NewContainerPool_def)
qed

theorem eviction_least_recently_used_witness:
  "\<exists>ds p'. idles_section (map fst) (example_key ''c'') 7 example_pool = Returns (Space ds, p') \<and>
     map (\<lambda>c. ctr_ID (pc_Container c)) ds = [''1'', ''3''] \<and> sorted (map pc_lastUsed ds)"
proof -
  have b: "bucket (idles example_pool) (example_key ''c'') = []" by code_simp
  have "(case idles_section (map fst) (example_key ''c'') 7 example_pool of
      Returns (Space ds, p') \<Rightarrow> map (\<lambda>c. ctr_ID (pc_Container c)) ds = [''1'', ''3''] | _ \<Rightarrow> False)"
    by code_simp
  moreover from eviction_least_recently_used [OF gm_order_map_fst example_pool_ok(1,2,4,3), of 7 "example_key ''c''"]
  obtain ds p' where "idles_section (map fst) (example_key ''c'') 7 example_pool = Returns (Space ds, p')"
    and "sorted (map pc_lastUsed ds)" using b by (auto simp: example_pool_ok)
  ultimately show ?thesis by simp
qed

text \<open>
  C10. The reaper removes exactly the idle containers that were last used at or before the
  cut-off and keeps exactly the others, whatever order the map is ranged over in; the
  accounting follows and the lock is free again.
\<close>

theorem reap_removes_exactly_the_old:
  assumes "gm_order (pe_idlesOrder env)" and "pool_inv held p out" and "idles_sorted (idles p)"
  shows "\<exists>errs p' w'. reap env olderThan p w = Returns (errs, p', w') \<and>
    mset (flat (idles p')) = filter_mset (\<lambda>c. pc_lastUsed c > olderThan) (mset (flat (idles p))) \<and>
    pool_inv held p' out"
proof -
  obtain del p' errs w' where r: "reap env olderThan p w = Returns (errs, p', w')"
    and c: "reap_collect olderThan (pe_idlesOrder env (idles p)) p = (del, p')"
    and inv: "pool_inv held p' out" by (rule reap_ok [OF assms(2)])
  have wf: "idles_wf (idles p)" and "acct_ok p" using assms(2) by (simp_all add: pool_inv_def)
  from reap_collect_props [OF c this]
  have split: "mset (flat (idles p)) = mset del + mset (flat (idles p'))"
    and old: "\<forall>c \<in> set del. pc_lastUsed c \<le> olderThan"
    and wf': "idles_wf (idles p')"
    and b: "\<And>k. k \<in> set (pe_idlesOrder env (idles p)) \<Longrightarrow>
      bucket (idles p') k = dropWhile (\<lambda>c. \<not> pc_lastUsed c > olderThan) (bucket (idles p) k)" 
      "\<And>k. k \<notin> set (pe_idlesOrder env (idles p)) \<Longrightarrow> bucket (idles p') k = bucket (idles p) k" by auto
  have "pc_lastUsed c > olderThan" if "c \<in> set (flat (idles p'))" for c
    by (rule reap_keeps_young [OF assms(1) wf assms(3) b idles_wf_in_flat [OF wf' that]])
  then have "filter_mset (\<lambda>c. pc_lastUsed c > olderThan) (mset (flat (idles p'))) = mset (flat (idles p'))"
    by (simp add: filter_mset_eq_conv)
  moreover have "filter_mset (\<lambda>c. pc_lastUsed c > olderThan) (mset del) = {#}"
    using old by (simp add: filter_mset_eq_conv not_less)
  ultimately show ?thesis using r inv split by simp
qed

theorem reap_removes_exactly_the_old_witness:
  "\<exists>errs p' w'. reap (example_env 10) 5 example_pool 0 = Returns (errs, p', w') \<and>
     mset (flat (idles p')) = {#example_pooled ''2'' ''a'' 7 2#}"
proof -
  have "gm_order (pe_idlesOrder (example_env 10))" by (simp add: example_env_def gm_order_map_fst)
  from reap_removes_exactly_the_old [OF this example_pool_ok(7,3), of 5 0] show ?thesis
    by (auto simp: example_pool_def flat_def example_pooled_def)
qed

text \<open>
  C11. A successful Get has handed out a container initialised for exactly the requested
  namespace and function and with the requested memory. If the function had an idle container,
  it is the most recently used one and it is reported as reused; otherwise the container is
  not reported as reused.
\<close>

theorem Get_hands_out_the_right_container:
  fixes p :: "'s ContainerPool"
  assumes "pool_inv held p out" and "gm_order (pe_idlesOrder env)"
    and "semaphore_ok (pe_semaphore env) (int (unat (maxMemory p))) held" and "\<not> poolClosed p"
    and "unat memory < 2 ^ 63"
    and "\<forall>c \<in> set (bucket (idles p) \<lparr>wck_InvocationNamespace = ns, wck_Function = fn\<rparr>). pc_memory c = memory"
    and "Get env ns fn kind memory p w = Returns (Inr (c, reused), p', w')"
  shows "pc_initializedFor c = \<lparr>wck_InvocationNamespace = ns, wck_Function = fn\<rparr> \<and> pc_memory c = memory \<and>
    (case bucket (idles p) \<lparr>wck_InvocationNamespace = ns, wck_Function = fn\<rparr> of
       [] \<Rightarrow> \<not> reused
     | b # bs \<Rightarrow> reused \<and> pc_Container c = pc_Container (last (b # bs)))"
proof -
  let ?k = "\<lparr>wck_InvocationNamespace = ns, wck_Function = fn\<rparr>"
  have "pc_initializedFor c = ?k \<and> pc_memory c = memory \<and> (reused \<longleftrightarrow> bucket (idles p) ?k \<noteq> [])"
    using Get_keeps_inv [OF assms(1-5) refl, of ns fn kind w] assms(6,7) by fastforce
  moreover have "pc_Container c = pc_Container (last (bucket (idles p) ?k))" if ne: "bucket (idles p) ?k \<noteq> []"
    using assms(7) ne
    by (auto simp: Get_def getContainer_def idles_section_def take_warm_def Let_def
        split: prod.splits option.splits outcome.splits sum.splits if_splits dest!: warm_finish_InrD)
  ultimately show ?thesis by (cases "bucket (idles p) ?k") auto
qed

theorem Get_hands_out_the_right_container_witness:
  "\<exists>c p' w'. Get (example_env 10) ''ns'' (example_fn ''a'') ''go'' 2 example_pool 0 = Returns (Inr (c, True), p', w') \<and>
     ctr_ID (pc_Container c) = ''2'' \<and> pc_initializedFor c = example_key ''a''"
proof -
  have "(case Get (example_env 10) ''ns'' (example_fn ''a'') ''go'' 2 example_pool 0 of
      Returns (Inr (c, reused), p', w') \<Rightarrow> reused \<and> ctr_ID (pc_Container c) = ''2'' | _ \<Rightarrow> False)" by code_simp
  then obtain c p' w' where g: "Get (example_env 10) ''ns'' (example_fn ''a'') ''go'' 2 example_pool 0 = Returns (Inr (c, True), p', w')"
    and cid: "ctr_ID (pc_Container c) = ''2''" by (auto split: outcome.splits prod.splits sum.splits)
  have env: "env_ok (example_env 10) (\<lambda>_. 2) 10 id" by (rule example_env_ok) simp
  have unif: "\<forall>c \<in> set (bucket (idles example_pool) \<lparr>wck_InvocationNamespace = ''ns'', wck_Function = example_fn ''a''\<rparr>). pc_memory c = 2"
    by (simp add: example_pool_def bucket_def example_pooled_def example_key_def)
  from Get_hands_out_the_right_container [OF example_pool_ok(7) _ _ _ _ unif g] env g cid
  show ?thesis by (auto simp: env_ok_def example_pool_ok(6) example_key_def) (simp add: example_pool_def NewContainerPool_def)
qed

text \<open>
  C12. A Get that fails, for whatever reason, gives back all the capacity it took: the memory in
  flight and the weight held in the semaphore are the same as before the call. No assumption on
  the state of the pool or on the answers of the daemon is needed.
\<close>

theorem Get_failure_restores_capacity:
  assumes "semaphore_ok (pe_semaphore env) cap held" and "unat memory < 2 ^ 63" and "0 \<le> held (inFlight p)"
    and "Get env ns fn kind memory p w = Returns (Inl e, p', w')"
  shows "inFlightMemory p' = inFlightMemory p \<and> held (inFlight p') = held (inFlight p)"
proof -
  obtain ae s1 where acq: "sem_Acquire (pe_semaphore env) (int64 memory) (inFlight p) = (ae, s1)" by force
  show ?thesis
  proof (cases ae)
    case (Some err)
    have "s1 = inFlight p" by (rule semaphore_acquire_fails [OF assms(1) acq [unfolded Some]])
    with acq Some assms(4) show ?thesis by (auto simp: Get_def)
  next
    case None
    let ?p2 = "p\<lparr>inFlight := s1, inFlightMemory := inFlightMemory p + memory\<rparr>"
    from acq None assms(4) obtain e' p3 w1
      where gc: "getContainer env ns fn kind memory (inFlightMemory p + memory) ?p2 w = Returns (Inl e', p3, w1)"
        and p': "p' = release_capacity env memory p3"
      by (auto simp: Get_def Let_def split: outcome.splits sum.splits prod.splits)
    have "inFlight p3 = s1 \<and> inFlightMemory p3 = inFlightMemory p + memory"
      using getContainer_capacity [OF gc] by simp
    moreover have "held s1 = held (inFlight p) + int (unat memory)"
      using semaphore_acquire [OF assms(1)] acq None int64_small [OF assms(2)] by metis
    ultimately show ?thesis
      using semaphore_release [OF assms(1), of "unat memory" s1] assms(3) int64_small [OF assms(2)]
      by (simp add: p' release_capacity_def del: uint_nat)
  qed
qed

text \<open>The environment in which every creation of a container fails.\<close>

definition failing_env :: "ByteSize \<Rightarrow> (nat, int) PoolEnv" where
  "failing_env userMemory =
     (example_env userMemory)
       \<lparr>pe_factory := \<lparr>op_CreateContainer = \<lambda>kind memory name w. (Inl (ErrorString ''no space left on device''), w)\<rparr>\<rparr>"

theorem Get_failure_restores_capacity_witness:
  "\<exists>e p' w'. Get (failing_env 10) ''ns'' (example_fn ''c'') ''go'' 7 example_pool 0 = Returns (Inl e, p', w') \<and>
     inFlightMemory p' = inFlightMemory example_pool \<and> inFlight p' = inFlight example_pool"
proof -
  have "(case Get (failing_env 10) ''ns'' (example_fn ''c'') ''go'' 7 example_pool 0 of
      Returns (Inl e, p', w') \<Rightarrow> True | _ \<Rightarrow> False)" by code_simp
  then obtain e p' w' where g: "Get (failing_env 10) ''ns'' (example_fn ''c'') ''go'' 7 example_pool 0 = Returns (Inl e, p', w')"
    by (auto split: outcome.splits prod.splits sum.splits)
  have "semaphore_ok (pe_semaphore (failing_env 10)) 10 id"
    using example_env_ok [of "\<lambda>_. 0" 10] by (simp add: env_ok_def failing_env_def)
  from Get_failure_restores_capacity [OF this _ _ g] g show ?thesis
    by (auto simp: example_pool_def NewContainerPool_def)
qed

text \<open>
  Two containers that the pool creates, cold or prewarmed, never get the same name, whatever
  the namespace, the function and the kind are: the names differ as soon as the sequence numbers
  do. The names consist of characters that docker allows.
\<close>

theorem container_names_unique:
  assumes "i \<noteq> j"
  shows "specificContainerName i ns fn \<noteq> specificContainerName j ns' fn' \<and>
    specificContainerName i ns fn \<noteq> prewarmContainerName j kind \<and>
    prewarmContainerName i kind \<noteq> prewarmContainerName j kind' \<and>
    list_all valid_name_char (specificContainerName i ns fn @ prewarmContainerName j kind)"
proof (intro conjI)
  have num: "unat i \<noteq> unat j" using assms by (simp add: word_unat_eq_iff)
  have name: "''wsk_'' @ fmt_d m @ CHR ''_'' # xs \<noteq> ''wsk_'' @ fmt_d n @ CHR ''_'' # ys"
    if "m \<noteq> n" for m n xs ys using fmt_d_sep [OF that] by simp
  show "specificContainerName i ns fn \<noteq> specificContainerName j ns' fn'"
    "specificContainerName i ns fn \<noteq> prewarmContainerName j kind"
    "prewarmContainerName i kind \<noteq> prewarmContainerName j kind'"
    using name [OF num] by (simp_all add: specificContainerName_def prewarmContainerName_def)
  have "list_all valid_name_char (fmt_d n)" for n
    using fmt_d_digits [of _ n] digit_valid by (auto simp: list_all_iff)
  moreover have "list_all valid_name_char (sanitizeForContainerName s)" for s
    by (simp add: sanitizeForContainerName_def list_all_iff)
  ultimately show "list_all valid_name_char (specificContainerName i ns fn @ prewarmContainerName j kind)"
    by (simp add: specificContainerName_def prewarmContainerName_def) (simp add: valid_name_char_def)
qed

theorem container_names_unique_witness:
  "specificContainerName 1 ''a_1'' ''b'' \<noteq> specificContainerName 11 ''a'' ''b'' \<and>
   specificContainerName 1 ''prewarm'' ''go'' \<noteq> prewarmContainerName 2 ''go''"
  using container_names_unique [of 1 11 "''a_1''" "''b''" "''a''" "''b''"]
    container_names_unique [of 1 2 "''prewarm''" "''go''" _ _ "''go''"] by simp

text \<open>
  C14. Shutting down while a reconciliation of the prewarm containers is requested crashes the
  invoker if that reconciliation fails: the goroutine asks for a retry on the channel that
  Shutdown has closed. This is a defect of the code.
\<close>

theorem Shutdown_panics_on_failed_reconcile:
  assumes "\<not> poolClosed p" and "prewarmPoke p"
    and "gm_order (pe_creationOrder env)"
    and "fst (reconcilePrewarm env (p\<lparr>poolClosed := True, containersToDeleteForSpace := [], prewarmPoke := False\<rparr>)
               (drain_deletes env (containersToDeleteForSpace p) w)) \<noteq> None"
  shows "Shutdown env p w = Panics ''send on closed channel''"
proof -
  let ?p = "p\<lparr>poolClosed := True, containersToDeleteForSpace := [], prewarmPoke := False\<rparr>"
  let ?w = "drain_deletes env (containersToDeleteForSpace p) w"
  obtain e p1 w1 where r: "reconcilePrewarm env ?p ?w = (e, p1, w1)" by (metis prod_cases3)
  with assms(4) obtain err where "e = Some err" by auto
  from reconcilePrewarm_change [OF assms(3), of ?p ?w] r
  have c: "p1 = ?p\<lparr>containersCreated := containersCreated p1, prewarmed := prewarmed p1\<rparr>"
    by (simp add: prewarm_change_def)
  have "poolClosed p1" by (subst c) simp
  with r assms(1,2) \<open>e = Some err\<close> show ?thesis
    by (simp add: Shutdown_def prewarm_step_def poke_prewarm_def Let_def)
qed

definition example_manifests :: RuntimeManifests where
  "example_manifests =
     [(''go'', \<lparr>rm_Kind = ''go'', rm_Default = True, rm_Image = ''go'', rm_Stemcells = [\<lparr>rsc_Count = 1, rsc_Memory = 5\<rparr>]\<rparr>)]"

theorem Shutdown_panics_on_failed_reconcile_witness:
  "Shutdown (failing_env 10) (NewContainerPool 0 10 example_manifests) 0 = Panics ''send on closed channel''"
proof (rule Shutdown_panics_on_failed_reconcile)
  show "fst (reconcilePrewarm (failing_env 10)
      ((NewContainerPool 0 10 example_manifests)\<lparr>poolClosed := True, containersToDeleteForSpace := [], prewarmPoke := False\<rparr>)
      (drain_deletes (failing_env 10) (containersToDeleteForSpace (NewContainerPool (0::int) 10 example_manifests)) 0)) \<noteq> None"
    by code_simp
qed (simp_all add: NewContainerPool_def failing_env_def example_env_def gm_order_map_fst)

text \<open>
  C13. After a reconciliation without an error every stemcell configuration of every runtime has
  its list filled: the list has the configured number of containers, or the number it had
  before when that was larger. The order in which Go visits the maps does not matter.
\<close>

theorem reconcilePrewarm_fills:
  assumes "gm_order (pe_manifestOrder env)" and "gm_order (pe_creationOrder env)"
    and "manifests_by_kind (runtimeManifests p)"
    and "reconcilePrewarm env p w = (None, p', w')"
    and "map_of (runtimeManifests p) family = Some m" and "\<not> HasSuffix family '':default''"
    and "sc \<in> set (rm_Stemcells m)" and "distinct (map rsc_Memory (rm_Stemcells m))"
  shows "int (length (bucket (prewarmed p') \<lparr>pck_Kind = rm_Kind m, pck_Memory = rsc_Memory sc\<rparr>))
    = max (rsc_Count sc)
        (int (length (bucket (prewarmed p) \<lparr>pck_Kind = rm_Kind m, pck_Memory = rsc_Memory sc\<rparr>)))"
proof -
  let ?k = "\<lparr>pck_Kind = rm_Kind m, pck_Memory = rsc_Memory sc\<rparr>"
  let ?ord = "pe_manifestOrder env (runtimeManifests p)"
  have d: "distinct (map fst (runtimeManifests p))" using assms(3) by (simp add: manifests_by_kind_def)
  have "family \<in> set ?ord"
    using gm_order_set [OF assms(1) d] map_of_SomeD [OF assms(5)] by force
  then have "map_of (necessary_creations ?ord (runtimeManifests p) (prewarmed p) []) ?k
      = Some (rsc_Count sc - int (length (bucket (prewarmed p) ?k)))"
    by (rule necessary_creations_lookup [OF assms(3,6,5,7,8)]) (rule gm_order_distinct [OF assms(1) d])
  with reconcilePrewarm_change [OF assms(2), of p w] assms(4) show ?thesis
    by (auto simp: prewarm_change_def)
qed


theorem reconcilePrewarm_fills_witness:
  "\<exists>p' w'. reconcilePrewarm (example_env 10) (NewContainerPool 0 10 example_manifests) 0 = (None, p', w') \<and>
     length (bucket (prewarmed p') \<lparr>pck_Kind = ''go'', pck_Memory = 5\<rparr>) = 1"
proof -
  let ?r = "reconcilePrewarm (example_env 10) (NewContainerPool (0::int) 10 example_manifests) 0"
  obtain e p' w' where r: "?r = (e, p', w')" by (metis prod_cases3)
  have "fst ?r = None" by code_simp
  with r have n: "?r = (None, p', w')" by simp
  have "manifests_by_kind (runtimeManifests (NewContainerPool (0::int) 10 example_manifests))"
    by (simp add: manifests_by_kind_def NewContainerPool_def example_manifests_def)
  from reconcilePrewarm_fills [OF _ _ this n, of "''go''" _ "\<lparr>rsc_Count = 1, rsc_Memory = 5\<rparr>"] n show ?thesis
    by (simp add: example_env_def gm_order_map_fst NewContainerPool_def example_manifests_def HasSuffix_def)
qed

end
