(* ===== verification/Pool_Interleaving.thy ===== *)
theory Pool_Interleaving
  imports Pool_Properties
begin

text \<open>
  The container pool under concurrent calls (\<open>pkg/exec/pool.go\<close>). Every goroutine that runs
  \<open>Get\<close>, \<open>Put\<close> or \<open>PutToDestroy\<close> is a phase; a step moves one of them over one atomic
  action of the code: acquiring the semaphore, the atomic addition that returns the snapshot of
  the memory in flight, one critical section under \<open>idlesMux\<close>, one send on the channel of
  the deleter, one critical section under \<open>prewarmMux\<close>, the atomic subtraction, the release
  of the semaphore. The critical sections are the functions of the theory \<open>Pool\<close>.
\<close>

section \<open>Phases\<close>

text \<open>
  \<open>Acquired\<close>, \<open>Counted\<close> (with its snapshot), \<open>Sending\<close> (the evicted containers left to send)
  and \<open>Creating\<close> are inside \<open>Get\<close> for a key, \<open>Warming\<close> has taken an idle container and
  unpauses it; \<open>Holding\<close> is a caller between \<open>Get\<close> and \<open>Put\<close>; \<open>Returning\<close> is about
  to subtract from the memory in flight and \<open>Uncounted\<close> about to release the semaphore.
\<close>

datatype phase =
    Acquired WarmContainerKey
  | Counted WarmContainerKey ByteSize
  | Sending WarmContainerKey "PooledContainer list"
  | Creating WarmContainerKey
  | Warming PooledContainer
  | Holding PooledContainer
  | Returning ByteSize
  | Uncounted ByteSize

type_synonym 's istate = "'s ContainerPool \<times> phase multiset"

text \<open>
  The label of a step is what it does at the factory: the container that a call of \<open>CreateContainer\<close> has brought,
  if any, and the containers on which the goroutine calls \<open>Remove\<close>. In \<open>create_undone\<close> the firewall of a new
  container fails and \<open>CleanupContainer\<close> removes it; in \<open>warming_lost\<close> neither the container can be unpaused nor its
  state be read, and \<open>getContainer\<close> returns without removing it.
\<close>

type_synonym effect = "Container option \<times> Container list"

inductive pool_lstep ::
  "'s SemaphoreOps \<Rightarrow> (idle_map \<Rightarrow> WarmContainerKey list) \<Rightarrow> (WarmContainerKey \<Rightarrow> ByteSize) \<Rightarrow> effect \<Rightarrow> 's istate \<Rightarrow> 's istate \<Rightarrow> bool"
  for sem ord limit where
  acquire: "sem_Acquire sem (int64 (limit k)) (inFlight p) = (None, s')
    \<Longrightarrow> pool_lstep sem ord limit (None, []) (p, T) (p\<lparr>inFlight := s'\<rparr>, add_mset (Acquired k) T)"
| count: "pool_lstep sem ord limit (None, []) (p, add_mset (Acquired k) T)
    (p\<lparr>inFlightMemory := inFlightMemory p + limit k\<rparr>, add_mset (Counted k (inFlightMemory p + limit k)) T)"
| section_warm: "idles_section ord k snapshot p = Returns (Warm c, p')
    \<Longrightarrow> pool_lstep sem ord limit (None, []) (p, add_mset (Counted k snapshot) T) (p', add_mset (Warming c) T)"
| section_space: "idles_section ord k snapshot p = Returns (Space ds, p')
    \<Longrightarrow> pool_lstep sem ord limit (None, []) (p, add_mset (Counted k snapshot) T) (p', add_mset (Sending k ds) T)"
| section_fails: "idles_section ord k snapshot p = Returns (NoSpace e, p')
    \<Longrightarrow> pool_lstep sem ord limit (None, []) (p, add_mset (Counted k snapshot) T) (p', add_mset (Returning (limit k)) T)"
| send: "length (containersToDeleteForSpace p) < deleteBuffer
    \<Longrightarrow> pool_lstep sem ord limit (None, []) (p, add_mset (Sending k (d # ds)) T)
      (p\<lparr>containersToDeleteForSpace := containersToDeleteForSpace p @ [d]\<rparr>, add_mset (Sending k ds) T)"
| sent: "pool_lstep sem ord limit (None, []) (p, add_mset (Sending k []) T) (p, add_mset (Creating k) T)"
| take_prewarmed: "bucket (prewarmed p) \<lparr>pck_Kind = kind, pck_Memory = limit k\<rparr> = c # rest
    \<Longrightarrow> pool_lstep sem ord limit (None, []) (p, add_mset (Creating k) T)
      (p\<lparr>prewarmed := AList.update \<lparr>pck_Kind = kind, pck_Memory = limit k\<rparr> rest (prewarmed p), prewarmPoke := True\<rparr>,
       add_mset (Holding (c\<lparr>pc_initializedFor := k, pc_firewallCleanup := fw\<rparr>)) T)"
| take_prewarmed_fails: "bucket (prewarmed p) \<lparr>pck_Kind = kind, pck_Memory = limit k\<rparr> = c # rest
    \<Longrightarrow> pool_lstep sem ord limit (None, [pc_Container c]) (p, add_mset (Creating k) T)
      (p\<lparr>prewarmed := AList.update \<lparr>pck_Kind = kind, pck_Memory = limit k\<rparr> rest (prewarmed p), prewarmPoke := True\<rparr>,
       add_mset (Returning (limit k)) T)"
| create: "pool_lstep sem ord limit (Some ctr, []) (p, add_mset (Creating k) T)
      (p\<lparr>containersCreated := containersCreated p + 1\<rparr>, add_mset (Holding ((new_pooled ctr k (limit k))\<lparr>pc_firewallCleanup := fw\<rparr>)) T)"
| create_undone: "pool_lstep sem ord limit (Some ctr, [ctr]) (p, add_mset (Creating k) T)
      (p\<lparr>containersCreated := containersCreated p + 1\<rparr>, add_mset (Returning (limit k)) T)"
| create_fails: "pool_lstep sem ord limit (None, []) (p, add_mset (Creating k) T)
      (p\<lparr>containersCreated := containersCreated p + 1\<rparr>, add_mset (Returning (limit k)) T)"
| warmed: "pool_lstep sem ord limit (None, []) (p, add_mset (Warming c) T)
      (p, add_mset (Holding (c\<lparr>pc_firewallCleanup := fw\<rparr>)) T)"
| warming_fails: "pool_lstep sem ord limit (None, [pc_Container c]) (p, add_mset (Warming c) T)
      (p, add_mset (Returning (limit (pc_initializedFor c))) T)"
| warming_lost: "pool_lstep sem ord limit (None, []) (p, add_mset (Warming c) T)
      (p, add_mset (Returning (limit (pc_initializedFor c))) T)"
| put: "\<not> idlesLocked p
    \<Longrightarrow> pool_lstep sem ord limit (None, []) (p, add_mset (Holding c) T)
      (put_idle (c\<lparr>pc_lastUsed := now\<rparr>) p, add_mset (Returning (pc_memory c)) T)"
| destroy: "pool_lstep sem ord limit (None, [pc_Container c]) (p, add_mset (Holding c) T) (p, add_mset (Returning (pc_memory c)) T)"
| uncount: "pool_lstep sem ord limit (None, []) (p, add_mset (Returning m) T)
      (p\<lparr>inFlightMemory := inFlightMemory p + (- m)\<rparr>, add_mset (Uncounted m) T)"
| release: "pool_lstep sem ord limit (None, []) (p, add_mset (Uncounted m) T)
      (p\<lparr>inFlight := sem_Release sem (int64 m) (inFlight p)\<rparr>, T)"
| delete: "containersToDeleteForSpace p = d # ds
    \<Longrightarrow> pool_lstep sem ord limit (None, [pc_Container d]) (p, T) (p\<lparr>containersToDeleteForSpace := ds\<rparr>, T)"
| reap: "\<not> idlesLocked p \<Longrightarrow> reap_collect olderThan (ord (idles p)) p = (ds, p')
    \<Longrightarrow> pool_lstep sem ord limit (None, map pc_Container ds) (p, T) (p', T)"
| prewarm: "pool_lstep sem ord limit (Some ctr, []) (p, T)
      (p\<lparr>containersCreated := containersCreated p + 1,
         prewarmed := AList.update pk (bucket (prewarmed p) pk @ [new_pooled ctr zero_WarmContainerKey (pck_Memory pk)]) (prewarmed p)\<rparr>, T)"

text \<open>The step without its label.\<close>

definition pool_istep ::
  "'s SemaphoreOps \<Rightarrow> (idle_map \<Rightarrow> WarmContainerKey list) \<Rightarrow> (WarmContainerKey \<Rightarrow> ByteSize) \<Rightarrow> 's istate \<Rightarrow> 's istate \<Rightarrow> bool" where
  "pool_istep sem ord limit s s' = (\<exists>ev. pool_lstep sem ord limit ev s s')"

lemma pool_istepI: "pool_lstep sem ord limit ev s s' \<Longrightarrow> pool_istep sem ord limit s s'"
  unfolding pool_istep_def by (rule exI)

section \<open>Weights\<close>

text \<open>The weight a phase holds in the semaphore, its share of the memory in flight, and the memory of its container.\<close>

fun phase_weight :: "(WarmContainerKey \<Rightarrow> ByteSize) \<Rightarrow> phase \<Rightarrow> nat" where
  "phase_weight limit (Acquired k) = unat (limit k)"
| "phase_weight limit (Counted k snapshot) = unat (limit k)"
| "phase_weight limit (Sending k ds) = unat (limit k)"
| "phase_weight limit (Creating k) = unat (limit k)"
| "phase_weight limit (Warming c) = unat (pc_memory c)"
| "phase_weight limit (Holding c) = unat (pc_memory c)"
| "phase_weight limit (Returning m) = unat m"
| "phase_weight limit (Uncounted m) = unat m"

fun phase_counted :: "(WarmContainerKey \<Rightarrow> ByteSize) \<Rightarrow> phase \<Rightarrow> nat" where
  "phase_counted limit (Acquired k) = 0"
| "phase_counted limit (Uncounted m) = 0"
| "phase_counted limit ph = phase_weight limit ph"

fun phase_uses :: "(WarmContainerKey \<Rightarrow> ByteSize) \<Rightarrow> phase \<Rightarrow> nat" where
  "phase_uses limit (Sending k ds) = unat (limit k)"
| "phase_uses limit (Creating k) = unat (limit k)"
| "phase_uses limit (Warming c) = unat (pc_memory c)"
| "phase_uses limit (Holding c) = unat (pc_memory c)"
| "phase_uses limit ph = 0"

definition weigh :: "(phase \<Rightarrow> nat) \<Rightarrow> phase multiset \<Rightarrow> nat" where
  "weigh f T = sum_mset (image_mset f T)"

lemma weigh_simps [simp]: "weigh f {#} = 0" "weigh f (add_mset ph T) = f ph + weigh f T"
  by (simp_all add: weigh_def)

lemma weigh_mono: "(\<And>ph. f ph \<le> g ph) \<Longrightarrow> weigh f T \<le> weigh g T"
  by (induction T) (auto intro: add_mono)

lemma counted_le_weight: "phase_counted limit ph \<le> phase_weight limit ph"
  by (cases ph) auto

lemma uses_le_counted: "phase_uses limit ph \<le> phase_counted limit ph"
  by (cases ph) auto

lemma weighs_le:
  "weigh (phase_uses limit) T \<le> weigh (phase_counted limit) T"
  "weigh (phase_counted limit) T \<le> weigh (phase_weight limit) T"
  by (auto intro: weigh_mono counted_le_weight uses_le_counted)

section \<open>The invariant of all interleavings\<close>

fun phase_ok :: "(WarmContainerKey \<Rightarrow> ByteSize) \<Rightarrow> ByteSize \<Rightarrow> phase \<Rightarrow> bool" where
  "phase_ok limit userMemory (Counted k snapshot) = (unat (limit k) \<le> unat snapshot \<and> unat snapshot \<le> unat userMemory)"
| "phase_ok limit userMemory (Warming c) = (pc_memory c = limit (pc_initializedFor c))"
| "phase_ok limit userMemory (Holding c) = (pc_memory c = limit (pc_initializedFor c))"
| "phase_ok limit userMemory (Returning m) = (unat m < 2 ^ 63)"
| "phase_ok limit userMemory (Uncounted m) = (unat m < 2 ^ 63)"
| "phase_ok limit userMemory ph = True"

definition istate_env ::
  "'s SemaphoreOps \<Rightarrow> (idle_map \<Rightarrow> WarmContainerKey list) \<Rightarrow> (WarmContainerKey \<Rightarrow> ByteSize) \<Rightarrow> ByteSize \<Rightarrow> ('s \<Rightarrow> int) \<Rightarrow> bool" where
  "istate_env sem ord limit userMemory held =
     (semaphore_ok sem (int (unat userMemory)) held \<and> gm_order ord \<and> (\<forall>k. unat (limit k) < 2 ^ 63) \<and>
      unat userMemory < 2 ^ 62)"

definition istate_pool :: "(WarmContainerKey \<Rightarrow> ByteSize) \<Rightarrow> ByteSize \<Rightarrow> 's ContainerPool \<Rightarrow> bool" where
  "istate_pool limit userMemory p =
     (idles_wf (idles p) \<and> acct_ok p \<and> \<not> idlesLocked p \<and> prewarm_wf (prewarmed p) \<and> maxMemory p = userMemory \<and>
      (\<forall>c \<in> set (flat (idles p)). pc_memory c = limit (pc_initializedFor c)))"

definition istate_inv ::
  "'s SemaphoreOps \<Rightarrow> (idle_map \<Rightarrow> WarmContainerKey list) \<Rightarrow> (WarmContainerKey \<Rightarrow> ByteSize) \<Rightarrow> ByteSize \<Rightarrow> ('s \<Rightarrow> int) \<Rightarrow> 's istate \<Rightarrow> bool" where
  "istate_inv sem ord limit userMemory held s =
     (case s of (p, T) \<Rightarrow>
        istate_env sem ord limit userMemory held \<and> istate_pool limit userMemory p \<and>
        (\<forall>ph \<in># T. phase_ok limit userMemory ph) \<and>
        held (inFlight p) = int (weigh (phase_weight limit) T) \<and>
        weigh (phase_weight limit) T \<le> unat userMemory \<and>
        unat (inFlightMemory p) = weigh (phase_counted limit) T \<and>
        mem_sum (flat (idles p)) + weigh (phase_uses limit) T \<le> 2 * unat userMemory)"

lemma istate_envD:
  assumes "istate_env sem ord limit userMemory held"
  shows "semaphore_ok sem (int (unat userMemory)) held" and "gm_order ord"
    and "unat (limit k) < 2 ^ 63" and "unat userMemory < 2 ^ 62"
  using assms by (auto simp: istate_env_def)

text \<open>The critical section of \<open>Get\<close> with a snapshot that may be stale.\<close>

lemma section_interleaved:
  assumes inv: "istate_inv sem ord limit userMemory held (p, add_mset (Counted k snapshot) T)"
  obtains (warm) c p' where "idles_section ord k snapshot p = Returns (Warm c, p')"
      and "istate_pool limit userMemory p'" and "p' = p\<lparr>idles := idles p', idlesMemory := idlesMemory p'\<rparr>"
      and "mset (flat (idles p)) = mset (c # flat (idles p'))" and "pc_initializedFor c = k"
      and "pc_memory c = limit k"
  | (space) ds p' where "idles_section ord k snapshot p = Returns (Space ds, p')"
      and "istate_pool limit userMemory p'" and "p' = p\<lparr>idles := idles p', idlesMemory := idlesMemory p'\<rparr>"
      and "mem_sum (flat (idles p')) + unat snapshot \<le> unat userMemory"
      and "mset (flat (idles p)) = mset ds + mset (flat (idles p'))"
proof -
  from inv have P: "istate_pool limit userMemory p" and E: "istate_env sem ord limit userMemory held"
    and snap: "unat snapshot \<le> unat userMemory"
    and mem: "mem_sum (flat (idles p)) \<le> 2 * unat userMemory" by (auto simp: istate_inv_def)
  note P = P [unfolded istate_pool_def]
  note E = istate_envD [OF E]
  have "idles_wf (idles p)" and "acct_ok p" and "\<not> idlesLocked p" and "unat snapshot \<le> unat (maxMemory p)"
    and "mem_sum (flat (idles p)) + unat snapshot < 2 ^ 64" using P snap mem E(4) by simp_all
  with E(2) show ?thesis
  proof (cases rule: idles_section_cases [where data = k and inFl = snapshot])
    case w: (warm c p')
    note W = take_warm_SomeD [OF w(2)] 
    have c: "c \<in> set (flat (idles p))" and sub: "set (flat (idles p')) \<subseteq> set (flat (idles p))"
      using mset_eq_setD [OF W(4)] P by auto
    have fr: "idlesLocked p' = idlesLocked p" "prewarmed p' = prewarmed p" "maxMemory p' = maxMemory p"
      by (subst W(8), use P in simp, simp)+
    have "istate_pool limit userMemory p'" using W P sub fr by (auto simp: istate_pool_def)
    with w W P c show ?thesis by (intro warm [of c p']) auto
  next
    case roomy
    with P show ?thesis by (intro space [of "[]" p]) (auto simp: istate_pool_def)
  next
    case (evict ds p')
    note V = evict(4) [unfolded evicts_def]
    have sub: "set (flat (idles p')) \<subseteq> set (flat (idles p))"
      using V by (auto dest!: arg_cong [where f = set_mset])
    from V have p': "p' = p\<lparr>idles := idles p', idlesMemory := idlesMemory p'\<rparr>" by blast
    have fr: "idlesLocked p' = idlesLocked p" "prewarmed p' = prewarmed p" "maxMemory p' = maxMemory p"
      by (subst p', simp)+
    have "istate_pool limit userMemory p'" using V P sub fr by (auto simp: istate_pool_def)
    with evict(1) V P p' show ?thesis by (intro space [of ds p']) auto
  qed
qed

text \<open>Steps that change none of what the pool's part of the invariant reads.\<close>

lemma istate_pool_cong:
  "idles p' = idles p \<Longrightarrow> idlesMemory p' = idlesMemory p \<Longrightarrow> idlesLocked p' = idlesLocked p \<Longrightarrow>
   prewarmed p' = prewarmed p \<Longrightarrow> maxMemory p' = maxMemory p \<Longrightarrow>
   istate_pool limit userMemory p' = istate_pool limit userMemory p"
  by (simp add: istate_pool_def acct_ok_def)

lemma istate_pool_prewarmed:
  "istate_pool limit userMemory p \<Longrightarrow> prewarm_wf m \<Longrightarrow> istate_pool limit userMemory (p\<lparr>prewarmed := m\<rparr>)"
  by (simp add: istate_pool_def acct_ok_def)

lemmas istate_simps = istate_inv_def istate_pool_cong [where p = p and p' = "p\<lparr>inFlight := x\<rparr>" for p x, simplified]
  istate_pool_cong [where p = p and p' = "p\<lparr>inFlightMemory := x\<rparr>" for p x, simplified]
  istate_pool_cong [where p = p and p' = "p\<lparr>containersToDeleteForSpace := x\<rparr>" for p x, simplified]
  istate_pool_cong [where p = p and p' = "p\<lparr>containersCreated := x\<rparr>" for p x, simplified]
  istate_pool_cong [where p = p and p' = "p\<lparr>prewarmPoke := x\<rparr>" for p x, simplified]

text \<open>The semaphore and the atomic counter.\<close>

lemma acquire_inv:
  assumes inv: "istate_inv sem ord limit userMemory held (p, T)"
    and acq: "sem_Acquire sem (int64 (limit k)) (inFlight p) = (None, s')"
  shows "istate_inv sem ord limit userMemory held (p\<lparr>inFlight := s'\<rparr>, add_mset (Acquired k) T)"
proof -
  have E: "istate_env sem ord limit userMemory held" using inv by (simp add: istate_inv_def)
  have "held s' = held (inFlight p) + int (unat (limit k)) \<and> held s' \<le> int (unat userMemory)"
    using semaphore_acquire [OF istate_envD(1) [OF E]] acq int64_small [OF istate_envD(3) [OF E]] by metis
  then have h: "held s' = int (unat (limit k) + weigh (phase_weight limit) T)"
    and "int (unat (limit k) + weigh (phase_weight limit) T) \<le> int (unat userMemory)"
    using inv by (simp_all add: istate_inv_def)
  then have "unat (limit k) + weigh (phase_weight limit) T \<le> unat userMemory" by (simp only: of_nat_le_iff)
  with h inv show ?thesis by (simp add: istate_simps)
qed

lemma count_inv:
  assumes inv: "istate_inv sem ord limit userMemory held (p, add_mset (Acquired k) T)"
  shows "istate_inv sem ord limit userMemory held
    (p\<lparr>inFlightMemory := inFlightMemory p + limit k\<rparr>, add_mset (Counted k (inFlightMemory p + limit k)) T)"
proof -
  have le: "weigh (phase_counted limit) T + unat (limit k) \<le> unat userMemory"
    using inv weighs_le(2) [of limit T] by (simp add: istate_inv_def)
  have "unat (inFlightMemory p + limit k) = weigh (phase_counted limit) T + unat (limit k)"
    using inv le unat_lt_size64 [of userMemory] by (subst unat_plus_no_wrap) (auto simp: istate_inv_def)
  with inv le show ?thesis by (simp add: istate_simps)
qed

lemma uncount_inv:
  assumes inv: "istate_inv sem ord limit userMemory held (p, add_mset (Returning m) T)"
  shows "istate_inv sem ord limit userMemory held
    (p\<lparr>inFlightMemory := inFlightMemory p + (- m)\<rparr>, add_mset (Uncounted m) T)"
proof -
  have "unat (inFlightMemory p) = unat m + weigh (phase_counted limit) T"
    using inv by (simp add: istate_inv_def)
  then have "unat (inFlightMemory p - m) = weigh (phase_counted limit) T"
    by (simp add: unat_sub_le word_le_nat_alt)
  with inv show ?thesis by (simp add: istate_simps)
qed

lemma release_inv:
  assumes inv: "istate_inv sem ord limit userMemory held (p, add_mset (Uncounted m) T)"
  shows "istate_inv sem ord limit userMemory held (p\<lparr>inFlight := sem_Release sem (int64 m) (inFlight p)\<rparr>, T)"
proof -
  have E: "istate_env sem ord limit userMemory held" and small: "unat m < 2 ^ 63"
    and h: "held (inFlight p) = int (unat m + weigh (phase_weight limit) T)"
    using inv by (simp_all add: istate_inv_def)
  have "held (sem_Release sem (int64 m) (inFlight p)) = int (weigh (phase_weight limit) T)"
    using semaphore_release [OF istate_envD(1) [OF E], of "unat m" "inFlight p"] h int64_small [OF small] by simp
  with inv show ?thesis by (simp add: istate_simps)
qed

text \<open>Returning a container to the idle map.\<close>

lemma put_inv:
  assumes inv: "istate_inv sem ord limit userMemory held (p, add_mset (Holding c) T)"
  shows "istate_inv sem ord limit userMemory held (put_idle (c\<lparr>pc_lastUsed := now\<rparr>) p, add_mset (Returning (pc_memory c)) T)"
proof -
  let ?c = "c\<lparr>pc_lastUsed := now\<rparr>"
  have P: "istate_pool limit userMemory p" and E: "istate_env sem ord limit userMemory held"
    and sum: "mem_sum (flat (idles p)) + (unat (pc_memory c) + weigh (phase_uses limit) T) \<le> 2 * unat userMemory"
    and lim: "pc_memory c = limit (pc_initializedFor c)"
    using inv by (auto simp: istate_inv_def)
  have wf: "idles_wf (idles p)" "acct_ok p" "mem_sum (flat (idles p)) + unat (pc_memory ?c) < 2 ^ 64"
    using P sum istate_envD(4) [OF E] by (simp_all add: istate_pool_def)
  note Q = put_idle_props [OF wf]
  have "istate_pool limit userMemory (put_idle ?c p)"
    using P Q mset_eq_setD [OF Q(1)] lim by (simp add: istate_pool_def frame)
  moreover have "unat (pc_memory c) < 2 ^ 63" using istate_envD(3) [OF E] lim by simp
  ultimately show ?thesis
    using inv mem_sum_mset [OF Q(1)] by (auto simp: istate_inv_def frame)
qed

text \<open>The section of \<open>Get\<close> on both of its outcomes.\<close>

lemma section_warm_inv:
  assumes inv: "istate_inv sem ord limit userMemory held (p, add_mset (Counted k snapshot) T)"
    and sec: "idles_section ord k snapshot p = Returns (Warm c, p')"
  shows "istate_inv sem ord limit userMemory held (p', add_mset (Warming c) T)"
  using inv
proof (cases rule: section_interleaved)
  case (warm c' p'')
  with sec have eq: "c' = c" "p'' = p'" by simp_all
  note W = warm [unfolded eq]
  have "inFlight p' = inFlight p" "inFlightMemory p' = inFlightMemory p" by (subst W(3), simp)+
  with W(2,4-6) inv mem_sum_mset [OF W(4)] show ?thesis by (simp add: istate_inv_def)
qed (use sec in simp)

lemma section_space_inv:
  assumes inv: "istate_inv sem ord limit userMemory held (p, add_mset (Counted k snapshot) T)"
    and sec: "idles_section ord k snapshot p = Returns (Space ds, p')"
  shows "istate_inv sem ord limit userMemory held (p', add_mset (Sending k ds) T)"
  using inv
proof (cases rule: section_interleaved)
  case (space ds' p'')
  with sec have eq: "ds' = ds" "p'' = p'" by simp_all
  note S = space [unfolded eq]
  have "inFlight p' = inFlight p" "inFlightMemory p' = inFlightMemory p" by (subst S(3), simp)+
  moreover have "unat (limit k) + weigh (phase_uses limit) T \<le> unat userMemory"
    using inv weighs_le [of limit T] by (simp add: istate_inv_def)
  ultimately show ?thesis using S(2,4) inv by (simp add: istate_inv_def)
qed (use sec in simp)

lemma reap_inv:
  assumes inv: "istate_inv sem ord limit userMemory held (p, T)"
    and r: "reap_collect olderThan (ord (idles p)) p = (ds, p')"
  shows "istate_inv sem ord limit userMemory held (p', T)"
proof -
  have P: "istate_pool limit userMemory p" using inv by (simp add: istate_inv_def)
  from reap_collect_props [OF r] P
  have R: "mset (flat (idles p)) = mset ds + mset (flat (idles p'))" "idles_wf (idles p')" "acct_ok p'"
    and p': "p' = p\<lparr>idles := idles p', idlesMemory := idlesMemory p'\<rparr>" by (auto simp: istate_pool_def)
  have fr: "idlesLocked p' = idlesLocked p" "prewarmed p' = prewarmed p" "maxMemory p' = maxMemory p"
    "inFlightMemory p' = inFlightMemory p" "inFlight p' = inFlight p" by (subst p', simp)+
  have "set (flat (idles p')) \<subseteq> set (flat (idles p))"
    using arg_cong [OF R(1), of set_mset] by auto
  then have "istate_pool limit userMemory p'" using P R fr by (auto simp: istate_pool_def)
  with inv mem_sum_split [OF R(1)] fr show ?thesis by (simp add: istate_inv_def)
qed

text \<open>Taking a prewarmed container and adding one.\<close>

lemma prewarm_cut:
  assumes "istate_inv sem ord limit userMemory held (p, T)" and "bucket (prewarmed p) pk = c # rest"
  shows "pc_memory c = pck_Memory pk" and "istate_pool limit userMemory (p\<lparr>prewarmed := AList.update pk rest (prewarmed p)\<rparr>)"
proof -
  have P: "istate_pool limit userMemory p" and wf: "prewarm_wf (prewarmed p)" using assms(1) by (simp_all add: istate_inv_def istate_pool_def)
  show "pc_memory c = pck_Memory pk" using prewarm_wf_bucket [OF wf, of c pk] assms(2) by simp
  have "prewarm_wf (AList.update pk rest (prewarmed p))"
    using wf assms(2) prewarm_wf_bucket [OF wf, of _ pk] by (auto intro!: prewarm_wf_update)
  with P show "istate_pool limit userMemory (p\<lparr>prewarmed := AList.update pk rest (prewarmed p)\<rparr>)" by (rule istate_pool_prewarmed)
qed

lemma prewarm_grow:
  assumes "istate_inv sem ord limit userMemory held (p, T)"
  shows "prewarm_wf (AList.update pk (bucket (prewarmed p) pk @ [new_pooled ctr key (pck_Memory pk)]) (prewarmed p))"
proof -
  have wf: "prewarm_wf (prewarmed p)" using assms by (simp add: istate_inv_def istate_pool_def)
  then show ?thesis using prewarm_wf_bucket [OF wf, of _ pk] by (auto intro!: prewarm_wf_update simp: new_pooled_def)
qed

lemma pool_lstep_inv:
  assumes inv: "istate_inv sem ord limit userMemory held s" and step: "pool_lstep sem ord limit ev s s'"
  shows "istate_inv sem ord limit userMemory held s'"
  using step
proof cases
  case (acquire k p s1 T)
  with inv show ?thesis by (auto intro: acquire_inv)
next
  case (count p k T)
  with inv show ?thesis by (auto intro: count_inv)
next
  case (section_warm k snapshot p c p' T)
  with inv show ?thesis by (auto intro: section_warm_inv)
next
  case (section_space k snapshot p ds p' T)
  with inv show ?thesis by (auto intro: section_space_inv)
next
  case (section_fails k snapshot p e p' T)
  show ?thesis
    by (rule section_interleaved [OF inv [unfolded section_fails(2)]]) (use section_fails(4) in simp_all)
next
  case (take_prewarmed p kind k c rest T fw)
  with prewarm_cut [OF inv [unfolded take_prewarmed(2)] take_prewarmed(4)] inv show ?thesis by (auto simp: istate_simps)
next
  case (take_prewarmed_fails p kind k c rest T)
  with prewarm_cut [OF inv [unfolded take_prewarmed_fails(2)] take_prewarmed_fails(4)] inv show ?thesis
    by (auto simp: istate_simps istate_env_def)
next
  case (put p c T now)
  with inv show ?thesis by (auto intro: put_inv)
next
  case (uncount p m T)
  with inv uncount_inv show ?thesis by blast
next
  case (release p m T)
  with inv show ?thesis by (auto intro: release_inv)
next
  case (reap p olderThan ds p' T)
  with inv show ?thesis by (auto intro: reap_inv)
next
  case (prewarm p T pk ctr)
  with prewarm_grow [OF inv [unfolded prewarm(2)]] inv show ?thesis by (auto simp: istate_simps intro: istate_pool_prewarmed)
qed (use inv in \<open>auto simp: istate_simps istate_env_def new_pooled_def\<close>)

lemma pool_istep_inv:
  "istate_inv sem ord limit userMemory held s \<Longrightarrow> pool_istep sem ord limit s s' \<Longrightarrow> istate_inv sem ord limit userMemory held s'"
  unfolding pool_istep_def by (elim exE) (rule pool_lstep_inv)

section \<open>Every interleaving\<close>

definition no_failure :: "(idle_map \<Rightarrow> WarmContainerKey list) \<Rightarrow> 's istate \<Rightarrow> bool" where
  "no_failure ord s =
     (case s of (p, T) \<Rightarrow> \<forall>k snapshot. Counted k snapshot \<in># T \<longrightarrow>
        (\<exists>p'. (\<exists>c. idles_section ord k snapshot p = Returns (Warm c, p')) \<or>
              (\<exists>ds. idles_section ord k snapshot p = Returns (Space ds, p'))))"

lemma istate_inv_no_failure: "istate_inv sem ord limit userMemory held s \<Longrightarrow> no_failure ord s"
proof -
  assume inv: "istate_inv sem ord limit userMemory held s"
  obtain p T where s: "s = (p, T)" by force
  have "(\<exists>c p'. idles_section ord k snapshot p = Returns (Warm c, p')) \<or>
      (\<exists>ds p'. idles_section ord k snapshot p = Returns (Space ds, p'))" if "Counted k snapshot \<in># T" for k snapshot
    using inv multi_member_split [OF that] unfolding s by (metis section_interleaved)
  then show ?thesis unfolding no_failure_def s by fastforce
qed

interpretation interleaved: safe_system "pool_istep sem ord limit" "istate_inv sem ord limit userMemory held" "no_failure ord"
  for sem :: "'s SemaphoreOps" and ord limit userMemory held
  by unfold_locales (auto intro: pool_istep_inv istate_inv_no_failure)

lemma new_pool_istate_inv:
  assumes "istate_env sem ord limit userMemory held" and "held s0 = 0"
  shows "istate_inv sem ord limit userMemory held (NewContainerPool s0 userMemory manifests, {#})"
  using assms by (simp add: istate_inv_def istate_pool_def NewContainerPool_def acct_ok_def)

text \<open>
  C4. In every interleaving of concurrent calls the critical section of Get finds or makes the
  space it needs: the branch "unable to make enough space in container pool" (which returns
  with the mutex still locked) cannot be reached, nor a panic or a deadlock on the mutex, even
  though the memory in flight that the section compares with may be out of date.
\<close>

theorem interleaved_Get_finds_space:
  assumes "istate_env sem ord limit userMemory held" and "held s0 = 0"
    and "rtranclp (pool_istep sem ord limit) (NewContainerPool s0 userMemory manifests, {#}) (p, T)"
    and "Counted k snapshot \<in># T"
  shows "\<exists>p'. \<not> idlesLocked p' \<and>
    ((\<exists>c. idles_section ord k snapshot p = Returns (Warm c, p')) \<or>
     (\<exists>ds. idles_section ord k snapshot p = Returns (Space ds, p')))"
proof -
  note start = new_pool_istate_inv [OF assms(1,2), of manifests]
  note inv = interleaved.reachable_inv [OF start assms(3)]
  from interleaved.always_good [OF start assms(3)] assms(4)
  obtain p' where p': "(\<exists>c. idles_section ord k snapshot p = Returns (Warm c, p')) \<or>
      (\<exists>ds. idles_section ord k snapshot p = Returns (Space ds, p'))" by (fastforce simp: no_failure_def)
  obtain T0 where "T = add_mset (Counted k snapshot) T0" using multi_member_split [OF assms(4)] by blast
  with p' inv have "\<exists>T'. istate_inv sem ord limit userMemory held (p', T')"
    by (metis section_warm_inv section_space_inv)
  then have "\<not> idlesLocked p'" by (auto simp: istate_inv_def istate_pool_def)
  with p' show ?thesis by blast
qed

text \<open>
  C5. In every interleaving the counters are exact and bounded: the weight held in the semaphore
  never exceeds the configured memory, the memory in flight never exceeds that weight, the
  memory of idle containers is counted exactly, and idle containers together with those in use
  or being created never take more than twice the configured memory.
\<close>

theorem interleaved_memory_bounds:
  assumes "istate_env sem ord limit userMemory held" and "held s0 = 0"
    and "rtranclp (pool_istep sem ord limit) (NewContainerPool s0 userMemory manifests, {#}) (p, T)"
  shows "held (inFlight p) \<le> int (unat userMemory) \<and> int (unat (inFlightMemory p)) \<le> held (inFlight p) \<and>
    unat (inFlightMemory p) = weigh (phase_counted limit) T \<and>
    unat (idlesMemory p) = mem_sum (flat (idles p)) \<and>
    mem_sum (flat (idles p)) + weigh (phase_uses limit) T \<le> 2 * unat userMemory"
proof -
  from interleaved.reachable_inv [OF new_pool_istate_inv [OF assms(1,2), of manifests] assms(3)]
  have I: "held (inFlight p) = int (weigh (phase_weight limit) T)" "weigh (phase_weight limit) T \<le> unat userMemory"
    "unat (inFlightMemory p) = weigh (phase_counted limit) T" "acct_ok p"
    "mem_sum (flat (idles p)) + weigh (phase_uses limit) T \<le> 2 * unat userMemory"
    by (auto simp: istate_inv_def istate_pool_def)
  moreover have "int (unat (inFlightMemory p)) \<le> held (inFlight p)"
    unfolding I(1,3) of_nat_le_iff by (rule weighs_le)
  moreover have "held (inFlight p) \<le> int (unat userMemory)" unfolding I(1) of_nat_le_iff by (rule I(2))
  ultimately show ?thesis by (simp add: acct_ok_def)
qed

section \<open>A stale snapshot exceeds the budget\<close>

text \<open>The semaphore of the examples, and one undisturbed cold \<open>Get\<close> followed by \<open>Put\<close>.\<close>

definition example_semaphore :: "ByteSize \<Rightarrow> int SemaphoreOps" where
  "example_semaphore userMemory = pe_semaphore (example_env userMemory)"

lemma example_istate_env: "istate_env (example_semaphore 10) (map fst) (\<lambda>_. 5) 10 id"
  using example_env_ok [of "\<lambda>_. 5" 10] by (simp add: istate_env_def example_semaphore_def env_ok_def gm_order_map_fst)

definition race_pool :: "idle_map \<Rightarrow> ByteSize \<Rightarrow> u64 \<Rightarrow> int \<Rightarrow> u64 \<Rightarrow> int ContainerPool" where
  "race_pool m im created weight flying =
     (NewContainerPool weight 10 [])\<lparr>idles := m, idlesMemory := im, containersCreated := created, inFlightMemory := flying\<rparr>"

abbreviation race_step :: "int istate \<Rightarrow> int istate \<Rightarrow> bool" where
  "race_step \<equiv> pool_istep (example_semaphore 10) (map fst) (\<lambda>_. 5)"

abbreviation race_lstep :: "effect \<Rightarrow> int istate \<Rightarrow> int istate \<Rightarrow> bool" where
  "race_lstep \<equiv> pool_lstep (example_semaphore 10) (map fst) (\<lambda>_. 5)"

definition race_reaches :: "int istate \<Rightarrow> int istate \<Rightarrow> bool" where
  "race_reaches = rtranclp race_step"

lemma race_reaches_step: "race_lstep ev s t \<Longrightarrow> race_reaches s t"
  unfolding race_reaches_def by (rule r_into_rtranclp, rule pool_istepI)

lemma race_reaches_trans [trans]: "race_reaches s t \<Longrightarrow> race_reaches t u \<Longrightarrow> race_reaches s u"
  unfolding race_reaches_def by (rule rtranclp_trans)

lemma race_step_acquire:
  "weight \<le> 5 \<Longrightarrow> race_lstep (None, []) (race_pool m im cr weight fl, T) (race_pool m im cr (weight + 5) fl, add_mset (Acquired k) T)"
  using pool_lstep.acquire [where sem = "example_semaphore 10" and ord = "map fst" and limit = "\<lambda>_. 5"
      and p = "race_pool m im cr weight fl" and k = k and T = T and s' = "weight + 5"]
  by (simp add: race_pool_def NewContainerPool_def example_semaphore_def example_env_def int64_def)

lemma race_step_count:
  "race_lstep (None, []) (race_pool m im cr weight fl, add_mset (Acquired k) T)
     (race_pool m im cr weight (fl + 5), add_mset (Counted k (fl + 5)) T)"
  using pool_lstep.count [where sem = "example_semaphore 10" and ord = "map fst" and limit = "\<lambda>_. 5"
      and p = "race_pool m im cr weight fl" and k = k and T = T]
  by (simp add: race_pool_def)

lemma race_step_space:
  assumes "bucket m k = []" and "im + snapshot \<le> 10"
  shows "race_lstep (None, []) (race_pool m im cr weight fl, add_mset (Counted k snapshot) T) (race_pool m im cr weight fl, add_mset (Sending k []) T)"
  using assms(1) leD [OF assms(2)]
  by (intro pool_lstep.section_space) (simp add: idles_section_def take_warm_def race_pool_def NewContainerPool_def)

lemma race_step_create:
  "race_lstep (Some ctr, []) (race_pool m im cr weight fl, add_mset (Creating k) T)
     (race_pool m im (cr + 1) weight fl, add_mset (Holding (new_pooled ctr k 5)) T)"
  using pool_lstep.create [where sem = "example_semaphore 10" and ord = "map fst" and limit = "\<lambda>_. 5"
      and p = "race_pool m im cr weight fl" and k = k and T = T and ctr = ctr and fw = None]
  by (simp add: race_pool_def new_pooled_def NewContainerPool_def)

lemmas race_acquire = race_reaches_step [OF race_step_acquire] and race_count = race_reaches_step [OF race_step_count]

lemma race_cold:
  assumes "bucket m k = []" and "im + snapshot \<le> 10"
  shows "race_reaches (race_pool m im cr weight fl, add_mset (Counted k snapshot) T)
     (race_pool m im (cr + 1) weight fl, add_mset (Holding (new_pooled ctr k 5)) T)"
proof -
  note race_reaches_step [OF race_step_space [OF assms]]
  also have "race_reaches (race_pool m im cr weight fl, add_mset (Sending k []) T) (race_pool m im cr weight fl, add_mset (Creating k) T)"
    by (rule race_reaches_step [OF pool_lstep.sent])
  also note race_reaches_step [OF race_step_create]
  finally show ?thesis by simp
qed

lemma race_put:
  assumes "pc_memory c = 5"
  shows "race_reaches (race_pool m im cr weight fl, add_mset (Holding c) T)
     (race_pool (AList.update (pc_initializedFor c) (bucket m (pc_initializedFor c) @ [c\<lparr>pc_lastUsed := now\<rparr>]) m)
        (im + 5) cr (weight - 5) (fl - 5), T)"
proof -
  let ?p = "race_pool m im cr weight fl" and ?c = "c\<lparr>pc_lastUsed := now\<rparr>"
  let ?m = "AList.update (pc_initializedFor c) (bucket m (pc_initializedFor c) @ [?c]) m"
  have put: "put_idle ?c ?p = race_pool ?m (im + 5) cr weight fl"
    using assms by (simp add: put_idle_def race_pool_def)
  have "race_reaches (?p, add_mset (Holding c) T) (put_idle ?c ?p, add_mset (Returning 5) T)"
    using race_reaches_step [OF pool_lstep.put [of ?p "example_semaphore 10" "map fst" "\<lambda>_. 5" c T now]] assms
    by (simp add: race_pool_def NewContainerPool_def)
  also have "race_reaches (put_idle ?c ?p, add_mset (Returning 5) T)
      (race_pool ?m (im + 5) cr weight (fl - 5), add_mset (Uncounted 5) T)"
    using race_reaches_step [OF pool_lstep.uncount [of "example_semaphore 10" "map fst" "\<lambda>_. 5" "race_pool ?m (im + 5) cr weight fl" 5 T]]
    unfolding put by (simp add: race_pool_def)
  also have "race_reaches (race_pool ?m (im + 5) cr weight (fl - 5), add_mset (Uncounted 5) T)
      (race_pool ?m (im + 5) cr (weight - 5) (fl - 5), T)"
    using race_reaches_step [OF pool_lstep.release [of "example_semaphore 10" "map fst" "\<lambda>_. 5" "race_pool ?m (im + 5) cr weight (fl - 5)" 5 T]]
    by (simp add: race_pool_def NewContainerPool_def example_semaphore_def example_env_def int64_def)
  finally show ?thesis by simp
qed

definition race_container :: "string \<Rightarrow> PooledContainer" where
  "race_container name = new_pooled \<lparr>ctr_ID = name, ctr_IP = ''10.0.0.1''\<rparr> (example_key name) 5"

abbreviation race_start :: "int ContainerPool" where
  "race_start \<equiv> NewContainerPool 0 10 []"

definition race_idles :: idle_map where
  "race_idles = [(example_key ''a'', [race_container ''a'']), (example_key ''b'', [race_container ''b''])]"

text \<open>Two functions ran once, one after the other; their containers fill the pool.\<close>

lemma race_filled: "race_reaches (race_start, {#}) (race_pool race_idles 10 2 0 0, {#})"
proof -
  let ?ka = "example_key ''a''" and ?ma = "[(example_key ''a'', [race_container ''a''])]"
  let ?kb = "example_key ''b''"
  have start: "race_start = race_pool [] 0 0 0 0" by (simp add: race_pool_def NewContainerPool_def)
  have kab: "?ka \<noteq> ?kb" by (simp add: example_key_def example_fn_def)
  have c: "pc_memory (race_container x) = 5" "pc_initializedFor (race_container x) = example_key x"
    "(race_container x)\<lparr>pc_lastUsed := 0\<rparr> = race_container x" for x
    by (simp_all add: race_container_def new_pooled_def)
  have "race_reaches (race_start, {#}) (race_pool [] 0 0 5 0, {#Acquired ?ka#})"
    unfolding start using race_acquire [of 0] by simp
  also have "race_reaches (race_pool [] 0 0 5 0, {#Acquired ?ka#}) (race_pool [] 0 0 5 5, {#Counted ?ka 5#})"
    using race_count [of _ _ _ _ 0] by simp
  also have "race_reaches (race_pool [] 0 0 5 5, {#Counted ?ka 5#}) (race_pool [] 0 1 5 5, {#Holding (race_container ''a'')#})"
    unfolding race_container_def using race_cold [of "[]" ?ka 0 5 0] by simp
  also have "race_reaches (race_pool [] 0 1 5 5, {#Holding (race_container ''a'')#}) (race_pool ?ma 5 1 0 0, {#})"
    using race_put [of "race_container ''a''" "[]" 0 1 5 5 "{#}" 0] by (simp add: c)
  also have "race_reaches (race_pool ?ma 5 1 0 0, {#}) (race_pool ?ma 5 1 5 0, {#Acquired ?kb#})"
    using race_acquire [of 0] by simp
  also have "race_reaches (race_pool ?ma 5 1 5 0, {#Acquired ?kb#}) (race_pool ?ma 5 1 5 5, {#Counted ?kb 5#})"
    using race_count [of _ _ _ _ 0] by simp
  also have "race_reaches (race_pool ?ma 5 1 5 5, {#Counted ?kb 5#}) (race_pool ?ma 5 2 5 5, {#Holding (race_container ''b'')#})"
    unfolding race_container_def using race_cold [of _ ?kb 5 5 1] kab by (simp add: bucket_def)
  also have "race_reaches (race_pool ?ma 5 2 5 5, {#Holding (race_container ''b'')#}) (race_pool race_idles 10 2 0 0, {#})"
    using race_put [of "race_container ''b''" ?ma 5 2 5 5 "{#}" 0] kab by (simp add: c race_idles_def bucket_def)
  finally show ?thesis .
qed

text \<open>
  C8. The memory budget is not enforced under concurrency: an interleaving of two calls of Get
  on a pool of 10 bytes with two idle containers of 5 bytes each leaves 5 bytes idle and 10
  bytes in use. The first call took its snapshot of the memory in flight before the second one
  took a warm container, whose memory it therefore counts neither as idle nor as in flight.
  This is a defect of the code.
\<close>

theorem stale_snapshot_exceeds_budget:
  "\<exists>p T. rtranclp (pool_istep (example_semaphore 10) (map fst) (\<lambda>_. 5)) (NewContainerPool 0 10 [], {#}) (p, T) \<and>
     maxMemory p = 10 \<and> mem_sum (flat (idles p)) + weigh (phase_uses (\<lambda>_. 5)) T = 15"
proof -
  let ?ka = "example_key ''a''" and ?kc = "example_key ''c''" and ?a = "race_container ''a''"
  let ?m = "[(?ka, []), (example_key ''b'', [race_container ''b''])]"
  let ?c = "new_pooled \<lparr>ctr_ID = ''c'', ctr_IP = ''10.0.0.1''\<rparr> ?kc 5"
  have keys: "?kc \<noteq> ?ka" "?kc \<noteq> example_key ''b''" by (simp_all add: example_key_def example_fn_def)
  note race_filled
  also have "race_reaches (race_pool race_idles 10 2 0 0, {#}) (race_pool race_idles 10 2 5 0, {#Acquired ?kc#})"
    using race_acquire [of 0] by simp
  also have "race_reaches (race_pool race_idles 10 2 5 0, {#Acquired ?kc#}) (race_pool race_idles 10 2 5 5, {#Counted ?kc 5#})"
    using race_count [of _ _ _ _ 0] by simp
  also have "race_reaches (race_pool race_idles 10 2 5 5, {#Counted ?kc 5#})
      (race_pool race_idles 10 2 10 5, {#Acquired ?ka, Counted ?kc 5#})"
    using race_acquire [of 5] by simp
  also have "race_reaches (race_pool race_idles 10 2 10 5, {#Acquired ?ka, Counted ?kc 5#})
      (race_pool race_idles 10 2 10 10, {#Counted ?ka 10, Counted ?kc 5#})"
    using race_count [of _ _ _ _ 5] by simp
  also have "race_reaches (race_pool race_idles 10 2 10 10, {#Counted ?ka 10, Counted ?kc 5#})
      (race_pool ?m 5 2 10 10, {#Warming ?a, Counted ?kc 5#})"
    by (rule race_reaches_step [OF pool_lstep.section_warm])
      (simp add: idles_section_def take_warm_def race_pool_def NewContainerPool_def race_idles_def bucket_def
        race_container_def new_pooled_def)
  also have "race_reaches (race_pool ?m 5 2 10 10, {#Warming ?a, Counted ?kc 5#})
      (race_pool ?m 5 3 10 10, {#Holding ?c, Warming ?a#})"
    using race_cold [of ?m ?kc 5 5 2 10 10 "{#Warming ?a#}"] keys by (simp add: bucket_def add_mset_commute)
  finally have "race_reaches (race_start, {#}) (race_pool ?m 5 3 10 10, {#Holding ?c, Warming ?a#})" .
  then show ?thesis
    unfolding race_reaches_def
    by (intro exI conjI, assumption)
      (simp_all add: race_pool_def NewContainerPool_def flat_def race_container_def new_pooled_def)
qed

theorem interleaved_memory_bounds_witness:
  "race_reaches (race_start, {#}) (race_pool race_idles 10 2 0 0, {#}) \<and>
   mem_sum (flat (idles (race_pool race_idles 10 2 0 0))) + weigh (phase_uses (\<lambda>_. 5)) {#} \<le> 20"
  using interleaved_memory_bounds [OF example_istate_env _ race_filled [unfolded race_reaches_def]] race_filled by simp

lemma race_counted: "race_reaches (race_start, {#}) (race_pool [] 0 0 5 5, {#Counted (example_key ''a'') 5#})"
proof -
  have start: "race_start = race_pool [] 0 0 0 0" by (simp add: race_pool_def NewContainerPool_def)
  have "race_reaches (race_start, {#}) (race_pool [] 0 0 5 0, {#Acquired (example_key ''a'')#})"
    unfolding start using race_acquire [of 0] by simp
  also have "race_reaches (race_pool [] 0 0 5 0, {#Acquired (example_key ''a'')#})
      (race_pool [] 0 0 5 5, {#Counted (example_key ''a'') 5#})"
    using race_count [of _ _ _ _ 0] by simp
  finally show ?thesis by simp
qed

theorem interleaved_Get_finds_space_witness:
  "\<exists>p'. \<not> idlesLocked p' \<and>
     ((\<exists>c. idles_section (map fst) (example_key ''a'') 5 (race_pool [] 0 0 5 5) = Returns (Warm c, p')) \<or>
      (\<exists>ds. idles_section (map fst) (example_key ''a'') 5 (race_pool [] 0 0 5 5) = Returns (Space ds, p')))"
  using interleaved_Get_finds_space [OF example_istate_env _ race_counted [unfolded race_reaches_def], of "example_key ''a''" 5] by simp

end
