(* ===== verification/Docker.thy ===== *)
theory Docker
  imports Runtimes Transition
begin

text \<open>
  \<open>pkg/exec/docker/container.go\<close>: containers and the factory that creates them, on top of the
  docker client.

  The docker client, the HTTP client and the clock are the fields of \<open>DockerOps\<close>, functions on a
  daemon world \<open>'d\<close>; a context that expires shows as an error of the call. The factory's
  pool of IP addresses is part of the state that the operations pass along. Logging and
  metrics are left out.
\<close>

definition runtimeProxyPort :: string where "runtimeProxyPort = ''8080''"

definition pauseUnpauseRetries :: nat where "pauseUnpauseRetries = 10"

definition lifecycleHangTimeout :: Duration where "lifecycleHangTimeout = 10 * Minute"

definition logSentinel :: bytes where "logSentinel = ''XXX_THE_END_OF_A_WHISK_ACTIVATION_XXX''"

section \<open>Data\<close>

text \<open>The configuration handed to \<open>ContainerCreate\<close>: container, host and network configuration.\<close>

record Mount =
  mnt_Type :: string
  mnt_Source :: string
  mnt_Target :: string
  mnt_ReadOnly :: bool

record Ulimit =
  ul_Name :: string
  ul_Soft :: int
  ul_Hard :: int

record DockerConfig =
  dcfg_Image :: string
  dcfg_WorkingDir :: string
  dcfg_Env :: "string list"
  dcfg_Tmpfs :: "(string \<times> string) list"
  dcfg_CapDrop :: "string list"
  dcfg_LogConfigType :: string
  dcfg_SecurityOpt :: "string list"
  dcfg_ReadonlyRootfs :: bool
  dcfg_Runtime :: string
  dcfg_CPUShares :: int
  dcfg_Memory :: int
  dcfg_MemorySwap :: int
  dcfg_PidsLimit :: int
  dcfg_Ulimits :: "Ulimit list"
  dcfg_DNS :: "string list"
  dcfg_Mounts :: "Mount list"
  dcfg_Network :: string
  dcfg_IPv4Address :: string

text \<open>
  An HTTP response: \<open>hr_Body\<close> are the bytes that arrive, \<open>hr_BodyErr\<close> the error that ends them
  early (\<open>None\<close>: the regular end of the body).
\<close>

record HttpResponse =
  hr_ContentLength :: int
  hr_Body :: bytes
  hr_BodyErr :: "go_error option"
  hr_StatusCode :: int

record 'd DockerOps =
  dk_ContainerCreate :: "DockerConfig \<Rightarrow> string \<Rightarrow> 'd \<Rightarrow> string result \<times> 'd"
  dk_ContainerAttach :: "string \<Rightarrow> 'd \<Rightarrow> go_error option \<times> 'd"
  dk_ContainerStart :: "string \<Rightarrow> 'd \<Rightarrow> go_error option \<times> 'd"
  dk_ContainerInspect :: "string \<Rightarrow> 'd \<Rightarrow> ContainerState option result \<times> 'd"
  dk_ContainerPause :: "string \<Rightarrow> 'd \<Rightarrow> go_error option \<times> 'd"
  dk_ContainerUnpause :: "string \<Rightarrow> 'd \<Rightarrow> go_error option \<times> 'd"
  dk_ContainerRemove :: "string \<Rightarrow> 'd \<Rightarrow> go_error option \<times> 'd"
  dk_CloseLogs :: "string \<Rightarrow> 'd \<Rightarrow> go_error option \<times> 'd"
  dk_WaitLogs :: "string \<Rightarrow> 'd \<Rightarrow> go_error option \<times> 'd"
  dk_NewRequest :: "string \<Rightarrow> go_error option"
  dk_Do :: "string \<Rightarrow> bytes option \<Rightarrow> 'd \<Rightarrow> HttpResponse result \<times> 'd"
  dk_Wait :: "'d \<Rightarrow> bool \<times> 'd"
  dk_CtxErr :: "'d \<Rightarrow> go_error option"
  dk_SelectTick :: "'d \<Rightarrow> bool"
  dk_MB :: int

text \<open>\<open>dc_attached\<close>: \<open>logsResp.Conn\<close> is not nil.\<close>

record DockerContainer =
  dc_id :: string
  dc_ip :: string
  dc_attached :: bool

record ContainerFactory =
  cf_RuntimeManifests :: RuntimeManifests
  cf_APIHost :: string
  cf_DNSServers :: "string list"
  cf_Network :: string
  cf_UsableIPs :: "string list"

section \<open>The pool of IP addresses\<close>

definition acquireIP :: "ContainerFactory \<Rightarrow> string result \<times> ContainerFactory" where
  "acquireIP d =
     (case cf_UsableIPs d of
        [] \<Rightarrow> (Inl (ErrorString ''there are no IPs left to acquire''), d)
      | ip # rest \<Rightarrow> (Inr ip, d\<lparr>cf_UsableIPs := rest\<rparr>))"

definition releaseIP :: "string \<Rightarrow> ContainerFactory \<Rightarrow> ContainerFactory" where
  "releaseIP ip d = d\<lparr>cf_UsableIPs := cf_UsableIPs d @ [ip]\<rparr>"

section \<open>Requests to a container\<close>

text \<open>
  \<open>io.ReadFull\<close> into a buffer of \<open>n\<close> zero bytes: the buffer, and the error if the body is too short.
\<close>

definition ReadFull :: "HttpResponse \<Rightarrow> nat \<Rightarrow> bytes \<times> go_error option" where
  "ReadFull resp n =
     (if n \<le> length (hr_Body resp) then (take n (hr_Body resp), None)
      else (hr_Body resp @ replicate (n - length (hr_Body resp)) (CHR 0x00),
            case hr_BodyErr resp of
              Some e \<Rightarrow> Some e
            | None \<Rightarrow> Some (if hr_Body resp = [] then IOEOF else ErrorString ''unexpected EOF'')))"

definition request :: "'d DockerOps \<Rightarrow> string \<Rightarrow> bytes option \<Rightarrow> 'd \<Rightarrow> (bytes \<times> go_error option) \<times> 'd" where
  "request ops url payload w =
     (case dk_NewRequest ops url of
        Some err \<Rightarrow> (([], Some (Errorf ''failed to create request: %w'' [err])), w)
      | None \<Rightarrow>
     (let (r, w1) = dk_Do ops url payload w in
      (case r of
         Inl err \<Rightarrow> ([], Some (Errorf ''failed to execute request: %w'' [err]))
       | Inr resp \<Rightarrow>
           (let status = (\<lambda>body. if hr_StatusCode resp \<noteq> 200
                  then (body, Some (ErrorString (''unexpected HTTP response: status: '' @ fmt_i (hr_StatusCode resp))))
                  else (body, None)) in
            if hr_ContentLength resp = - 1 then
              (case hr_BodyErr resp of
                 Some err \<Rightarrow> ([], Some (Errorf ''failed to discard body of unknown content-length response: %w'' [err]))
               | None \<Rightarrow> status [])
            else
              (let bytesToRead = min (hr_ContentLength resp) (sint ResponseLimit);
                   (body, readErr) = ReadFull resp (nat bytesToRead) in
               case readErr of
                 Some err \<Rightarrow> (body, Some (Errorf ''failed to read HTTP body: %w'' [err]))
               | None \<Rightarrow>
                   (if bytesToRead < hr_ContentLength resp then
                      (case hr_BodyErr resp of
                         Some err \<Rightarrow> (body, Some (Errorf ''failed to discard body of overflow response: %w'' [err]))
                       | None \<Rightarrow> (body, Some (ResponseLimitExceededError (of_int (hr_ContentLength resp)))))
                    else status body))),
       w1)))"

text \<open>\<open>net.JoinHostPort\<close>: a host with a colon, an IPv6 address, goes into brackets.\<close>

definition JoinHostPort :: "string \<Rightarrow> string \<Rightarrow> string" where
  "JoinHostPort host port =
     (if CHR '':'' \<in> set host then ''['' @ host @ '']:'' @ port else host @ '':'' @ port)"

definition initURL :: "DockerContainer \<Rightarrow> string" where
  "initURL c = ''http://'' @ JoinHostPort (dc_ip c) runtimeProxyPort @ ''/init''"

definition runURL :: "DockerContainer \<Rightarrow> string" where
  "runURL c = ''http://'' @ JoinHostPort (dc_ip c) runtimeProxyPort @ ''/run''"

definition wrap_request :: "string \<Rightarrow> (bytes \<times> go_error option) \<times> 'd \<Rightarrow> (bytes \<times> go_error option) \<times> 'd" where
  "wrap_request msg r =
     (case r of ((resp, err), w) \<Rightarrow> ((resp, map_option (\<lambda>e. Errorf msg [e]) err), w))"

text \<open>\<open>body\<close> is the result of \<open>json.Marshal\<close> on the payload.\<close>

definition Initialize :: "'d DockerOps \<Rightarrow> DockerContainer \<Rightarrow> bytes result \<Rightarrow> 'd \<Rightarrow> (bytes \<times> go_error option) \<times> 'd" where
  "Initialize ops c body w =
     (case body of
        Inl err \<Rightarrow> (([], Some (Errorf ''failed to marshal init payload: %w'' [err])), w)
      | Inr b \<Rightarrow> wrap_request ''failed to initialize container: %w'' (request ops (initURL c) (Some b) w))"

definition Run :: "'d DockerOps \<Rightarrow> DockerContainer \<Rightarrow> bytes result \<Rightarrow> 'd \<Rightarrow> (bytes \<times> go_error option) \<times> 'd" where
  "Run ops c body w =
     (case body of
        Inl err \<Rightarrow> (([], Some (Errorf ''failed to marshal run payload: %w'' [err])), w)
      | Inr b \<Rightarrow> wrap_request ''failed to run on container: %w'' (request ops (runURL c) (Some b) w))"

text \<open>
  The \<open>select\<close> of \<open>pollUntilResponding\<close> over the ticker and the context. \<open>dk_Wait\<close> blocks until the ticker has a
  tick or the context is done, and tells whether there is a tick; \<open>dk_CtxErr\<close> is \<open>ctx.Err()\<close>, an error as soon
  as the context is done. When both are ready Go chooses one of them at random, \<open>dk_SelectTick\<close>. The result is the error
  of the context when its case is taken, and \<open>None\<close> for the case of the ticker.
\<close>

definition poll_select :: "'d DockerOps \<Rightarrow> 'd \<Rightarrow> go_error option \<times> 'd" where
  "poll_select ops w =
     (let (ticked, w1) = dk_Wait ops w in
      case dk_CtxErr ops w1 of
        None \<Rightarrow> (None, w1)
      | Some ctxErr \<Rightarrow> (if ticked \<and> dk_SelectTick ops w1 then None else Some ctxErr, w1))"

text \<open>The loop of \<open>pollUntilResponding\<close> has no bound of its own; with the fuel used up the result is \<open>None\<close>.\<close>

definition context_error :: "go_error \<Rightarrow> bool" where
  "context_error err = (errors_Is err DeadlineExceeded \<or> errors_Is err Canceled)"

fun pollUntilResponding ::
  "nat \<Rightarrow> 'd DockerOps \<Rightarrow> string \<Rightarrow> go_error option \<Rightarrow> 'd \<Rightarrow> (go_error option \<times> 'd) option" where
  "pollUntilResponding 0 ops url lastErr w = None"
| "pollUntilResponding (Suc fuel) ops url lastErr w =
     (let ((_, err), w1) = request ops url None w in
      case err of
        None \<Rightarrow> Some (None, w1)
      | Some e \<Rightarrow>
          (if context_error e then
             Some (Some (case lastErr of
                None \<Rightarrow> Errorf ''failed to wait for container to respond on first try: %w'' [e]
              | Some l \<Rightarrow> Errorf ''failed to wait for container to respond in %d tries: last error: %w, abort error: %w'' [l, e]), w1)
           else
             (let l = Errorf ''failed to poll at %s: %w'' [e];
                  (done, w2) = poll_select ops w1 in
              case done of
                None \<Rightarrow> pollUntilResponding fuel ops url (Some l) w2
              | Some ctxErr \<Rightarrow>
                  Some (Some (Errorf ''failed to wait for container to respond in %d tries: last error: %w, abort error: %w'' [l, ctxErr]), w2))))"

section \<open>State, pause, unpause, remove\<close>

definition State :: "'d DockerOps \<Rightarrow> DockerContainer \<Rightarrow> 'd \<Rightarrow> ContainerState result \<times> 'd" where
  "State ops c w =
     (let (r, w1) = dk_ContainerInspect ops (dc_id c) w in
      (case r of
         Inl err \<Rightarrow> Inl (Errorf ''failed to inspect container to detect OOM: %w'' [err])
       | Inr None \<Rightarrow> Inr zero_ContainerState
       | Inr (Some st) \<Rightarrow> Inr st, w1))"

fun Contains :: "string \<Rightarrow> string \<Rightarrow> bool" where
  "Contains [] sub = (sub = [])"
| "Contains (c # cs) sub = (HasPrefix (c # cs) sub \<or> Contains cs sub)"

text \<open>
  The retry loop that \<open>Pause\<close> and \<open>Unpause\<close> share; \<open>retries\<close> counts from 0 up to the bound, so the
  code's test for equality with the bound is a test for having reached it.
\<close>

function retry_command ::
  "(string \<Rightarrow> 'd \<Rightarrow> go_error option \<times> 'd) \<Rightarrow> string \<Rightarrow> string \<Rightarrow> string \<Rightarrow> string \<Rightarrow> nat \<Rightarrow> 'd \<Rightarrow> go_error option \<times> 'd" where
  "retry_command command marker retriesMsg failMsg cid retries w =
     (let (err, w1) = command cid w in
      case err of
        None \<Rightarrow> (None, w1)
      | Some e \<Rightarrow>
          (if Contains (err_text e) marker then
             (if retries \<ge> pauseUnpauseRetries then (Some (Errorf retriesMsg [e]), w1)
              else retry_command command marker retriesMsg failMsg cid (retries + 1) w1)
           else (Some (Errorf failMsg [e]), w1)))"
  by pat_completeness auto
termination
  by (relation "measure (\<lambda>(command, marker, retriesMsg, failMsg, cid, retries, w). pauseUnpauseRetries - retries)") auto

declare retry_command.simps [simp del]

definition Pause :: "'d DockerOps \<Rightarrow> DockerContainer \<Rightarrow> 'd \<Rightarrow> go_error option \<times> 'd" where
  "Pause ops c w =
     retry_command (dk_ContainerPause ops) ''is already paused''
       ''failed to pause container after retrying %d times: %w'' ''failed to pause container: %w'' (dc_id c) 0 w"

definition Unpause :: "'d DockerOps \<Rightarrow> DockerContainer \<Rightarrow> 'd \<Rightarrow> go_error option \<times> 'd" where
  "Unpause ops c w =
     retry_command (dk_ContainerUnpause ops) ''not paused''
       ''failed to unpause container after retrying %d times: %w'' ''failed to unpause container: %w'' (dc_id c) 0 w"

record pauseResponse =
  pr_isPaused :: bool
  pr_err :: "go_error option"

text \<open>\<open>UnpauseIfNeeded\<close> from the moment the response of the pausing goroutine is there.\<close>

definition unpause_after :: "'d DockerOps \<Rightarrow> DockerContainer \<Rightarrow> pauseResponse \<Rightarrow> 'd \<Rightarrow> go_error option \<times> 'd" where
  "unpause_after ops c resp w =
     (case pr_err resp of
        Some err \<Rightarrow> (Some (Errorf ''failed to pause container asynchronously: %w'' [err]), w)
      | None \<Rightarrow>
          (if \<not> pr_isPaused resp then (None, w)
           else let (err, w1) = Unpause ops c w
                in (map_option (\<lambda>e. Errorf ''failed to unpause container: %w'' [e]) err, w1)))"

text \<open>
  \<open>Remove\<close> releases the IP as soon as docker has deleted the container, then shuts the
  log consumption down. A closed connection is what the goroutines are expected to report.
\<close>

definition Remove :: "'d DockerOps \<Rightarrow> DockerContainer \<Rightarrow> ContainerFactory \<times> 'd \<Rightarrow> go_error option \<times> ContainerFactory \<times> 'd" where
  "Remove ops c s =
     (case s of (f, w) \<Rightarrow>
       let (err, w1) = dk_ContainerRemove ops (dc_id c) w in
       case err of
         Some e \<Rightarrow> (Some (Errorf ''failed to remove container: %w'' [e]), f, w1)
       | None \<Rightarrow>
           (let f1 = releaseIP (dc_ip c) f in
            if \<not> dc_attached c then (None, f1, w1)
            else
              (let (closeErr, w2) = dk_CloseLogs ops (dc_id c) w1 in
               case closeErr of
                 Some e \<Rightarrow> (Some (Errorf ''failed to close attach connection: %w'' [e]), f1, w2)
               | None \<Rightarrow>
                   (let (waitErr, w3) = dk_WaitLogs ops (dc_id c) w2 in
                    case waitErr of
                      None \<Rightarrow> (None, f1, w3)
                    | Some e \<Rightarrow>
                        ((if \<not> errors_Is e NetErrClosed
                          then Some (Errorf ''failed to wait for log consumption to finish: %w'' [e]) else None), f1, w3)))))"

section \<open>Creating a container\<close>

definition docker_config :: "'d DockerOps \<Rightarrow> ContainerFactory \<Rightarrow> RuntimeManifest \<Rightarrow> ByteSize \<Rightarrow> string \<Rightarrow> DockerConfig" where
  "docker_config ops d m memory ip =
     (let megabytes = sint (memory div Megabyte);
          bytes = sint (of_int (megabytes * dk_MB ops) :: u64) in
      \<lparr>dcfg_Image = rm_Image m, dcfg_WorkingDir = ''/tmp'',
       dcfg_Env = [''HOME=/tmp'', ''__OW_API_HOST='' @ cf_APIHost d],
       dcfg_Tmpfs = [(''/tmp'', ''rw,exec,nosuid,nodev,size='' @ fmt_d (unat (memory div Megabyte)) @ ''m'')],
       dcfg_CapDrop = [''ALL''], dcfg_LogConfigType = ''none'', dcfg_SecurityOpt = [''no-new-privileges''],
       dcfg_ReadonlyRootfs = True, dcfg_Runtime = ''runsc'',
       dcfg_CPUShares = megabytes, dcfg_Memory = bytes, dcfg_MemorySwap = bytes,
       dcfg_PidsLimit = 1024, dcfg_Ulimits = [\<lparr>ul_Name = ''nofile'', ul_Soft = 1024, ul_Hard = 1024\<rparr>],
       dcfg_DNS = cf_DNSServers d,
       dcfg_Mounts = [\<lparr>mnt_Type = ''bind'', mnt_Source = ''/etc/docker/functions.resolv.conf'',
                       mnt_Target = ''/etc/resolv.conf'', mnt_ReadOnly = True\<rparr>],
       dcfg_Network = cf_Network d, dcfg_IPv4Address = ip\<rparr>)"

text \<open>\<open>exec.CleanupContainer\<close> on a docker container.\<close>

definition cleanup :: "'d DockerOps \<Rightarrow> DockerContainer \<Rightarrow> go_error \<Rightarrow> ContainerFactory \<times> 'd \<Rightarrow> go_error \<times> ContainerFactory \<times> 'd" where
  "cleanup ops c err s =
     CleanupContainer (\<lambda>(f, w). let (st, w1) = State ops c w in (st, f, w1)) (Remove ops c) err s"

definition fail_with ::
  "'d DockerOps \<Rightarrow> DockerContainer \<Rightarrow> string \<Rightarrow> go_error \<Rightarrow> ContainerFactory \<times> 'd \<Rightarrow> DockerContainer result \<times> ContainerFactory \<times> 'd" where
  "fail_with ops c msg err s = (let (e, s') = cleanup ops c (Errorf msg [err]) s in (Inl e, s'))"

text \<open>The part after the docker container exists.\<close>

definition start_container ::
  "nat \<Rightarrow> 'd DockerOps \<Rightarrow> DockerContainer \<Rightarrow> ContainerFactory \<times> 'd \<Rightarrow> (DockerContainer result \<times> ContainerFactory \<times> 'd) option" where
  "start_container fuel ops c s =
     (case s of (f, w) \<Rightarrow>
       let (attachErr, w1) = dk_ContainerAttach ops (dc_id c) w in
       case attachErr of
         Some e \<Rightarrow> Some (fail_with ops c ''failed to attach to containers streams: %w'' e (f, w1))
       | None \<Rightarrow>
           (let c1 = c\<lparr>dc_attached := True\<rparr>;
                (startErr, w2) = dk_ContainerStart ops (dc_id c1) w1 in
            case startErr of
              Some e \<Rightarrow> Some (fail_with ops c1 ''failed to start container: %w'' e (f, w2))
            | None \<Rightarrow>
                (case pollUntilResponding fuel ops (''http://'' @ JoinHostPort (dc_ip c1) runtimeProxyPort) None w2 of
                   None \<Rightarrow> None
                 | Some (Some e, w3) \<Rightarrow> Some (fail_with ops c1 ''failed poll for a valid container response: %w'' e (f, w3))
                 | Some (None, w3) \<Rightarrow> Some (Inr c1, f, w3))))"

definition CreateContainer ::
  "nat \<Rightarrow> 'd DockerOps \<Rightarrow> string \<Rightarrow> ByteSize \<Rightarrow> string \<Rightarrow> ContainerFactory \<times> 'd
   \<Rightarrow> (DockerContainer result \<times> ContainerFactory \<times> 'd) option" where
  "CreateContainer fuel ops kind memory name s =
     (case s of (f, w) \<Rightarrow>
       case map_of (cf_RuntimeManifests f) kind of
         None \<Rightarrow> Some (Inl (ErrorString (''failed to get runtime manifest for kind '' @ go_quote kind @ '' to create container'')), f, w)
       | Some manifest \<Rightarrow>
           (let (acquired, f1) = acquireIP f in
            case acquired of
              Inl err \<Rightarrow> Some (Inl (Errorf ''failed to acquire IP address: %w'' [err]), f1, w)
            | Inr ip \<Rightarrow>
                (let (created, w1) = dk_ContainerCreate ops (docker_config ops f1 manifest memory ip) name w in
                 case created of
                   Inl err \<Rightarrow> Some (Inl (Errorf ''failed to create container: %w'' [err]), releaseIP ip f1, w1)
                 | Inr cid \<Rightarrow> start_container fuel ops \<lparr>dc_id = cid, dc_ip = ip, dc_attached = False\<rparr> (f1, w1))))"

section \<open>Log streams\<close>

text \<open>
  \<open>bufio.Reader.ReadLine\<close> with a buffer of \<open>bufsize\<close> bytes: a line without its end (\<open>\n\<close> or
  \<open>\r\n\<close>), or the full buffer if the line is longer. \<open>None\<close> at the end of the input.
\<close>

definition LF :: char where "LF = CHR 0x0A"
definition CR :: char where "CR = CHR 0x0D"

definition ReadLine :: "nat \<Rightarrow> bytes \<Rightarrow> (bytes \<times> bytes) option" where
  "ReadLine bufsize input =
     (if input = [] then None
      else let line = takeWhile (\<lambda>c. c \<noteq> LF) input;
               rest = drop (Suc (length line)) input in
        if length line < bufsize then
          (if length line = length input then Some (line, [])
           else Some (TrimSuffix line [CR], rest))
        else let chunk = take bufsize input in
          (if last chunk = CR then Some (butlast chunk, drop (bufsize - 1) input)
           else Some (chunk, drop bufsize input)))"

text \<open>The lines sent for one line that was read.\<close>

definition log_lines :: "string \<Rightarrow> Time \<Rightarrow> bytes \<Rightarrow> LogLine list" where
  "log_lines stream now log =
     (let trimmed = TrimSuffix log logSentinel in
      if length trimmed < length log then
        (if length trimmed > 0 then [\<lparr>ll_Message = trimmed, ll_Stream = stream, ll_Time = now, ll_IsSentinel = False\<rparr>] else [])
        @ [\<lparr>ll_Message = '''', ll_Stream = stream, ll_Time = 0, ll_IsSentinel = True\<rparr>]
      else [\<lparr>ll_Message = log, ll_Stream = stream, ll_Time = now, ll_IsSentinel = False\<rparr>])"

text \<open>
  \<open>consumeStream\<close> on the bytes of a stream that ends with \<open>endErr\<close>; \<open>clock\<close> are the readings
  of \<open>time.Now\<close>, one per line. \<open>bufio.NewReaderSize\<close> makes the buffer at least 16 bytes.
\<close>

lemma ReadLine_shorter:
  assumes "ReadLine bufsize input = Some (line, rest)" and "1 < bufsize"
  shows "length rest < length input"
  using assms
  by (cases input) (auto simp: ReadLine_def Let_def split: if_splits)

function consumeStream ::
  "nat \<Rightarrow> string \<Rightarrow> (nat \<Rightarrow> Time) \<Rightarrow> nat \<Rightarrow> bytes \<Rightarrow> go_error \<Rightarrow> LogLine list \<times> go_error option" where
  "consumeStream bufsize stream clock i input endErr =
     (case ReadLine (max 16 bufsize) input of
        None \<Rightarrow>
          ([], if errors_Is endErr IOEOF \<or> errors_Is endErr ErrClosedPipe then None
               else Some (Errorf ''failed to read logs: %w'' [endErr]))
      | Some (log, rest) \<Rightarrow>
          (let (lines, err) = consumeStream bufsize stream clock (Suc i) rest endErr
           in (log_lines stream (clock i) log @ lines, err)))"
  by pat_completeness auto
termination
  by (relation "measure (\<lambda>(bufsize, stream, clock, i, input, endErr). length input)")
    (auto dest: ReadLine_shorter)

declare consumeStream.simps [simp del]

end
