(* ===== verification/Docker_Properties.thy ===== *)
theory Docker_Properties
  imports Docker
begin

text \<open>
  Properties of the docker containers (\<open>pkg/exec/docker/container.go\<close>): bounded responses,
  bounded retries, IP addresses that are neither lost nor handed out twice, termination of the
  poll loop, the protocol between the pausing goroutine and \<open>UnpauseIfNeeded\<close>, log streams.
\<close>

section \<open>Responses\<close>

lemma sint_ResponseLimit: "sint ResponseLimit = 1048576"
  by (simp add: ResponseLimit_def Megabyte_def Kilobyte_def Byte_def)

lemma ReadFull_length: "length (fst (ReadFull resp n)) = n"
  by (simp add: ReadFull_def)

lemma ReadFull_ok: "ReadFull resp n = (body, None) \<Longrightarrow> body = take n (hr_Body resp) \<and> n \<le> length (hr_Body resp)"
  by (auto simp: ReadFull_def split: if_splits option.splits)

text \<open>
  C21. The body that a request returns never exceeds the response limit of one megabyte, whatever
  the container sends and whether or not there is an error. A request without an error means
  that the container answered with status 200 and that the body is complete (or its length was
  not announced, in which case it is dropped). The error for an exceeded limit is returned
  exactly with the first megabyte of a longer response and the length that was announced.
\<close>

theorem request_respects_limit:
  assumes "dk_NewRequest ops url = None" and "dk_Do ops url payload w = (Inr resp, w1)"
    and "request ops url payload w = ((body, err), w')"
    and "- 1 \<le> hr_ContentLength resp" and "hr_ContentLength resp < 2 ^ 64"
  shows "length body \<le> 1048576 \<and>
    (err = None \<longrightarrow> hr_StatusCode resp = 200 \<and>
       body = (if hr_ContentLength resp = - 1 then [] else take (nat (hr_ContentLength resp)) (hr_Body resp)) \<and>
       (hr_ContentLength resp \<noteq> - 1 \<longrightarrow> int (length body) = hr_ContentLength resp)) \<and>
    (\<forall>n. err = Some (ResponseLimitExceededError n) \<longrightarrow>
       body = take 1048576 (hr_Body resp) \<and> length body = 1048576 \<and>
       int (unat n) = hr_ContentLength resp \<and> hr_ContentLength resp > 1048576)"
proof (cases "hr_ContentLength resp = - 1")
  case True
  with assms show ?thesis by (auto simp: request_def split: option.splits if_splits)
next
  case False
  let ?n = "min (hr_ContentLength resp) 1048576"
  obtain b e where rf: "ReadFull resp (nat ?n) = (b, e)" by force
  have len: "length b = nat ?n" using ReadFull_length [of resp "nat ?n"] rf by simp
  have body: "body = b"
    using assms(1,2,3) False rf by (auto simp: request_def sint_ResponseLimit Let_def split: option.splits if_splits)
  have big: "int (unat (of_int (hr_ContentLength resp) :: ByteSize)) = hr_ContentLength resp"
    using assms(4,5) False by (simp add: uint_word_of_int)
  show ?thesis
  proof (cases e)
    case (Some x)
    with assms False rf len body show ?thesis by (auto simp: request_def sint_ResponseLimit Let_def)
  next
    case None
    note ok = ReadFull_ok [OF rf [unfolded None]]
    have "0 \<le> hr_ContentLength resp" using assms(4) False by simp
    with assms(1,2,3) False rf len body None ok big show ?thesis
      by (auto simp: request_def sint_ResponseLimit Let_def min_def split: option.splits if_splits)
  qed
qed

section \<open>Retries\<close>

text \<open>A daemon that answers a command from a script; an exhausted script means success.\<close>

definition scripted :: "string \<Rightarrow> go_error option list \<Rightarrow> go_error option \<times> go_error option list" where
  "scripted cid script = (case script of [] \<Rightarrow> (None, []) | r # rs \<Rightarrow> (r, rs))"

definition inconsistent :: "string \<Rightarrow> go_error option \<Rightarrow> bool" where
  "inconsistent marker r = (case r of None \<Rightarrow> False | Some e \<Rightarrow> Contains (err_text e) marker)"

lemma scripted_simps [simp]: "scripted cid [] = (None, [])" "scripted cid (r # rs) = (r, rs)"
  by (simp_all add: scripted_def)

lemma inconsistent_simps [simp]:
  "\<not> inconsistent marker None" "inconsistent marker (Some e) = Contains (err_text e) marker"
  by (simp_all add: inconsistent_def)

lemma retry_command_scripted:
  "retries \<le> pauseUnpauseRetries \<Longrightarrow>
   retry_command scripted marker m1 m2 cid retries script =
     (let n = length (takeWhile (inconsistent marker) script);
          left = pauseUnpauseRetries - retries in
      if left < n then (Some (Errorf m1 [the (script ! left)]), drop (Suc left) script)
      else case scripted cid (drop n script) of
             (None, rest) \<Rightarrow> (None, rest)
           | (Some e, rest) \<Rightarrow> (Some (Errorf m2 [e]), rest))"
proof (induction script arbitrary: retries)
  case Nil
  then show ?case by (subst retry_command.simps) (simp add: Let_def)
next
  case (Cons r rs)
  show ?case
  proof (cases "inconsistent marker r")
    case False
    then show ?thesis
      by (subst retry_command.simps) (auto simp: Let_def split: option.splits)
  next
    case True
    then obtain e where r: "r = Some e" "Contains (err_text e) marker"
      by (auto simp: inconsistent_def split: option.splits)
    show ?thesis
    proof (cases "retries = pauseUnpauseRetries")
      case True
      with r show ?thesis
        by (subst retry_command.simps) (simp add: Let_def)
    next
      case False
      with Cons.prems have "pauseUnpauseRetries - retries = Suc (pauseUnpauseRetries - Suc retries)" by simp
      with r False Cons.prems Cons.IH [of "Suc retries"] show ?thesis
        by (subst retry_command.simps) (simp add: Let_def)
    qed
  qed
qed

text \<open>
  Pausing asks the daemon at most eleven times. It succeeds exactly when one of these calls
  succeeds after nothing but claims that the container is already paused, and otherwise it
  returns the first other error, or the eleventh claim. (Unpausing is the same loop with another
  claim.)
\<close>

theorem Pause_retries:
  "Pause (ops\<lparr>dk_ContainerPause := scripted\<rparr>) c script =
     (let n = length (takeWhile (inconsistent ''is already paused'') script) in
      if 10 < n then
        (Some (Errorf ''failed to pause container after retrying %d times: %w'' [the (script ! 10)]), drop 11 script)
      else case drop n script of
             [] \<Rightarrow> (None, [])
           | None # rest \<Rightarrow> (None, rest)
           | Some e # rest \<Rightarrow> (Some (Errorf ''failed to pause container: %w'' [e]), rest))"
  using retry_command_scripted [of 0 "''is already paused''"]
  by (simp add: Pause_def pauseUnpauseRetries_def Let_def scripted_def split: list.splits option.splits)

section \<open>IP addresses\<close>

text \<open>
  The contract of a pool of addresses: what is acquired leaves the pool, what is released comes
  back, nothing else changes, and acquiring fails only when the pool is empty.
\<close>

locale address_pool =
  fixes acquire :: "'s \<Rightarrow> 'a result \<times> 's" and release :: "'a \<Rightarrow> 's \<Rightarrow> 's" and free :: "'s \<Rightarrow> 'a list"
  assumes acquire_ok: "acquire s = (Inr x, s') \<Longrightarrow> mset (free s) = add_mset x (mset (free s'))"
    and acquire_fails: "acquire s = (Inl e, s') \<Longrightarrow> s' = s \<and> free s = []"
    and release_ok: "mset (free (release x s)) = add_mset x (mset (free s))"
begin

lemma conserved: "acquire s = (Inr x, s') \<Longrightarrow> mset (free (release x s')) = mset (free s)"
  by (simp add: acquire_ok release_ok)

lemma exclusive:
  "distinct (free s @ used) \<Longrightarrow> acquire s = (Inr x, s') \<Longrightarrow> distinct (free s' @ x # used)"
  using mset_eq_imp_distinct_iff [of "free s @ used" "free s' @ x # used"] acquire_ok [of s x s'] by simp

lemma available: "free s \<noteq> [] \<Longrightarrow> \<exists>x s'. acquire s = (Inr x, s')"
  using acquire_fails by (metis obj_sumE prod.exhaust)

end

interpretation ips: address_pool acquireIP releaseIP cf_UsableIPs
  by unfold_locales (auto simp: acquireIP_def releaseIP_def split: list.splits)

text \<open>Whether \<open>Remove\<close> gave the address back: exactly when docker removed the container.\<close>

lemma Remove_ips:
  assumes "Remove ops c (f, w) = (err, f', w')"
  shows "f' = (if fst (dk_ContainerRemove ops (dc_id c) w) = None then releaseIP (dc_ip c) f else f)"
  using assms by (auto simp: Remove_def Let_def split: prod.splits option.splits if_splits)

text \<open>The world in which the clean-up asks docker to remove the container.\<close>

definition removed_by_cleanup :: "'d DockerOps \<Rightarrow> DockerContainer \<Rightarrow> 'd \<Rightarrow> bool" where
  "removed_by_cleanup ops c w = (fst (dk_ContainerRemove ops (dc_id c) (snd (State ops c w))) = None)"

lemma fail_with_ips:
  assumes "fail_with ops c msg err (f, w) = (r, f', w')"
  shows "f' = (if removed_by_cleanup ops c w then releaseIP (dc_ip c) f else f) \<and> (\<exists>e. r = Inl e)"
proof -
  obtain st w1 where st: "State ops c w = (st, w1)" by force
  obtain e f2 w2 where rm: "Remove ops c (f, w1) = (e, f2, w2)" by (metis prod_cases3)
  from assms st rm have "f' = f2" "\<exists>e. r = Inl e"
    by (auto simp: fail_with_def cleanup_def CleanupContainer_def Let_def split: sum.splits option.splits prod.splits)
  with Remove_ips [OF rm] st show ?thesis by (simp add: removed_by_cleanup_def)
qed

lemma start_container_ips:
  assumes "start_container fuel ops c (f, w) = Some (r, f', w')"
  shows "(\<exists>c1. r = Inr c1 \<and> dc_attached c1 \<and> dc_ip c1 = dc_ip c \<and> dc_id c1 = dc_id c \<and> f' = f) \<or>
    (\<exists>e. r = Inl e) \<and> (f' = releaseIP (dc_ip c) f \<or> f' = f \<and> (\<exists>c1 w1. dc_id c1 = dc_id c \<and> \<not> removed_by_cleanup ops c1 w1))"
proof -
  have fail: "(\<exists>e. r = Inl e) \<and> (f' = releaseIP (dc_ip c) f \<or> f' = f \<and> (\<exists>c1 w1. dc_id c1 = dc_id c \<and> \<not> removed_by_cleanup ops c1 w1))"
    if "fail_with ops c1 msg err (f, w1) = (r, f', w')" "dc_ip c1 = dc_ip c" "dc_id c1 = dc_id c" for c1 msg err w1
    using fail_with_ips [OF that(1)] that(2,3) by (auto split: if_splits)
  from assms show ?thesis
    by (auto simp: start_container_def Let_def split: prod.splits option.splits dest!: fail [rotated 0])
qed

lemma removed_by_cleanup_failed: "\<not> removed_by_cleanup ops c w \<Longrightarrow> \<exists>w. fst (dk_ContainerRemove ops (dc_id c) w) \<noteq> None"
  unfolding removed_by_cleanup_def by blast

text \<open>What creating a container does to the pool of addresses.\<close>

lemma CreateContainer_ips:
  assumes "CreateContainer fuel ops kind memory name (f, w) = Some (r, f', w')"
  shows "case r of
      Inr c \<Rightarrow> dc_attached c \<and> acquireIP f = (Inr (dc_ip c), f')
    | Inl e \<Rightarrow> mset (cf_UsableIPs f') = mset (cf_UsableIPs f) \<or>
        (\<exists>ip cid w. mset (cf_UsableIPs f) = add_mset ip (mset (cf_UsableIPs f')) \<and>
           fst (dk_ContainerRemove ops cid w) \<noteq> None)"
proof (cases "map_of (cf_RuntimeManifests f) kind")
  case None
  with assms show ?thesis by (auto simp: CreateContainer_def)
next
  case (Some m)
  obtain acq f1 where acq: "acquireIP f = (acq, f1)" by force
  show ?thesis
  proof (cases acq)
    case (Inl e)
    with assms Some acq ips.acquire_fails [of f e f1] show ?thesis by (auto simp: CreateContainer_def)
  next
    case (Inr ip)
    note acq = acq [unfolded Inr]
    obtain cr w1 where cr: "dk_ContainerCreate ops (docker_config ops f1 m memory ip) name w = (cr, w1)" by force
    show ?thesis
    proof (cases cr)
      case (Inl e)
      with assms Some acq cr have "r = Inl (Errorf ''failed to create container: %w'' [e])" "f' = releaseIP ip f1"
        by (auto simp: CreateContainer_def)
      with ips.conserved [OF acq] show ?thesis by simp
    next
      case (Inr cid)
      let ?c = "\<lparr>dc_id = cid, dc_ip = ip, dc_attached = False\<rparr>"
      from assms Some acq cr Inr have "start_container fuel ops ?c (f1, w1) = Some (r, f', w')"
        by (simp add: CreateContainer_def)
      from start_container_ips [OF this] consider
          (ok) c1 where "r = Inr c1" "dc_attached c1" "dc_ip c1 = ip" "f' = f1"
        | (freed) e where "r = Inl e" "f' = releaseIP ip f1"
        | (lost) e c1 w1 where "r = Inl e" "f' = f1" "dc_id c1 = cid" "\<not> removed_by_cleanup ops c1 w1" by auto
      then show ?thesis
      proof cases
        case ok
        with acq show ?thesis by simp
      next
        case freed
        with ips.conserved [OF acq] show ?thesis by simp
      next
        case lost
        with ips.acquire_ok [OF acq] removed_by_cleanup_failed [OF lost(4)] show ?thesis by auto
      qed
    qed
  qed
qed

text \<open>
  Addresses are neither handed out twice nor lost. A container that was created has an
  address that was free before and is not free any more, so that it differs from every address
  in use. If creating a container fails, at whatever step, the pool of addresses is what it was
  before, except when docker itself failed to remove the half-created container, whose address
  then stays reserved.
\<close>

theorem CreateContainer_addresses:
  assumes "CreateContainer fuel ops kind memory name (f, w) = Some (r, f', w')"
  shows "case r of
      Inr c \<Rightarrow> mset (cf_UsableIPs f) = add_mset (dc_ip c) (mset (cf_UsableIPs f')) \<and>
        (\<forall>used. distinct (cf_UsableIPs f @ used) \<longrightarrow> distinct (cf_UsableIPs f' @ dc_ip c # used))
    | Inl e \<Rightarrow> mset (cf_UsableIPs f') = mset (cf_UsableIPs f) \<or>
        (\<exists>ip cid w. mset (cf_UsableIPs f) = add_mset ip (mset (cf_UsableIPs f')) \<and>
           fst (dk_ContainerRemove ops cid w) \<noteq> None)"
proof (cases r)
  case (Inl e)
  with CreateContainer_ips [OF assms] show ?thesis by simp
next
  case (Inr c)
  with CreateContainer_ips [OF assms] have acq: "acquireIP f = (Inr (dc_ip c), f')" by simp
  have "\<forall>used. distinct (cf_UsableIPs f @ used) \<longrightarrow> distinct (cf_UsableIPs f' @ dc_ip c # used)"
    using ips.exclusive [OF _ acq] by blast
  with Inr ips.acquire_ok [OF acq] show ?thesis by (simp del: distinct_append)
qed

section \<open>The poll loop ends\<close>

lemma context_error_wrap: "context_error e \<Longrightarrow> context_error (Errorf msg [e])"
  by (auto simp: context_error_def errors_Is_def)

lemma request_time: "dk_NewRequest ops url = None \<Longrightarrow> request ops url None w = (r, w1) \<Longrightarrow> w1 = snd (dk_Do ops url None w)"
  by (auto simp: request_def split: prod.splits)

lemma request_expired:
  "dk_NewRequest ops url = None \<Longrightarrow> request ops url None w = ((body, Some e), w1) \<Longrightarrow> fst (dk_Do ops url None w) = Inl c
   \<Longrightarrow> context_error c \<Longrightarrow> context_error e"
  by (auto simp: request_def context_error_wrap split: prod.splits)

lemma poll_select_done: "poll_select ops w = (Some c, w') \<Longrightarrow> dk_CtxErr ops w' = Some c"
  by (auto simp: poll_select_def split: prod.splits option.splits if_splits)

lemma poll_select_time:
  "(\<And>w. clock w \<le> (clock (snd (dk_Wait ops w)) :: nat)) \<Longrightarrow> poll_select ops w = (d, w') \<Longrightarrow> clock w \<le> clock w'"
  by (auto simp: poll_select_def split: prod.splits option.splits) (metis snd_conv)+

text \<open>
  C22. The poll loop ends, whatever the random choices of its \<open>select\<close>: time passes while a request is under way and never
  runs backwards, and a request that is sent after the deadline of the context fails with the error of the context. Then the loop
  returns after at most as many requests as there are ticks of the clock before the deadline, and one more. If it returns
  without an error, its last request was answered with status 200; if it returns an error, its last request failed with an
  error of the context or the context was done.
\<close>

theorem pollUntilResponding_returns:
  assumes "dk_NewRequest ops url = None"
    and "\<And>w. clock w < clock (snd (dk_Do ops url None w))" and "\<And>w. clock w \<le> clock (snd (dk_Wait ops w))"
    and "\<And>w. deadline \<le> clock w \<Longrightarrow> \<exists>e. fst (dk_Do ops url None w) = Inl e \<and> context_error e"
    and "deadline - clock w < (fuel :: nat)"
  shows "\<exists>err w'. pollUntilResponding fuel ops url lastErr w = Some (err, w') \<and>
    (case err of
       None \<Rightarrow> \<exists>w1 body. request ops url None w1 = ((body, None), w')
     | Some _ \<Rightarrow> dk_CtxErr ops w' \<noteq> None \<or> (\<exists>w1 body e. request ops url None w1 = ((body, Some e), w') \<and> context_error e))"
  using assms(5)
proof (induction fuel arbitrary: lastErr w)
  case (Suc fuel)
  obtain body err w1 where rq: "request ops url None w = ((body, err), w1)" by (metis prod.exhaust)
  have later: "clock w < clock w1" using request_time [OF assms(1) rq] assms(2) by metis
  show ?case
  proof (cases err)
    case None
    with rq show ?thesis by auto
  next
    case (Some e)
    obtain d w2 where sel: "poll_select ops w1 = (d, w2)" by force
    show ?thesis
    proof (cases "context_error e \<or> d \<noteq> None")
      case True
      then show ?thesis
      proof (cases "context_error e")
        case True
        with rq Some show ?thesis by auto
      next
        case False
        with True obtain ctxErr where d: "d = Some ctxErr" by auto
        with rq Some sel False show ?thesis using poll_select_done [of ops w1 ctxErr w2] by auto
      qed
    next
      case False
      have "\<not> deadline \<le> clock w"
        using request_expired [OF assms(1) rq [unfolded Some]] assms(4) [of w] False by auto
      then have "deadline - clock w2 < fuel" using later poll_select_time [where clock = clock, OF assms(3) sel] Suc.prems by simp
      from Suc.IH [OF this, of "Some (Errorf ''failed to poll at %s: %w'' [e])"] rq Some sel False
      show ?thesis by auto
    qed
  qed
qed simp

section \<open>The protocol of pausing\<close>

text \<open>
  The goroutine of \<open>PauseEventually\<close> waits for its timer or a stop; after the timer it pauses the
  container and waits for the stop; then it answers. \<open>UnpauseIfNeeded\<close> sends the stop and reads the
  answer; both channels are unbuffered.
\<close>

datatype pauser = PWaiting | PPaused "go_error option" | PAnswer pauseResponse | PGone

datatype unpauser = UStop | UAnswer | UGot pauseResponse

type_synonym 'd pstate = "pauser \<times> unpauser option \<times> 'd"

inductive pause_step :: "'d DockerOps \<Rightarrow> DockerContainer \<Rightarrow> 'd pstate \<Rightarrow> 'd pstate \<Rightarrow> bool" for ops c where
  timer: "Pause ops c w = (err, w') \<Longrightarrow> pause_step ops c (PWaiting, u, w) (PPaused err, u, w')"
| call: "pause_step ops c (q, None, w) (q, Some UStop, w)"
| stop_waiting: "pause_step ops c (PWaiting, Some UStop, w) (PAnswer \<lparr>pr_isPaused = False, pr_err = None\<rparr>, Some UAnswer, w)"
| stop_paused: "pause_step ops c (PPaused err, Some UStop, w) (PAnswer \<lparr>pr_isPaused = True, pr_err = err\<rparr>, Some UAnswer, w)"
| answer: "pause_step ops c (PAnswer r, Some UAnswer, w) (PGone, Some (UGot r), w)"

inductive_cases pause_stepE: "pause_step ops c s s'"

text \<open>From the start in world \<open>w0\<close>: what each pair of phases says about the daemon.\<close>

definition pause_inv :: "'d DockerOps \<Rightarrow> DockerContainer \<Rightarrow> 'd \<Rightarrow> 'd pstate \<Rightarrow> bool" where
  "pause_inv ops c w0 s =
     (case s of (q, u, w) \<Rightarrow>
        (let truthful = (\<lambda>r. (pr_isPaused r \<longrightarrow> Pause ops c w0 = (pr_err r, w)) \<and>
                              (\<not> pr_isPaused r \<longrightarrow> pr_err r = None \<and> w = w0)) in
         case q of
           PWaiting \<Rightarrow> (u = None \<or> u = Some UStop) \<and> w = w0
         | PPaused err \<Rightarrow> (u = None \<or> u = Some UStop) \<and> Pause ops c w0 = (err, w)
         | PAnswer r \<Rightarrow> u = Some UAnswer \<and> truthful r
         | PGone \<Rightarrow> (\<exists>r. u = Some (UGot r) \<and> truthful r)))"

definition pause_progress :: "'d DockerOps \<Rightarrow> DockerContainer \<Rightarrow> 'd pstate \<Rightarrow> bool" where
  "pause_progress ops c s = (fst s = PGone \<or> (\<exists>s'. pause_step ops c s s'))"

lemma pause_step_inv: "pause_inv ops c w0 s \<Longrightarrow> pause_step ops c s s' \<Longrightarrow> pause_inv ops c w0 s'"
  by (erule pause_stepE) (auto simp: pause_inv_def Let_def split: pauser.splits)

lemma pause_inv_progress: "pause_inv ops c w0 s \<Longrightarrow> pause_progress ops c s"
proof -
  assume inv: "pause_inv ops c w0 s"
  obtain q u w where s: "s = (q, u, w)" by (metis prod_cases3)
  show ?thesis
  proof (cases q)
    case PWaiting
    obtain err w' where "Pause ops c w = (err, w')" by force
    then have "pause_step ops c (PWaiting, u, w) (PPaused err, u, w')" by (rule pause_step.timer)
    with s PWaiting show ?thesis by (auto simp: pause_progress_def)
  next
    case (PPaused err)
    with inv s show ?thesis
      by (auto simp: pause_inv_def pause_progress_def intro: pause_step.call pause_step.stop_paused)
  next
    case (PAnswer r)
    with inv s show ?thesis by (auto simp: pause_inv_def pause_progress_def Let_def intro: pause_step.answer)
  qed (simp add: s pause_progress_def)
qed

interpretation pausing: safe_system "pause_step ops c" "pause_inv ops c w0" "pause_progress ops c"
  for ops :: "'d DockerOps" and c w0
  by unfold_locales (auto intro: pause_step_inv pause_inv_progress)

text \<open>
  C23. The protocol between the goroutine of PauseEventually and UnpauseIfNeeded is free of deadlock
  and truthful, in every interleaving: it can always go on until the answer was received; the
  goroutine has then ended, so that both channels can be used again; and the answer says that
  the container was paused exactly when the daemon was asked to pause it, with the result of
  that call. UnpauseIfNeeded then unpauses only a container that was paused.
\<close>

theorem pause_protocol:
  assumes "rtranclp (pause_step ops c) (PWaiting, None, w0) (q, u, w)"
  shows "(q \<noteq> PGone \<longrightarrow> (\<exists>s'. pause_step ops c (q, u, w) s')) \<and>
    (\<forall>r. u = Some (UGot r) \<longrightarrow> q = PGone \<and>
       (pr_isPaused r \<longrightarrow> Pause ops c w0 = (pr_err r, w)) \<and>
       (\<not> pr_isPaused r \<longrightarrow> w = w0 \<and> unpause_after ops c r w = (None, w0)))"
proof -
  have start: "pause_inv ops c w0 (PWaiting, None, w0)" by (simp add: pause_inv_def)
  note inv = pausing.reachable_inv [OF start assms]
  note prog = pausing.always_good [OF start assms]
  show ?thesis
    using inv prog
    by (auto simp: pause_inv_def pause_progress_def Let_def unpause_after_def split: pauser.splits)
qed

section \<open>Log streams\<close>

lemma takeWhile_line: "LF \<notin> set l \<Longrightarrow> takeWhile (\<lambda>c. c \<noteq> LF) (l @ LF # rest) = l"
  by (induction l) auto

lemma ReadLine_line:
  assumes "LF \<notin> set l" and "length l < bufsize" and "\<not> HasSuffix l [CR]"
  shows "ReadLine bufsize (l @ LF # rest) = Some (l, rest)"
proof -
  have "TrimSuffix l [CR] = l" using assms(3) by (simp add: TrimSuffix_def)
  with assms show ?thesis by (simp add: ReadLine_def takeWhile_line Let_def)
qed

text \<open>The clock readings follow the lines.\<close>

fun timed_lines :: "string \<Rightarrow> (nat \<Rightarrow> Time) \<Rightarrow> nat \<Rightarrow> bytes list \<Rightarrow> LogLine list" where
  "timed_lines stream clock i [] = []"
| "timed_lines stream clock i (l # ls) = log_lines stream (clock i) l @ timed_lines stream clock (Suc i) ls"

text \<open>
  A stream of complete lines that fit into the buffer is cut into exactly these lines, in order:
  a line that ends with the sentinel becomes (after the text before it, if there is any) a
  sentinel, every other line becomes a log line with its text. The end of the stream is not an
  error, any other failure to read is reported.
\<close>

theorem consumeStream_lines:
  assumes "\<forall>l \<in> set ls. LF \<notin> set l \<and> length l < max 16 bufsize \<and> \<not> HasSuffix l [CR]"
  shows "consumeStream bufsize stream clock i (concat (map (\<lambda>l. l @ [LF]) ls)) endErr =
    (timed_lines stream clock i ls,
     if errors_Is endErr IOEOF \<or> errors_Is endErr ErrClosedPipe then None
     else Some (Errorf ''failed to read logs: %w'' [endErr]))"
  using assms
proof (induction ls arbitrary: i)
  case Nil
  then show ?case by (subst consumeStream.simps) (simp add: ReadLine_def)
next
  case (Cons l ls)
  then have "ReadLine (max 16 bufsize) (concat (map (\<lambda>l. l @ [LF]) (l # ls))) = Some (l, concat (map (\<lambda>l. l @ [LF]) ls))"
    using ReadLine_line [of l "max 16 bufsize"] by simp
  with Cons show ?case by (subst consumeStream.simps) simp
qed

section \<open>Witnesses\<close>

text \<open>
  A daemon that counts its calls, which are also the clock of the context; the container answers from the fifth on, and at
  the thousandth the context is over. The ticker wins every choice.
\<close>

definition example_docker :: "nat DockerOps" where
  "example_docker =
     \<lparr>dk_ContainerCreate = \<lambda>cfg name w. (Inr name, w + 1), dk_ContainerAttach = \<lambda>c w. (None, w + 1),
      dk_ContainerStart = \<lambda>c w. (None, w + 1), dk_ContainerInspect = \<lambda>c w. (Inr None, w),
      dk_ContainerPause = \<lambda>c w. (None, w + 1), dk_ContainerUnpause = \<lambda>c w. (None, w + 1),
      dk_ContainerRemove = \<lambda>c w. (None, w + 1), dk_CloseLogs = \<lambda>c w. (None, w), dk_WaitLogs = \<lambda>c w. (None, w),
      dk_NewRequest = \<lambda>url. None, dk_Do = \<lambda>url payload w. (if w < 5 then Inl (ErrorString ''connection refused'')
        else if 1000 \<le> w then Inl DeadlineExceeded
        else Inr \<lparr>hr_ContentLength = 2, hr_Body = ''ok'', hr_BodyErr = None, hr_StatusCode = 200\<rparr>, w + 1),
      dk_Wait = \<lambda>w. (True, w + 1), dk_CtxErr = \<lambda>w. if w < 1000 then None else Some DeadlineExceeded, dk_SelectTick = \<lambda>w. True, dk_MB = 1000000\<rparr>"

definition example_factory :: ContainerFactory where
  "example_factory =
     \<lparr>cf_RuntimeManifests = [(''go'', \<lparr>rm_Kind = ''go'', rm_Default = True, rm_Image = ''img'', rm_Stemcells = []\<rparr>)],
      cf_APIHost = ''host'', cf_DNSServers = [], cf_Network = ''bridge'', cf_UsableIPs = [''10.0.0.1'', ''10.0.0.2'']\<rparr>"

theorem request_respects_limit_witness:
  "request example_docker ''u'' None 7 = ((''ok'', None), 8) \<and> length ''ok'' \<le> 1048576"
proof -
  have r: "request example_docker ''u'' None 7 = ((''ok'', None), 8)"
    by (simp add: request_def example_docker_def sint_ResponseLimit ReadFull_def)
  have d: "dk_Do example_docker ''u'' None 7 =
      (Inr \<lparr>hr_ContentLength = 2, hr_Body = ''ok'', hr_BodyErr = None, hr_StatusCode = 200\<rparr>, 8)"
    by (simp add: example_docker_def)
  have "dk_NewRequest example_docker ''u'' = None" by (simp add: example_docker_def)
  from request_respects_limit [OF this d r] r show ?thesis by simp
qed

theorem CreateContainer_addresses_witness:
  "\<exists>c f' w'. CreateContainer 5 example_docker ''go'' 128 ''wsk_1'' (example_factory, 0) = Some (Inr c, f', w') \<and>
     mset (cf_UsableIPs example_factory) = add_mset (dc_ip c) (mset (cf_UsableIPs f'))"
proof -
  let ?r = "CreateContainer 5 example_docker ''go'' 128 ''wsk_1'' (example_factory, 0)"
  have "(case ?r of Some (Inr c, s) \<Rightarrow> True | _ \<Rightarrow> False)"
    by code_simp
  then obtain c f' w' where r: "?r = Some (Inr c, f', w')"
    by (auto split: option.splits sum.splits prod.splits)
  from CreateContainer_addresses [OF r] r show ?thesis by simp
qed

theorem pollUntilResponding_returns_witness:
  "\<exists>err w'. pollUntilResponding 1001 example_docker ''u'' None 0 = Some (err, w')"
proof -
  have "dk_NewRequest example_docker ''u'' = None" and "w < snd (dk_Do example_docker ''u'' None w)"
    and "w \<le> snd (dk_Wait example_docker w)" and "1000 \<le> w \<Longrightarrow> \<exists>e. fst (dk_Do example_docker ''u'' None w) = Inl e \<and> context_error e" for w
    by (simp_all add: example_docker_def context_error_def errors_Is_def)
  then show ?thesis
    using pollUntilResponding_returns [of example_docker "''u''" "\<lambda>w. w" 1000 0 1001 None] by auto
qed

theorem pause_protocol_witness:
  "\<exists>s'. pause_step example_docker \<lparr>dc_id = ''1'', dc_ip = '''', dc_attached = True\<rparr> (PWaiting, Some UStop, 0) s'"
proof -
  let ?c = "\<lparr>dc_id = ''1'', dc_ip = '''', dc_attached = True\<rparr>"
  have "rtranclp (pause_step example_docker ?c) (PWaiting, None, 0) (PWaiting, Some UStop, 0)"
    by (rule r_into_rtranclp) (rule pause_step.call)
  from pause_protocol [OF this] show ?thesis by simp
qed

theorem consumeStream_lines_witness:
  "map ll_IsSentinel (fst (consumeStream 64 ''stdout'' int 0 (''hello'' @ [LF] @ logSentinel @ [LF]) IOEOF)) = [False, True]"
proof -
  have "\<forall>l \<in> set [''hello'', logSentinel]. LF \<notin> set l \<and> length l < max 16 64 \<and> \<not> HasSuffix l [CR]"
    by code_simp
  from consumeStream_lines [OF this, of "''stdout''" int 0 IOEOF]
  have "fst (consumeStream 64 ''stdout'' int 0 (''hello'' @ [LF] @ logSentinel @ [LF]) IOEOF)
      = timed_lines ''stdout'' int 0 [''hello'', logSentinel]" by simp
  moreover have "map ll_IsSentinel (timed_lines ''stdout'' int 0 [''hello'', logSentinel]) = [False, True]" by code_simp
  ultimately show ?thesis by simp
qed

end
