(* ===== verification/Pool_Addresses.thy ===== *)
theory Pool_Addresses
  imports Pool_Properties Docker_Properties
begin

text \<open>
  The container pool over the docker factory: the IP addresses. The factory of
  \<open>pkg/exec/docker/container.go\<close> takes the address of a container from \<open>UsableIPs\<close> and gives it back when the
  container was removed; the pool of \<open>pkg/exec/pool.go\<close> decides when that happens. The interface
  between the two is the locale \<open>address_provider\<close>: no operation makes addresses, a created container
  has one that is no longer free, and only a removal gives back the removed container's. The pool's part is
  proved in it once; it is interpreted on the docker factory.
\<close>

section \<open>Spending addresses\<close>

definition ips :: "PooledContainer list \<Rightarrow> string list" where
  "ips cs = map (\<lambda>c. ctr_IP (pc_Container c)) cs"

lemma ips_simps [simp]:
  "ips [] = []" "ips (c # cs) = ctr_IP (pc_Container c) # ips cs" "ips (xs @ ys) = ips xs @ ips ys"
  by (simp_all add: ips_def)

lemma mset_ips: "mset xs = mset ys \<Longrightarrow> mset (ips xs) = mset (ips ys)"
  unfolding ips_def by (metis mset_map)

text \<open>
  An operation that is given the addresses \<open>x\<close> leaves at most the free addresses, \<open>x\<close> and none that its
  result \<open>r\<close> keeps (\<open>kept r\<close>).
\<close>

definition pays :: "('w \<Rightarrow> string multiset) \<Rightarrow> ('a \<Rightarrow> string multiset) \<Rightarrow> string multiset \<Rightarrow> ('w \<Rightarrow> 'a \<times> 'w) \<Rightarrow> bool" where
  "pays free kept x f = (\<forall>w. free (snd (f w)) + kept (fst (f w)) \<subseteq># free w + x)"

definition none :: "'a \<Rightarrow> string multiset" where
  "none r = {#}"

definition kept_result :: "(PooledContainer \<times> bool) result \<Rightarrow> string multiset" where
  "kept_result r = mset (ips (handed r))"

definition kept_container :: "PooledContainer result \<Rightarrow> string multiset" where
  "kept_container r = (case r of Inl _ \<Rightarrow> {#} | Inr c \<Rightarrow> {#ctr_IP (pc_Container c)#})"

definition kept_created :: "Container result \<Rightarrow> string multiset" where
  "kept_created r = (case r of Inl _ \<Rightarrow> {#} | Inr c \<Rightarrow> {#ctr_IP c#})"

named_theorems pays_intro \<open>rules that take the body of an operation apart\<close>

lemma paysD: "pays free kept x f \<Longrightarrow> f w = (r, w') \<Longrightarrow> free w' + kept r \<subseteq># free w + x"
  unfolding pays_def by (metis fst_conv snd_conv)

lemma pays_return [pays_intro]: "kept r \<subseteq># x \<Longrightarrow> pays free kept x (\<lambda>w. (r, w))"
  by (simp add: pays_def)

lemma pays_bind [pays_intro]:
  assumes "pays free kept1 x f" and "\<And>r. pays free kept (kept1 r) (g r)"
  shows "pays free kept x (\<lambda>w. case f w of (r, w1) \<Rightarrow> g r w1)"
  unfolding pays_def
proof
  fix w
  obtain r w1 where f: "f w = (r, w1)" by force
  have "free (snd (g r w1)) + kept (fst (g r w1)) \<subseteq># free w1 + kept1 r" using assms(2) by (simp add: pays_def)
  also have "\<dots> \<subseteq># free w + x" by (rule paysD [OF assms(1) f])
  finally show "free (snd (case f w of (r, w1) \<Rightarrow> g r w1)) + kept (fst (case f w of (r, w1) \<Rightarrow> g r w1)) \<subseteq># free w + x"
    by (simp add: f)
qed

lemma pays_case_option [pays_intro]:
  "pays free kept x f \<Longrightarrow> (\<And>y. pays free kept x (g y)) \<Longrightarrow> pays free kept x (\<lambda>w. case r of None \<Rightarrow> f w | Some y \<Rightarrow> g y w)"
  by (cases r) auto

lemma pays_case_sum [pays_intro]:
  "(\<And>y. pays free kept x (f y)) \<Longrightarrow> (\<And>y. pays free kept x (g y)) \<Longrightarrow> pays free kept x (\<lambda>w. case r of Inl y \<Rightarrow> f y w | Inr y \<Rightarrow> g y w)"
  by (cases r) auto

lemma pays_if [pays_intro]:
  "pays free kept x f \<Longrightarrow> pays free kept x g \<Longrightarrow> pays free kept x (\<lambda>w. if b then f w else g w)"
  by (cases b) auto

text \<open>An operation that touches no address passes on whatever it is given.\<close>

lemma pays_quiet: "(\<And>w. free (snd (f w)) \<subseteq># free w) \<Longrightarrow> pays free (\<lambda>_. x) x f"
  by (simp add: pays_def)

lemma none_le [simp]: "none r \<subseteq># x"
  by (simp add: none_def)

text \<open>The free addresses and those of the containers \<open>cs\<close> do not become more.\<close>

definition conserves :: "('w \<Rightarrow> string multiset) \<Rightarrow> 'w \<Rightarrow> PooledContainer list \<Rightarrow> 'w \<Rightarrow> PooledContainer list \<Rightarrow> bool" where
  "conserves free w cs w' cs' = (free w' + mset (ips cs') \<subseteq># free w + mset (ips cs))"

lemma conserves_trans: "conserves free w1 as w2 bs \<Longrightarrow> conserves free w2 bs w3 cs \<Longrightarrow> conserves free w1 as w3 cs"
  unfolding conserves_def by (rule subset_mset.order_trans)

lemma conserves_append: "conserves free w as w' bs \<Longrightarrow> conserves free w (as @ cs) w' (bs @ cs)"
  unfolding conserves_def using subset_mset.add_right_mono [of _ _ "mset (ips cs)"] by (fastforce simp: ac_simps)

lemma conserves_mset: "conserves free w as w' bs \<Longrightarrow> mset cs = mset as \<Longrightarrow> mset ds = mset bs \<Longrightarrow> conserves free w cs w' ds"
  using mset_ips [of cs as] mset_ips [of ds bs] unfolding conserves_def by simp

lemma conserves_refl: "mset cs = mset ds \<Longrightarrow> conserves free w cs w ds"
  using mset_ips [of cs ds] by (simp add: conserves_def)

text \<open>An operation that is given a container, beside containers that it does not touch.\<close>

lemma removed_conserves:
  assumes "pays free none {#ctr_IP (pc_Container c)#} f" and "f w = (r, w')"
  shows "conserves free w (c # rest) w' rest"
  using paysD [OF assms] by (simp add: conserves_def none_def)

lemma kept_conserves:
  assumes "pays free kept_result {#ctr_IP (pc_Container c)#} f" and "f w = (r, w')"
  shows "conserves free w (c # rest) w' (handed r @ rest)"
  using paysD [OF assms] subset_mset.add_right_mono [of "free w' + mset (ips (handed r))" "free w + {#ctr_IP (pc_Container c)#}" "mset (ips rest)"]
  by (simp add: conserves_def kept_result_def ac_simps)

section \<open>The interface\<close>

locale address_provider =
  fixes env :: "('w, 's) PoolEnv" and free :: "'w \<Rightarrow> string multiset"
  assumes state: "free (snd (op_State (pe_containers env) c w)) \<subseteq># free w"
    and unpause: "free (snd (op_UnpauseIfNeeded (pe_containers env) c w)) \<subseteq># free w"
    and pause: "free (op_PauseEventually (pe_containers env) c d w) \<subseteq># free w"
    and needs: "free (snd (op_NeedsPerContainerFirewallSetup (pe_firewall env) ns w)) \<subseteq># free w"
    and fw_setup: "free (snd (op_SetupPerContainerFirewall (pe_firewall env) ip ns w)) \<subseteq># free w"
    and fw_cleanup: "free (snd (op_FirewallCleanup (pe_firewall env) h w)) \<subseteq># free w"
    and now: "free (snd (pe_Now env w)) \<subseteq># free w"
    and remove: "pays free none {#ctr_IP c#} (op_Remove (pe_containers env) c)"
    and create: "pays free kept_created {#} (op_CreateContainer (pe_factory env) kind memory name)"
begin

lemma quiet_ops:
  "pays free (\<lambda>_. x) x (op_State (pe_containers env) c)"
  "pays free (\<lambda>_. x) x (op_UnpauseIfNeeded (pe_containers env) c)"
  "pays free (\<lambda>_. x) x (op_NeedsPerContainerFirewallSetup (pe_firewall env) ns)"
  "pays free (\<lambda>_. x) x (op_SetupPerContainerFirewall (pe_firewall env) ip ns)"
  "pays free (\<lambda>_. x) x (op_FirewallCleanup (pe_firewall env) h)"
  "pays free (\<lambda>_. x) x (pe_Now env)"
  by (rule pays_quiet, rule state unpause needs fw_setup fw_cleanup now)+

lemma CleanupContainer_pays:
  "pays free (\<lambda>_. x) x st \<Longrightarrow> pays free none x rm \<Longrightarrow> pays free none x (CleanupContainer st rm err)"
  unfolding CleanupContainer_def [abs_def] Let_def
  by (rule pays_bind, assumption, rule pays_bind, assumption) (intro pays_intro none_le)

lemma PooledContainer_Remove_pays: "pays free none {#ctr_IP (pc_Container c)#} (PooledContainer_Remove env c)"
  unfolding PooledContainer_Remove_def [abs_def] Let_def
  by (rule quiet_ops remove pays_intro none_le)+

lemma PooledContainer_State_pays: "pays free (\<lambda>_. x) x (PooledContainer_State env c)"
  unfolding PooledContainer_State_def [abs_def] by (rule quiet_ops)

lemma cleanup_pooled_pays: "pays free none {#ctr_IP (pc_Container c)#} (cleanup_pooled env c err)"
  unfolding cleanup_pooled_def [abs_def] by (intro CleanupContainer_pays PooledContainer_State_pays PooledContainer_Remove_pays)

lemma isBrokenByUser_pays: "pays free (\<lambda>_. x) x (isBrokenByUser env c)"
  unfolding isBrokenByUser_def [abs_def] Let_def
  by (rule pays_bind [OF PooledContainer_State_pays]) (intro pays_intro subset_mset.order_refl)

lemma removal_pays:
  "pays free none {#ctr_IP (pc_Container c)#}
     (\<lambda>w. case PooledContainer_Remove env c w of (rmErr, w') \<Rightarrow> (map_option f rmErr, w'))"
  by (rule pays_bind [OF PooledContainer_Remove_pays]) (intro pays_intro none_le)

lemma remove_idle_pays: "pays free none {#ctr_IP (pc_Container c)#} (remove_idle env m1 m2 c)"
  unfolding remove_idle_def [abs_def] Let_def
  by (rule quiet_ops isBrokenByUser_pays cleanup_pooled_pays removal_pays pays_intro none_le)+

lemma remove_all_pays: "pays free none (mset (ips cs)) (remove_all env m1 m2 cs)"
proof (induction cs)
  case Nil
  then show ?case by (simp add: pays_def none_def)
next
  case (Cons c cs)
  show ?case unfolding pays_def
  proof
    fix w
    obtain e w1 where r: "remove_idle env m1 m2 c w = (e, w1)" by force
    obtain es w2 where r2: "remove_all env m1 m2 cs w1 = (es, w2)" by force
    have "free (snd (remove_all env m1 m2 cs w1)) \<subseteq># free w1 + mset (ips cs)" using Cons.IH by (simp add: pays_def none_def)
    also have "\<dots> \<subseteq># free w + mset (ips (c # cs))" using paysD [OF remove_idle_pays r] by (simp add: none_def)
    finally show "free (snd (remove_all env m1 m2 (c # cs) w)) + none (fst (remove_all env m1 m2 (c # cs) w)) \<subseteq># free w + mset (ips (c # cs))"
      by (simp add: r r2 none_def)
  qed
qed

lemma setup_firewall_pays:
  assumes "\<And>err. pays free none {#ctr_IP (pc_Container c)#} (fail err)"
  shows "pays free kept_container {#ctr_IP (pc_Container c)#} (setup_firewall env ns fail c)"
  unfolding setup_firewall_def [abs_def] Let_def
  by ((rule pays_return, force simp: kept_container_def none_def) | rule quiet_ops assms pays_intro)+

lemma prewarm_finish_pays: "pays free kept_result {#ctr_IP (pc_Container c)#} (prewarm_finish env data c)"
  unfolding prewarm_finish_def [abs_def] Let_def
  by (rule pays_bind [OF setup_firewall_pays [OF cleanup_pooled_pays]], rule pays_return)
    (simp add: kept_result_def kept_container_def split: sum.splits)

lemma warm_finish_pays: "pays free kept_result {#ctr_IP (pc_Container c)#} (warm_finish env ns c)"
  unfolding warm_finish_def [abs_def] Let_def
  by (rule quiet_ops PooledContainer_State_pays PooledContainer_Remove_pays cleanup_pooled_pays pays_intro
      | simp add: kept_result_def none_def)+

lemma deleter_step_conserves:
  assumes "deleter_step env p w = (p', w')"
  shows "conserves free w (owned p) w' (owned p')"
proof (cases "containersToDeleteForSpace p")
  case (Cons c rest)
  obtain e w1 where r: "remove_idle env ''failed to unpause container: %w'' ''failed to delete container while making space'' c w = (e, w1)" by force
  with assms Cons have p': "p' = p\<lparr>containersToDeleteForSpace := rest\<rparr>" "w' = w1" by (simp_all add: deleter_step_def)
  show ?thesis unfolding p'(2)
    by (rule conserves_mset [OF removed_conserves [OF remove_idle_pays r, of "owned p'"]]) (simp_all add: p' Cons owned_def)
qed (use assms in \<open>simp add: deleter_step_def conserves_refl\<close>)

lemma send_delete_conserves:
  assumes "send_delete env c p w = Returns (p', w')"
  shows "conserves free w (c # owned p) w' (owned p')"
proof -
  obtain p1 w1 where p1: "(if length (containersToDeleteForSpace p) < deleteBuffer then (p, w) else deleter_step env p w) = (p1, w1)" by force
  with assms have p': "p' = p1\<lparr>containersToDeleteForSpace := containersToDeleteForSpace p1 @ [c]\<rparr>" "w' = w1"
    by (auto simp: send_delete_def split: if_splits)
  have "conserves free w (owned p) w1 (owned p1)"
    using p1 deleter_step_conserves by (auto simp: conserves_refl split: if_splits)
  from conserves_append [OF this, of "[c]"] show ?thesis unfolding p'(2)
    by (rule conserves_mset) (simp_all add: p' owned_def)
qed

lemma send_deletes_conserves:
  "send_deletes env ds p w = Returns (p', w') \<Longrightarrow> conserves free w (ds @ owned p) w' (owned p')"
proof (induction ds arbitrary: p w)
  case (Cons d ds)
  from Cons.prems obtain p1 w1 where sd: "send_delete env d p w = Returns (p1, w1)" and rest: "send_deletes env ds p1 w1 = Returns (p', w')"
    by (auto split: outcome.splits prod.splits)
  have "conserves free w ((d # owned p) @ ds) w1 (owned p1 @ ds)" by (rule conserves_append [OF send_delete_conserves [OF sd]])
  then have "conserves free w ((d # ds) @ owned p) w1 (ds @ owned p1)" by (rule conserves_mset) simp_all
  then show ?case using Cons.IH [OF rest] by (rule conserves_trans)
qed (simp add: conserves_refl)

lemma create_cold_conserves:
  assumes "create_cold env data kind memory p w = (r, p', w')"
  shows "conserves free w (owned p) w' (handed r @ owned p')"
proof -
  let ?name = "specificContainerName (containersCreated p + 1) (wck_InvocationNamespace data) (amf_Name (wck_Function data))"
  have p': "owned p' = owned p" using create_cold_pool [of env data kind memory p w] assms by (simp add: owned_def)
  obtain cr w1 where cr: "op_CreateContainer (pe_factory env) kind memory ?name w = (cr, w1)" by force
  note paid = paysD [OF create cr]
  show ?thesis
  proof (cases cr)
    case (Inl e)
    with assms cr paid p' show ?thesis by (auto simp: create_cold_def conserves_def kept_created_def)
  next
    case (Inr ctr)
    let ?c = "new_pooled ctr data memory"
    let ?fail = "\<lambda>err. CleanupContainer (op_State (pe_containers env) ctr) (op_Remove (pe_containers env) ctr)
        (Errorf ''failed to setup firewall for cold container: %w'' [err])"
    obtain fr w2 where fr: "setup_firewall env (wck_InvocationNamespace data) ?fail ?c w1 = (fr, w2)" by force
    have c: "pc_Container ?c = ctr" by (simp add: new_pooled_def)
    have "pays free none {#ctr_IP (pc_Container ?c)#} (?fail err)" for err
      unfolding c by (rule CleanupContainer_pays [OF quiet_ops(1) remove])
    from paysD [OF setup_firewall_pays [OF this] fr] have "free w2 + kept_container fr \<subseteq># free w1 + {#ctr_IP ctr#}" by (simp add: c)
    also have "\<dots> \<subseteq># free w" using paid Inr by (simp add: kept_created_def)
    finally have "free w2 + kept_container fr \<subseteq># free w" .
    moreover have "w' = w2" "r = (case fr of Inl e \<Rightarrow> Inl e | Inr c \<Rightarrow> Inr (c, False))"
      using assms cr Inr fr by (auto simp: create_cold_def)
    ultimately have "conserves free w [] w' (handed r)"
      by (cases fr) (simp_all add: conserves_def kept_container_def)
    from conserves_append [OF this, of "owned p"] show ?thesis by (simp add: p')
  qed
qed

lemma getContainer_space_conserves:
  assumes sec: "idles_section (pe_idlesOrder env) \<lparr>wck_InvocationNamespace = ns, wck_Function = fn\<rparr> inFl p = Returns (Space ds, p1)"
    and p1: "p1 = p\<lparr>idles := idles p1, idlesMemory := idlesMemory p1\<rparr>"
    and split: "mset (flat (idles p)) = mset ds + mset (flat (idles p1))" and open_: "\<not> poolClosed p"
    and got: "getContainer env ns fn kind memory inFl p w = Returns (r, p', w')"
  shows "conserves free w (owned p) w' (handed r @ owned p')"
proof -
  let ?data = "\<lparr>wck_InvocationNamespace = ns, wck_Function = fn\<rparr>"
  have fr: "poolClosed p1 = poolClosed p" "prewarmed p1 = prewarmed p"
    "containersToDeleteForSpace p1 = containersToDeleteForSpace p" by (subst p1, simp)+
  obtain q w2 where sd: "send_deletes env ds p1 w = Returns (p1\<lparr>containersToDeleteForSpace := q\<rparr>, w2)"
    using send_deletes_returns [of p1 env ds w] open_ fr(1) by auto
  let ?p2 = "p1\<lparr>containersToDeleteForSpace := q\<rparr>" and ?k = "\<lparr>pck_Kind = kind, pck_Memory = memory\<rparr>"
  have "conserves free w (owned p) w2 (owned ?p2)"
    by (rule conserves_mset [OF send_deletes_conserves [OF sd]]) (simp_all add: owned_def split fr)
  moreover have "conserves free w2 (owned ?p2) w' (handed r @ owned p')"
  proof (cases "bucket (prewarmed ?p2) ?k")
    case Nil
    then show ?thesis using got sec sd by (intro create_cold_conserves) (simp add: getContainer_def)
  next
    case (Cons c rest)
    obtain r1 w3 where pf: "prewarm_finish env ?data c w2 = (r1, w3)" by force
    then have eq: "r = r1" "w' = w3" "p' = ?p2\<lparr>prewarmed := AList.update ?k rest (prewarmed ?p2), prewarmPoke := True\<rparr>"
      using got sec sd Cons open_ fr(1) by (simp_all add: getContainer_def poke_prewarm_def)
    have "mset (bucket (prewarmed ?p2) ?k) = mset [c] + mset rest" using Cons by simp
    from mset_flat_cut [OF this] show ?thesis unfolding eq(1,2)
      by (intro conserves_mset [OF kept_conserves [OF prewarm_finish_pays pf, of "owned p'"]]) (simp_all add: owned_def eq(3))
  qed
  ultimately show ?thesis by (rule conserves_trans)
qed

lemma getContainer_conserves:
  assumes ord: "gm_order (pe_idlesOrder env)" and wf: "idles_wf (idles p)" "acct_ok p" and lock: "\<not> idlesLocked p" "\<not> poolClosed p"
    and fits: "unat inFl \<le> unat (maxMemory p)" "mem_sum (flat (idles p)) + unat inFl < 2 ^ 64"
    and got: "getContainer env ns fn kind memory inFl p w = Returns (r, p', w')"
  shows "conserves free w (owned p) w' (handed r @ owned p')"
proof -
  let ?data = "\<lparr>wck_InvocationNamespace = ns, wck_Function = fn\<rparr>"
  from ord wf lock(1) fits show ?thesis
  proof (cases rule: idles_section_cases [where data = ?data])
    case (warm c p1)
    note T = take_warm_SomeD [OF warm(2) wf(1)]
    obtain r1 w1 where f: "warm_finish env ns c w = (r1, w1)" by force
    then have eq: "r = r1" "w' = w1" "p' = p1" using got warm(1) by (simp_all add: getContainer_def)
    have "prewarmed p1 = prewarmed p" "containersToDeleteForSpace p1 = containersToDeleteForSpace p" by (subst T(8), simp)+
    then show ?thesis unfolding eq
      by (intro conserves_mset [OF kept_conserves [OF warm_finish_pays f, of "owned p1"]]) (simp_all add: owned_def T(4))
  next
    case roomy
    then show ?thesis using getContainer_space_conserves [OF _ _ _ lock(2) got, of "[]" p] by simp
  next
    case (evict ds p1)
    then show ?thesis by (intro getContainer_space_conserves [OF _ _ _ lock(2) got, of ds p1]) (auto simp: evicts_def)
  qed
qed

lemma Get_conserves:
  assumes inv: "pool_inv held p out" and ord: "gm_order (pe_idlesOrder env)"
    and sem: "semaphore_ok (pe_semaphore env) (int (unat (maxMemory p))) held" and open_: "\<not> poolClosed p" and small: "unat memory < 2 ^ 63"
    and get: "Get env ns fn kind memory p w = Returns (r, p', w')"
  shows "conserves free w (owned p) w' (handed r @ owned p')"
proof -
  obtain ae s1 where acq: "sem_Acquire (pe_semaphore env) (int64 memory) (inFlight p) = (ae, s1)" by force
  note I = inv [unfolded pool_inv_def]
  show ?thesis
  proof (cases ae)
    case (Some e)
    then have "handed r = []" "owned p' = owned p" "w' = w" using get acq by (auto simp: Get_def owned_def)
    then show ?thesis by (simp add: conserves_refl)
  next
    case None
    note cap = acquired_capacity(2,3) [OF inv sem small acq [unfolded None]]
    let ?inFl = "inFlightMemory p + memory"
    let ?p2 = "p\<lparr>inFlight := s1, inFlightMemory := ?inFl\<rparr>"
    obtain r1 p3 where gc: "getContainer env ns fn kind memory ?inFl ?p2 w = Returns (r1, p3, w')"
      and eq: "handed r = handed r1" "owned p' = owned p3"
      using get acq None by (auto simp: Get_def Let_def owned_def frame split: outcome.splits sum.splits prod.splits)
    have "conserves free w (owned ?p2) w' (handed r1 @ owned p3)"
      by (rule getContainer_conserves [OF ord _ _ _ _ _ _ gc]) (use I open_ cap in \<open>auto simp: acct_ok_def\<close>)
    moreover have "owned ?p2 = owned p" by (simp add: owned_def)
    ultimately show ?thesis by (simp add: eq)
  qed
qed

lemma Put_conserves:
  assumes "Put env c p w = Returns (p', w')"
  shows "conserves free w (c # owned p) w' (owned p')"
proof -
  obtain t w1 where t: "pe_Now env w = (t, w1)" by force
  let ?c = "c\<lparr>pc_lastUsed := t\<rparr>"
  have w': "w' = op_PauseEventually (pe_containers env) (pc_Container c) pauseGrace w1" and p': "owned p' = owned (put_idle ?c p)"
    using assms t by (auto simp: Put_def Let_def owned_def frame split: if_splits)
  have "free w' \<subseteq># free w1" unfolding w' by (rule pause)
  also have "\<dots> \<subseteq># free w" using now [of w] t by simp
  finally have "free w' \<subseteq># free w" .
  moreover have "mset (ips (owned p')) = mset (ips (?c # owned p))"
    unfolding p' by (rule mset_ips) (simp add: owned_def put_idle_def mset_flat_grow)
  ultimately show ?thesis by (simp add: conserves_def)
qed

lemma PutToDestroy_conserves:
  assumes "PutToDestroy env c p w = (e, p', w')"
  shows "conserves free w (c # owned p) w' (owned p')"
proof -
  obtain rmErr w1 where r: "PooledContainer_Remove env c w = (rmErr, w1)" by force
  with assms have "w' = w1" "owned p' = owned p" by (auto simp: PutToDestroy_def owned_def frame)
  with removed_conserves [OF PooledContainer_Remove_pays r, of "owned p"] show ?thesis by simp
qed

lemma reap_conserves:
  assumes inv: "pool_inv held p out" and "reap env t p w = Returns (errs, p', w')"
  shows "conserves free w (owned p) w' (owned p')"
proof -
  obtain del p1 errs1 w1 where "reap env t p w = Returns (errs1, p1, w1)"
    and c: "reap_collect t (pe_idlesOrder env (idles p)) p = (del, p1)"
    and rm: "remove_all env ''failed to unpause container during reaping: %w'' ''failed to delete container during reaping: %w'' del w = (errs1, w1)"
    by (rule reap_ok [OF inv, where env = env and t = t and w = w])
  with assms(2) have eq: "p' = p1" "w' = w1" by simp_all
  from reap_collect_props [OF c] inv have R: "mset (flat (idles p)) = mset del + mset (flat (idles p1))"
    and p1: "p1 = p\<lparr>idles := idles p1, idlesMemory := idlesMemory p1\<rparr>" by (auto simp: pool_inv_def)
  have fr: "prewarmed p1 = prewarmed p" "containersToDeleteForSpace p1 = containersToDeleteForSpace p" by (subst p1, simp)+
  have "conserves free w del w1 []" using paysD [OF remove_all_pays rm] by (simp add: conserves_def none_def)
  from conserves_append [OF this, of "owned p1"] show ?thesis unfolding eq
    by (rule conserves_mset) (simp_all add: owned_def R fr)
qed

lemma create_prewarm_conserves:
  assumes "create_prewarm env k p w = (e, p', w')"
  shows "conserves free w (owned p) w' (owned p')"
proof -
  let ?name = "prewarmContainerName (containersCreated p + 1) (pck_Kind k)"
  obtain cr w1 where cr: "op_CreateContainer (pe_factory env) (pck_Kind k) (pck_Memory k) ?name w = (cr, w1)" by force
  note paid = paysD [OF create cr]
  show ?thesis
  proof (cases cr)
    case (Inl err)
    with assms cr have "w' = w1" "owned p' = owned p" by (auto simp: create_prewarm_def owned_def)
    with paid Inl show ?thesis by (simp add: conserves_def kept_created_def)
  next
    case (Inr ctr)
    let ?c = "new_pooled ctr zero_WarmContainerKey (pck_Memory k)"
    from assms cr Inr have w': "w' = w1" and "mset (owned p') = mset (?c # owned p)"
      by (auto simp: create_prewarm_def owned_def mset_flat_grow)
    from mset_ips [OF this(2)] have "mset (ips (owned p')) = add_mset (ctr_IP ctr) (mset (ips (owned p)))" by (simp add: new_pooled_def)
    moreover have "add_mset (ctr_IP ctr) (free w1) \<subseteq># free w" using paid Inr by (simp add: kept_created_def)
    ultimately show ?thesis using subset_mset.add_right_mono [of "add_mset (ctr_IP ctr) (free w1)" "free w" "mset (ips (owned p))"]
      by (simp add: conserves_def w')
  qed
qed

lemma create_prewarms_conserves:
  "create_prewarms env k n p w = (e, p', w') \<Longrightarrow> conserves free w (owned p) w' (owned p')"
proof (induction n arbitrary: p w)
  case (Suc n)
  obtain e1 p1 w1 where c: "create_prewarm env k p w = (e1, p1, w1)" by (metis prod_cases3)
  note one = create_prewarm_conserves [OF c]
  show ?case
  proof (cases e1)
    case None
    with Suc.prems c have "create_prewarms env k n p1 w1 = (e, p', w')" by simp
    from conserves_trans [OF one Suc.IH [OF this]] show ?thesis .
  qed (use Suc.prems c one in simp)
qed (simp add: conserves_refl)

lemma run_creations_conserves:
  "run_creations env ks nc p w = (e, p', w') \<Longrightarrow> conserves free w (owned p) w' (owned p')"
proof (induction ks arbitrary: p w)
  case (Cons k ks)
  show ?case
  proof (cases "map_of nc k")
    case (Some n)
    obtain e1 p1 w1 where c: "create_prewarms env k (nat n) p w = (e1, p1, w1)" by (metis prod_cases3)
    note one = create_prewarms_conserves [OF c]
    show ?thesis
    proof (cases e1)
      case None
      with Cons.prems c Some have "run_creations env ks nc p1 w1 = (e, p', w')" by simp
      from conserves_trans [OF one Cons.IH [OF this]] show ?thesis .
    qed (use Cons.prems c one Some in simp)
  qed (use Cons in simp)
qed (simp add: conserves_refl)

lemma prewarm_step_conserves:
  assumes "prewarm_step env p w = Returns (p', w')"
  shows "conserves free w (owned p) w' (owned p')"
proof (cases "prewarmPoke p")
  case True
  obtain e p1 w1 where r: "reconcilePrewarm env (p\<lparr>prewarmPoke := False\<rparr>) w = (e, p1, w1)" by (metis prod_cases3)
  then have "conserves free w (owned (p\<lparr>prewarmPoke := False\<rparr>)) w1 (owned p1)"
    unfolding reconcilePrewarm_def Let_def by (rule run_creations_conserves)
  moreover have "w' = w1" "owned p' = owned p1"
    using assms True r by (auto simp: prewarm_step_def poke_prewarm_def owned_def split: option.splits if_splits)
  ultimately show ?thesis by (simp add: owned_def)
qed (use assms in \<open>simp add: prewarm_step_def conserves_refl\<close>)

lemma returned_conserves:
  assumes "\<not> length out \<le> i" and "conserves free w (out ! i # cs) w' ds"
  shows "conserves free w (out @ cs) w' (remove_nth i out @ ds)"
  using assms(1) mset_remove_nth [of i out]
  by (intro conserves_mset [OF conserves_append [OF assms(2), of "remove_nth i out"]]) simp_all

lemma sys_call_conserves:
  assumes inv: "sys_inv env limit userMemory held s" and call: "sys_call env limit c s = Returns s'"
  shows "conserves free (sys_world s) (sys_out s @ owned (sys_pool s)) (sys_world s') (sys_out s' @ owned (sys_pool s'))"
proof -
  have pi: "pool_inv held (sys_pool s) (sys_out s)" and open_: "\<not> poolClosed (sys_pool s)" and ord: "gm_order (pe_idlesOrder env)"
    and sem: "semaphore_ok (pe_semaphore env) (int (unat (maxMemory (sys_pool s)))) held" and small: "\<And>k. unat (limit k) < 2 ^ 63"
    using inv by (auto simp: sys_inv_def env_ok_def)
  have pool_only: "conserves free (sys_world s) (sys_out s @ owned (sys_pool s)) w (sys_out s @ owned p)"
    if "conserves free (sys_world s) (owned (sys_pool s)) w (owned p)" for w and p :: "'s ContainerPool"
    by (rule conserves_mset [OF conserves_append [OF that, of "sys_out s"]]) simp_all
  show ?thesis
  proof (cases c)
    case (CallGet ns fn kind)
    let ?m = "limit \<lparr>wck_InvocationNamespace = ns, wck_Function = fn\<rparr>"
    from call CallGet obtain r p w where g: "Get env ns fn kind ?m (sys_pool s) (sys_world s) = Returns (r, p, w)"
      and s': "sys_pool s' = p" "sys_out s' = handed r @ sys_out s" "sys_world s' = w" by (auto split: outcome.splits)
    show ?thesis unfolding s'
      by (rule conserves_mset [OF conserves_append [OF Get_conserves [OF pi ord sem open_ small g], of "sys_out s"]]) simp_all
  next
    case (CallPut i)
    show ?thesis
    proof (cases "length (sys_out s) \<le> i")
      case False
      with call CallPut obtain p w where g: "Put env (sys_out s ! i) (sys_pool s) (sys_world s) = Returns (p, w)"
        and s': "sys_pool s' = p" "sys_out s' = remove_nth i (sys_out s)" "sys_world s' = w" by (auto split: outcome.splits)
      show ?thesis unfolding s' by (rule returned_conserves [OF False Put_conserves [OF g]])
    qed (use call CallPut in \<open>simp add: conserves_refl\<close>)
  next
    case (CallPutToDestroy i)
    show ?thesis
    proof (cases "length (sys_out s) \<le> i")
      case False
      obtain e p w where g: "PutToDestroy env (sys_out s ! i) (sys_pool s) (sys_world s) = (e, p, w)" by (metis prod_cases3)
      with call CallPutToDestroy False have s': "sys_pool s' = p" "sys_out s' = remove_nth i (sys_out s)" "sys_world s' = w" by auto
      show ?thesis unfolding s' by (rule returned_conserves [OF False PutToDestroy_conserves [OF g]])
    qed (use call CallPutToDestroy in \<open>simp add: conserves_refl\<close>)
  next
    case (CallReap t)
    with call obtain errs p w where g: "reap env t (sys_pool s) (sys_world s) = Returns (errs, p, w)"
      and s': "s' = s\<lparr>sys_pool := p, sys_world := w\<rparr>" by (auto split: outcome.splits)
    show ?thesis unfolding s' using pool_only [OF reap_conserves [OF pi g]] by simp
  next
    case CallDeleter
    obtain p w where g: "deleter_step env (sys_pool s) (sys_world s) = (p, w)" by force
    with call CallDeleter have s': "s' = s\<lparr>sys_pool := p, sys_world := w\<rparr>" by auto
    show ?thesis unfolding s' using pool_only [OF deleter_step_conserves [OF g]] by simp
  next
    case CallPrewarm
    with call obtain p w where g: "prewarm_step env (sys_pool s) (sys_world s) = Returns (p, w)"
      and s': "s' = s\<lparr>sys_pool := p, sys_world := w\<rparr>" by (auto split: outcome.splits)
    show ?thesis unfolding s' using pool_only [OF prewarm_step_conserves [OF g]] by simp
  qed
qed

text \<open>After any sequence of calls the addresses are still a part of those at the beginning.\<close>

lemma run_calls_conserves:
  "sys_inv env limit userMemory held s \<Longrightarrow> run_calls (sys_call env limit) cs s = Returns s'
   \<Longrightarrow> conserves free (sys_world s) (sys_out s @ owned (sys_pool s)) (sys_world s') (sys_out s' @ owned (sys_pool s'))"
proof (induction cs arbitrary: s)
  case (Cons c cs)
  from pool.call_returns [OF Cons.prems(1), of c] obtain s1
    where s1: "sys_call env limit c s = Returns s1" "sys_inv env limit userMemory held s1" by blast
  with Cons show ?case by (auto intro: conserves_trans [OF sys_call_conserves])
qed (simp add: conserves_refl)

end

section \<open>The docker factory provides the addresses\<close>

text \<open>
  The containers that \<open>main\<close> gives to the pool: the factory and the world of the daemon together are the
  world of the pool. \<open>base\<close> has what the pool calls beside the docker container's own methods (the firewall,
  the clock, the semaphore, the order of the maps) and the methods that only talk to the daemon or to the
  container's server; none of them reaches the factory.
\<close>

definition on_daemon :: "('d \<Rightarrow> 'a \<times> 'd) \<Rightarrow> ContainerFactory \<times> 'd \<Rightarrow> 'a \<times> ContainerFactory \<times> 'd" where
  "on_daemon f s = (case s of (fac, d) \<Rightarrow> case f d of (r, d') \<Rightarrow> (r, fac, d'))"

text \<open>A container that \<open>CreateContainer\<close> returned is attached to its log streams.\<close>

definition docker_container :: "Container \<Rightarrow> DockerContainer" where
  "docker_container c = \<lparr>dc_id = ctr_ID c, dc_ip = ctr_IP c, dc_attached = True\<rparr>"

lemma docker_container_ip [simp]: "dc_ip (docker_container c) = ctr_IP c"
  by (simp add: docker_container_def)

definition docker_containers :: "'d DockerOps \<Rightarrow> 'd ContainerOps \<Rightarrow> (ContainerFactory \<times> 'd) ContainerOps" where
  "docker_containers ops base =
     \<lparr>op_Initialize = \<lambda>c payload. on_daemon (op_Initialize base c payload),
      op_Run = \<lambda>c payload. on_daemon (op_Run base c payload),
      op_State = \<lambda>c. on_daemon (State ops (docker_container c)),
      op_Pause = \<lambda>c. on_daemon (Pause ops (docker_container c)),
      op_Unpause = \<lambda>c. on_daemon (Unpause ops (docker_container c)),
      op_Remove = \<lambda>c. Remove ops (docker_container c),
      op_PauseEventually = \<lambda>c grace s. (fst s, op_PauseEventually base c grace (snd s)),
      op_UnpauseIfNeeded = \<lambda>c. on_daemon (op_UnpauseIfNeeded base c)\<rparr>"

text \<open>
  \<open>CreateContainer\<close> as the pool calls it. It returns \<open>None\<close> only when \<open>fuel\<close> is smaller than the number of polls
  before the deadline of the context; what follows holds for every \<open>fuel\<close>.
\<close>

definition docker_create ::
  "nat \<Rightarrow> 'd DockerOps \<Rightarrow> string \<Rightarrow> ByteSize \<Rightarrow> string \<Rightarrow> ContainerFactory \<times> 'd \<Rightarrow> Container result \<times> ContainerFactory \<times> 'd" where
  "docker_create fuel ops kind memory name s =
     (case CreateContainer fuel ops kind memory name s of
        None \<Rightarrow> (Inl DeadlineExceeded, s)
      | Some (Inl err, s') \<Rightarrow> (Inl err, s')
      | Some (Inr c, s') \<Rightarrow> (Inr \<lparr>ctr_ID = dc_id c, ctr_IP = dc_ip c\<rparr>, s'))"

definition docker_env :: "nat \<Rightarrow> 'd DockerOps \<Rightarrow> ('d, 's) PoolEnv \<Rightarrow> (ContainerFactory \<times> 'd, 's) PoolEnv" where
  "docker_env fuel ops base =
     \<lparr>pe_containers = docker_containers ops (pe_containers base),
      pe_factory = \<lparr>op_CreateContainer = docker_create fuel ops\<rparr>,
      pe_firewall =
        \<lparr>op_NeedsPerContainerFirewallSetup = \<lambda>ns. on_daemon (op_NeedsPerContainerFirewallSetup (pe_firewall base) ns),
         op_SetupPerContainerFirewall = \<lambda>ip ns. on_daemon (op_SetupPerContainerFirewall (pe_firewall base) ip ns),
         op_FirewallCleanup = \<lambda>h. on_daemon (op_FirewallCleanup (pe_firewall base) h)\<rparr>,
      pe_Now = on_daemon (pe_Now base),
      pe_semaphore = pe_semaphore base,
      pe_idlesOrder = pe_idlesOrder base, pe_prewarmOrder = pe_prewarmOrder base,
      pe_manifestOrder = pe_manifestOrder base, pe_creationOrder = pe_creationOrder base\<rparr>"

definition free_ips :: "ContainerFactory \<times> 'd \<Rightarrow> string multiset" where
  "free_ips s = mset (cf_UsableIPs (fst s))"

lemma on_daemon_factory [simp]: "fst (snd (on_daemon f s)) = fst s"
  by (simp add: on_daemon_def split: prod.splits)

lemma docker_create_pays:
  fixes ops :: "'d DockerOps"
  shows "pays free_ips kept_created {#} (docker_create fuel ops kind memory name)"
  unfolding pays_def
proof
  fix s :: "ContainerFactory \<times> 'd"
  obtain f w where s: "s = (f, w)" by force
  show "free_ips (snd (docker_create fuel ops kind memory name s)) + kept_created (fst (docker_create fuel ops kind memory name s))
      \<subseteq># free_ips s + {#}"
  proof (cases "CreateContainer fuel ops kind memory name s")
    case None
    then show ?thesis by (simp add: docker_create_def kept_created_def)
  next
    case (Some res)
    obtain r f' w' where res: "res = (r, f', w')" by (metis prod_cases3)
    from CreateContainer_ips [of fuel ops kind memory name f w r f' w'] Some s res
    have "case r of Inr c \<Rightarrow> acquireIP f = (Inr (dc_ip c), f')
      | Inl e \<Rightarrow> mset (cf_UsableIPs f') = mset (cf_UsableIPs f) \<or> (\<exists>ip. mset (cf_UsableIPs f) = add_mset ip (mset (cf_UsableIPs f')))"
      by (auto split: sum.splits)
    with Some s res show ?thesis
      by (cases r) (auto simp: docker_create_def kept_created_def free_ips_def dest: ips.acquire_ok)
  qed
qed

lemma docker_remove_pays:
  fixes ops :: "'d DockerOps"
  shows "pays free_ips none {#ctr_IP c#} (Remove ops (docker_container c))"
  unfolding pays_def
proof
  fix s :: "ContainerFactory \<times> 'd"
  obtain f w where s: "s = (f, w)" by force
  obtain err f' w' where r: "Remove ops (docker_container c) (f, w) = (err, f', w')" by (metis prod_cases3)
  from Remove_ips [OF r] show "free_ips (snd (Remove ops (docker_container c) s)) + none (fst (Remove ops (docker_container c) s))
      \<subseteq># free_ips s + {#ctr_IP c#}"
    by (simp add: s r free_ips_def none_def ips.release_ok)
qed

interpretation docker_addresses: address_provider "docker_env fuel ops base" free_ips
  for fuel and ops :: "'d DockerOps" and base :: "('d, 's) PoolEnv"
  by unfold_locales
    (simp_all add: docker_env_def docker_containers_def docker_create_pays docker_remove_pays, simp_all add: free_ips_def)

lemma distinct_submset: "mset xs \<subseteq># mset ys \<Longrightarrow> distinct ys \<Longrightarrow> distinct xs \<and> set xs \<subseteq> set ys \<and> length xs \<le> length ys"
proof -
  assume sub: "mset xs \<subseteq># mset ys" and d: "distinct ys"
  obtain zs where "mset zs = mset ys - mset xs" using ex_mset by blast
  with sub have "mset ys = mset (xs @ zs)" by simp
  with d have "distinct (xs @ zs)" using mset_eq_imp_distinct_iff by blast
  with set_mset_mono [OF sub] size_mset_mono [OF sub] show ?thesis by simp
qed

lemma docker_env_ok: "env_ok base limit userMemory held \<Longrightarrow> env_ok (docker_env fuel ops base) limit userMemory held"
  by (simp add: env_ok_def docker_env_def)

text \<open>
  C3. The addresses of the containers are pairwise different, for every sequence of calls of the pool over the
  docker factory and however the daemon answers: the containers handed out, the idle, the prewarmed and the ones
  that wait for their deletion have different addresses, none of which is free; all of them are addresses the
  factory was given, so that there are never more containers than addresses.
\<close>

theorem pool_addresses_distinct:
  assumes "env_ok base limit userMemory held" and "unat userMemory < 2 ^ 63" and "held sem = 0"
    and "distinct (cf_UsableIPs f)"
    and "run_calls (sys_call (docker_env fuel ops base) limit) calls (new_system sem userMemory manifests (f, w)) = Returns s"
  shows "distinct (ips (sys_out s @ owned (sys_pool s)) @ cf_UsableIPs (fst (sys_world s))) \<and>
    set (ips (sys_out s @ owned (sys_pool s)) @ cf_UsableIPs (fst (sys_world s))) \<subseteq> set (cf_UsableIPs f) \<and>
    length (sys_out s @ owned (sys_pool s)) \<le> length (cf_UsableIPs f)"
proof -
  let ?s0 = "new_system sem userMemory manifests (f, w)"
  let ?all = "ips (sys_out s @ owned (sys_pool s)) @ cf_UsableIPs (fst (sys_world s))"
  have inv: "sys_inv (docker_env fuel ops base) limit userMemory held ?s0" by (rule new_system_inv [OF docker_env_ok [OF assms(1)] assms(2,3)])
  from docker_addresses.run_calls_conserves [OF inv assms(5)] have "mset ?all \<subseteq># mset (cf_UsableIPs f)"
    by (simp add: conserves_def free_ips_def new_system_def NewContainerPool_def owned_def ac_simps)
  from distinct_submset [OF this assms(4)] have "distinct ?all" "set ?all \<subseteq> set (cf_UsableIPs f)" "length ?all \<le> length (cf_UsableIPs f)" by auto
  then show ?thesis by (simp add: ips_def del: distinct_append set_append)
qed

theorem pool_addresses_distinct_witness:
  "\<exists>s. run_calls (sys_call (docker_env 30 example_docker (example_env 10)) (\<lambda>_. 5)) (take 3 example_calls)
       (new_system 0 10 [] (example_factory, 0)) = Returns s \<and>
     length (sys_out s) = 2 \<and> distinct (ips (sys_out s @ owned (sys_pool s)) @ cf_UsableIPs (fst (sys_world s)))"
proof -
  let ?r = "run_calls (sys_call (docker_env 30 example_docker (example_env 10)) (\<lambda>_. 5)) (take 3 example_calls)
       (new_system 0 10 [] (example_factory, 0))"
  have "(case ?r of Returns s \<Rightarrow> length (sys_out s) = 2 | _ \<Rightarrow> False)" by code_simp
  then obtain s where s: "?r = Returns s" and n: "length (sys_out s) = 2" by (auto split: outcome.splits)
  have "distinct (cf_UsableIPs example_factory)" by (simp add: example_factory_def)
  from pool_addresses_distinct [OF example_env_ok _ _ this s] n s show ?thesis by simp
qed

end
