(* ===== verification/Pool_Ownership.thy ===== *)
theory Pool_Ownership
  imports Pool_Interleaving Pool_Addresses
begin

text \<open>
  Who owns a container under concurrent calls. The interleaved pool of the theory \<open>Pool_Interleaving\<close> is
  composed with the docker factory: its addresses (\<open>acquireIP\<close> and \<open>releaseIP\<close>, each one atomic action), the
  calls of \<open>CreateContainer\<close> that have an address and no container yet, and the containers that some goroutine is
  removing. Beside exclusive ownership: the calls of the pool cannot block each other for ever.
\<close>

section \<open>The containers of a state\<close>

fun phase_containers :: "phase \<Rightarrow> PooledContainer list" where
  "phase_containers (Sending k ds) = ds"
| "phase_containers (Warming c) = [c]"
| "phase_containers (Holding c) = [c]"
| "phase_containers ph = []"

definition containers :: "PooledContainer list \<Rightarrow> Container multiset" where
  "containers cs = image_mset pc_Container (mset cs)"

definition held_containers :: "phase multiset \<Rightarrow> Container multiset" where
  "held_containers T = \<Sum>\<^sub># (image_mset (\<lambda>ph. containers (phase_containers ph)) T)"

text \<open>The containers that the pool's lists, the callers and the goroutines inside \<open>Get\<close> have.\<close>

definition all_containers :: "'s istate \<Rightarrow> Container multiset" where
  "all_containers s = (case s of (p, T) \<Rightarrow> containers (owned p) + held_containers T)"

lemma containers_simps [simp]:
  "containers [] = {#}" "containers (c # cs) = add_mset (pc_Container c) (containers cs)"
  "containers (xs @ ys) = containers xs + containers ys"
  by (simp_all add: containers_def)

lemma held_containers_simps [simp]:
  "held_containers {#} = {#}" "held_containers (add_mset ph T) = containers (phase_containers ph) + held_containers T"
  by (simp_all add: held_containers_def)

lemma containers_mset: "mset xs = mset ys \<Longrightarrow> containers xs = containers ys"
  by (simp add: containers_def)

lemma owned_containers:
  "containers (owned p) = containers (flat (idles p)) + containers (flat (prewarmed p)) + containers (containersToDeleteForSpace p)"
  by (simp add: owned_def)

lemma containers_flat_cut: "bucket m k = c # rest \<Longrightarrow> containers (flat m) = add_mset (pc_Container c) (containers (flat (AList.update k rest m)))"
  using mset_flat_cut [of m k "[c]" rest] by (simp add: containers_def)

lemma containers_flat_grow:
  "containers (flat (AList.update k (bucket m k @ [c]) m)) = add_mset (pc_Container c) (containers (flat m))"
  using arg_cong [OF mset_flat_grow [of k m "[c]"], of "image_mset pc_Container"] by (simp add: containers_def)

lemma put_idle_containers: "containers (owned (put_idle c p)) = add_mset (pc_Container c) (containers (owned p))"
  by (simp add: owned_containers put_idle_def containers_flat_grow)

text \<open>What one step does to the containers: it keeps them, drops some, or brings one more.\<close>

lemma section_warm_containers:
  assumes inv: "istate_inv sem ord limit userMemory held (p, add_mset (Counted k snapshot) T)"
    and sec: "idles_section ord k snapshot p = Returns (Warm c, p')"
  shows "containers (owned p) = add_mset (pc_Container c) (containers (owned p'))"
  using inv
proof (cases rule: section_interleaved)
  case (warm c' p'')
  with sec have eq: "c' = c" "p'' = p'" by simp_all
  note W = warm [unfolded eq]
  have "prewarmed p' = prewarmed p" "containersToDeleteForSpace p' = containersToDeleteForSpace p" by (subst W(3), simp)+
  with containers_mset [OF W(4)] show ?thesis by (simp add: owned_containers)
qed (use sec in simp)

lemma section_space_containers:
  assumes inv: "istate_inv sem ord limit userMemory held (p, add_mset (Counted k snapshot) T)"
    and sec: "idles_section ord k snapshot p = Returns (Space ds, p')"
  shows "containers (owned p) = containers ds + containers (owned p')"
  using inv
proof (cases rule: section_interleaved)
  case (space ds' p'')
  with sec have eq: "ds' = ds" "p'' = p'" by simp_all
  note S = space [unfolded eq]
  have "prewarmed p' = prewarmed p" "containersToDeleteForSpace p' = containersToDeleteForSpace p" by (subst S(3), simp)+
  moreover have "containers (flat (idles p)) = containers (ds @ flat (idles p'))" by (rule containers_mset) (simp add: S(5))
  ultimately show ?thesis by (simp add: owned_containers)
qed (use sec in simp)

lemma reap_containers:
  assumes inv: "istate_inv sem ord limit userMemory held (p, T)"
    and r: "reap_collect olderThan (ord (idles p)) p = (ds, p')"
  shows "containers (owned p) = containers ds + containers (owned p')"
proof -
  from reap_collect_props [OF r] inv
  have R: "mset (flat (idles p)) = mset ds + mset (flat (idles p'))"
    and p': "p' = p\<lparr>idles := idles p', idlesMemory := idlesMemory p'\<rparr>" by (auto simp: istate_inv_def istate_pool_def)
  have "prewarmed p' = prewarmed p" "containersToDeleteForSpace p' = containersToDeleteForSpace p" by (subst p', simp)+
  moreover have "containers (flat (idles p)) = containers (ds @ flat (idles p'))" by (rule containers_mset) (simp add: R)
  ultimately show ?thesis by (simp add: owned_containers)
qed

definition created :: "Container option \<Rightarrow> Container multiset" where
  "created c = (case c of None \<Rightarrow> {#} | Some ctr \<Rightarrow> {#ctr#})"

lemma created_simps [simp]: "created None = {#}" "created (Some ctr) = {#ctr#}"
  by (simp_all add: created_def)

lemma mset_containers: "mset (map pc_Container ds) = containers ds"
  by (simp add: containers_def)

lemma pool_lstep_containers:
  assumes inv: "istate_inv sem ord limit userMemory held s" and step: "pool_lstep sem ord limit (brought, gone) s s'"
  shows "all_containers s' + mset gone \<subseteq># all_containers s + created brought"
  using step
proof cases
  case (section_warm k snapshot p c p' T)
  with section_warm_containers [OF inv [unfolded section_warm(3)]] show ?thesis by (simp add: all_containers_def)
next
  case (section_space k snapshot p ds p' T)
  with section_space_containers [OF inv [unfolded section_space(3)]] show ?thesis by (simp add: all_containers_def)
next
  case (section_fails k snapshot p e p' T)
  show ?thesis
    by (rule section_interleaved [OF inv [unfolded section_fails(3)]]) (use section_fails(5) in simp_all)
next
  case (reap p olderThan ds p' T)
  with reap_containers [OF inv [unfolded reap(3)] reap(6)] show ?thesis by (simp add: all_containers_def mset_containers del: mset_map)
next
  case (take_prewarmed p kind k c rest T fw)
  with containers_flat_cut [OF take_prewarmed(5)] show ?thesis by (simp add: all_containers_def owned_containers)
next
  case (take_prewarmed_fails p kind k c rest T)
  with containers_flat_cut [OF take_prewarmed_fails(5)] show ?thesis by (simp add: all_containers_def owned_containers)
qed (auto simp: all_containers_def owned_containers put_idle_containers [unfolded owned_containers] containers_flat_grow
      new_pooled_def frame put_idle_def)

section \<open>The pool and the factory\<close>

text \<open>
  \<open>cc_starting\<close> are the addresses of the calls of \<open>CreateContainer\<close> under way, \<open>cc_removing\<close> the containers that
  left the pool and that some goroutine removes, \<open>cc_ids\<close> the IDs that docker has given out.
\<close>

record 's ConcurrentPool =
  cc_state :: "'s istate"
  cc_factory :: ContainerFactory
  cc_starting :: "string multiset"
  cc_removing :: "Container multiset"
  cc_ids :: "string set"

definition concurrent_new :: "'s \<Rightarrow> ByteSize \<Rightarrow> RuntimeManifests \<Rightarrow> ContainerFactory \<Rightarrow> 's ConcurrentPool" where
  "concurrent_new s0 userMemory manifests f =
     \<lparr>cc_state = (NewContainerPool s0 userMemory manifests, {#}), cc_factory = f, cc_starting = {#}, cc_removing = {#}, cc_ids = {}\<rparr>"

text \<open>
  Every step of the pool is a step here: the containers that its goroutine removes join \<open>cc_removing\<close>. A step that
  brings a new container is the end of a call of \<open>CreateContainer\<close>: the call had reserved the address that the container
  has, and docker has chosen an ID that it had not given out before. A call that fails gives its address back, unless
  docker could not remove what it had created; the same holds for a removal.
\<close>

inductive concurrent_step ::
  "'s SemaphoreOps \<Rightarrow> (idle_map \<Rightarrow> WarmContainerKey list) \<Rightarrow> (WarmContainerKey \<Rightarrow> ByteSize) \<Rightarrow> 's ConcurrentPool \<Rightarrow> 's ConcurrentPool \<Rightarrow> bool"
  for sem ord limit where
  pool: "pool_lstep sem ord limit (None, gone) (cc_state w) s'
    \<Longrightarrow> concurrent_step sem ord limit w (w\<lparr>cc_state := s', cc_removing := cc_removing w + mset gone\<rparr>)"
| pool_creates: "pool_lstep sem ord limit (Some ctr, gone) (cc_state w) s'
    \<Longrightarrow> cc_starting w = add_mset (ctr_IP ctr) rest \<Longrightarrow> ctr_ID ctr \<notin> cc_ids w
    \<Longrightarrow> concurrent_step sem ord limit w
          (w\<lparr>cc_state := s', cc_starting := rest, cc_ids := insert (ctr_ID ctr) (cc_ids w), cc_removing := cc_removing w + mset gone\<rparr>)"
| start: "acquireIP (cc_factory w) = (Inr ip, f)
    \<Longrightarrow> concurrent_step sem ord limit w (w\<lparr>cc_factory := f, cc_starting := add_mset ip (cc_starting w)\<rparr>)"
| start_fails: "cc_starting w = add_mset ip rest
    \<Longrightarrow> concurrent_step sem ord limit w (w\<lparr>cc_factory := releaseIP ip (cc_factory w), cc_starting := rest\<rparr>)"
| start_lost: "cc_starting w = add_mset ip rest \<Longrightarrow> concurrent_step sem ord limit w (w\<lparr>cc_starting := rest\<rparr>)"
| removed: "cc_removing w = add_mset c rest
    \<Longrightarrow> concurrent_step sem ord limit w (w\<lparr>cc_factory := releaseIP (ctr_IP c) (cc_factory w), cc_removing := rest\<rparr>)"
| remove_fails: "cc_removing w = add_mset c rest \<Longrightarrow> concurrent_step sem ord limit w (w\<lparr>cc_removing := rest\<rparr>)"

definition everything :: "'s ConcurrentPool \<Rightarrow> Container multiset" where
  "everything w = all_containers (cc_state w) + cc_removing w"

definition concurrent_inv ::
  "'s SemaphoreOps \<Rightarrow> (idle_map \<Rightarrow> WarmContainerKey list) \<Rightarrow> (WarmContainerKey \<Rightarrow> ByteSize) \<Rightarrow> ByteSize \<Rightarrow> ('s \<Rightarrow> int)
   \<Rightarrow> string list \<Rightarrow> 's ConcurrentPool \<Rightarrow> bool" where
  "concurrent_inv sem ord limit userMemory held addresses w =
     (istate_inv sem ord limit userMemory held (cc_state w) \<and> finite (cc_ids w) \<and>
      image_mset ctr_ID (everything w) \<subseteq># mset_set (cc_ids w) \<and>
      image_mset ctr_IP (everything w) + cc_starting w + mset (cf_UsableIPs (cc_factory w)) \<subseteq># mset addresses)"

text \<open>Containers that only move between the owners keep both parts of the invariant.\<close>

lemma subset_mset_image_trans: "M \<subseteq># N \<Longrightarrow> image_mset g N + R \<subseteq># A \<Longrightarrow> image_mset g M + R \<subseteq># A"
  by (meson image_mset_subseteq_mono subset_mset.add_right_mono subset_mset.order_trans)

lemma concurrent_inv_moves:
  assumes inv: "istate_inv sem ord limit userMemory held s'" "finite given"
    and le: "all_containers s' + R' \<subseteq># M" and ids: "image_mset ctr_ID M \<subseteq># mset_set given"
    and ips: "image_mset ctr_IP M + S + mset (cf_UsableIPs f) \<subseteq># mset addresses"
  shows "concurrent_inv sem ord limit userMemory held addresses
    \<lparr>cc_state = s', cc_factory = f, cc_starting = S, cc_removing = R', cc_ids = given\<rparr>"
  using inv subset_mset_image_trans [OF le, of ctr_ID "{#}"] subset_mset_image_trans [OF le, of ctr_IP "S + mset (cf_UsableIPs f)"] ids ips
  by (simp add: concurrent_inv_def everything_def ac_simps)

lemma pool_moves:
  assumes inv: "concurrent_inv sem ord limit userMemory held addresses w"
    and step: "pool_lstep sem ord limit (brought, gone) (cc_state w) s'"
  shows "istate_inv sem ord limit userMemory held s'"
    and "all_containers s' + (cc_removing w + mset gone) \<subseteq># everything w + created brought"
proof -
  have I: "istate_inv sem ord limit userMemory held (cc_state w)" using inv by (simp add: concurrent_inv_def)
  from pool_lstep_inv [OF I step] show "istate_inv sem ord limit userMemory held s'" .
  from subset_mset.add_right_mono [OF pool_lstep_containers [OF I step], of "cc_removing w"]
  show "all_containers s' + (cc_removing w + mset gone) \<subseteq># everything w + created brought" by (simp add: everything_def ac_simps)
qed

lemma concurrent_step_inv:
  assumes inv: "concurrent_inv sem ord limit userMemory held addresses w" and step: "concurrent_step sem ord limit w w'"
  shows "concurrent_inv sem ord limit userMemory held addresses w'"
  using step
proof cases
  case (pool gone s')
  note M = pool_moves [OF inv pool(2)]
  from concurrent_inv_moves [OF M(1) _ M(2), of "cc_ids w" "cc_starting w" "cc_factory w" addresses] inv show ?thesis
    unfolding pool(1) by (cases w) (simp add: concurrent_inv_def)
next
  case (pool_creates ctr gone s' rest)
  note M = pool_moves [OF inv pool_creates(2)]
  from concurrent_inv_moves [OF M(1) _ M(2), of "insert (ctr_ID ctr) (cc_ids w)" rest "cc_factory w" addresses] inv pool_creates(3,4)
  show ?thesis unfolding pool_creates(1) by (cases w) (simp add: concurrent_inv_def)
next
  case (start ip f)
  from ips.acquire_ok [OF start(2)] inv start(1) show ?thesis by (simp add: concurrent_inv_def everything_def)
next
  case (start_fails ip rest)
  with inv show ?thesis by (simp add: concurrent_inv_def everything_def ips.release_ok)
next
  case (start_lost ip rest)
  with inv show ?thesis by (auto simp: concurrent_inv_def everything_def dest: mset_subset_eq_insertD)
next
  case (removed c rest)
  with inv show ?thesis by (auto simp: concurrent_inv_def everything_def ips.release_ok dest: mset_subset_eq_insertD)
next
  case (remove_fails c rest)
  with inv show ?thesis by (auto simp: concurrent_inv_def everything_def dest: mset_subset_eq_insertD)
qed

interpretation concurrent: transition_system "concurrent_step sem ord limit" "concurrent_inv sem ord limit userMemory held addresses"
  for sem :: "'s SemaphoreOps" and ord limit userMemory held addresses
  by unfold_locales (rule concurrent_step_inv)

lemma concurrent_new_inv:
  assumes "istate_env sem ord limit userMemory held" and "held s0 = 0"
  shows "concurrent_inv sem ord limit userMemory held (cf_UsableIPs f) (concurrent_new s0 userMemory manifests f)"
  using new_pool_istate_inv [OF assms]
  by (simp add: concurrent_inv_def concurrent_new_def everything_def all_containers_def owned_def NewContainerPool_def)

lemma two_in_image:
  assumes "image_mset f M \<subseteq># N" and "\<And>x. count N x \<le> 1" and "{#c, d#} \<subseteq># M"
  shows "f c \<noteq> f d"
proof
  assume eq: "f c = f d"
  from image_mset_subseteq_mono [OF assms(3), of f] assms(1) have "{#f c, f d#} \<subseteq># N" by (simp add: subset_mset.order_trans)
  from mset_subset_eq_count [OF this, of "f c"] assms(2) [of "f c"] eq show False by simp
qed

lemma count_distinct_le_1: "distinct xs \<Longrightarrow> count (mset xs) x \<le> 1"
  by (simp add: distinct_count_atmost_1)

text \<open>
  C6. No container is shared, whatever the interleaving of concurrent calls, of the goroutines of the pool and of
  the factory, and whatever fails: any two containers that are idle, prewarmed, held by a caller, being unpaused,
  on their way to the deleter or being removed have different IDs and different addresses. A container's address is
  neither free nor reserved for another container, and it is one of those that the factory was given. So a container is
  never handed to two callers, and a caller's container is never evicted, reaped or removed under it.
\<close>

theorem interleaved_ownership:
  assumes "istate_env sem ord limit userMemory held" and "held s0 = 0" and "distinct (cf_UsableIPs f)"
    and "rtranclp (concurrent_step sem ord limit) (concurrent_new s0 userMemory manifests f) w"
  shows "(\<forall>c d. {#c, d#} \<subseteq># everything w \<longrightarrow> ctr_ID c \<noteq> ctr_ID d \<and> ctr_IP c \<noteq> ctr_IP d) \<and>
    (\<forall>c. c \<in># everything w \<longrightarrow> ctr_IP c \<in> set (cf_UsableIPs f) \<and>
       ctr_IP c \<notin> set (cf_UsableIPs (cc_factory w)) \<and> ctr_IP c \<notin># cc_starting w)"
proof -
  note inv = concurrent.reachable_inv [OF concurrent_new_inv [OF assms(1,2)] assms(4), unfolded concurrent_inv_def]
  have ids: "image_mset ctr_ID (everything w) \<subseteq># mset_set (cc_ids w)" using inv by blast
  have one: "count (mset (cf_UsableIPs f)) x \<le> 1" for x by (rule count_distinct_le_1 [OF assms(3)])
  let ?used = "image_mset ctr_IP (everything w)" and ?rest = "cc_starting w + mset (cf_UsableIPs (cc_factory w))"
  have all: "?used + ?rest \<subseteq># mset (cf_UsableIPs f)" using inv by (simp add: ac_simps)
  then have ips: "?used \<subseteq># mset (cf_UsableIPs f)" by (rule subset_mset.order_trans [rotated]) simp
  have free: "x \<notin># ?rest" if "x \<in># ?used" for x
  proof
    assume "x \<in># ?rest"
    with that have "0 < count ?used x" "0 < count ?rest x" by (simp_all only: count_greater_zero_iff)
    with mset_subset_eq_count [OF all, of x] one [of x] show False by (simp only: count_union)
  qed
  have "ctr_IP c \<in> set (cf_UsableIPs f)" if "c \<in># everything w" for c
    using set_mset_mono [OF ips] that by auto
  moreover have "ctr_ID c \<noteq> ctr_ID d" if "{#c, d#} \<subseteq># everything w" for c d
    by (rule two_in_image [OF ids _ that]) (simp add: count_mset_set')
  moreover have "ctr_IP c \<noteq> ctr_IP d" if "{#c, d#} \<subseteq># everything w" for c d
    by (rule two_in_image [OF ips one that])
  ultimately show ?thesis using free by auto
qed

text \<open>One cold \<open>Get\<close>: the container it hands out has the first address.\<close>

lemma quiet_step:
  "pool_lstep sem ord limit (None, []) (cc_state w) s' \<Longrightarrow> concurrent_step sem ord limit w (w\<lparr>cc_state := s'\<rparr>)"
  using concurrent_step.pool [of sem ord limit "[]" w s'] by simp

lemma race_pool_empty: "all_containers (race_pool [] im cr weight fl, T) = held_containers T"
  by (simp add: all_containers_def race_pool_def NewContainerPool_def owned_def)

definition example_owner :: "int ConcurrentPool" where
  "example_owner =
     \<lparr>cc_state = (race_pool [] 0 1 5 5, {#Holding (new_pooled \<lparr>ctr_ID = ''a'', ctr_IP = ''10.0.0.1''\<rparr> (example_key ''a'') 5)#}),
      cc_factory = example_factory\<lparr>cf_UsableIPs := [''10.0.0.2'']\<rparr>, cc_starting = {#}, cc_removing = {#}, cc_ids = {''a''}\<rparr>"

lemma example_owner_reached:
  "rtranclp (concurrent_step (example_semaphore 10) (map fst) (\<lambda>_. 5)) (concurrent_new 0 10 [] example_factory) example_owner"
proof -
  let ?step = "concurrent_step (example_semaphore 10) (map fst) (\<lambda>_. 5)"
  let ?k = "example_key ''a''" and ?c = "\<lparr>ctr_ID = ''a'', ctr_IP = ''10.0.0.1''\<rparr>" and ?f = "example_factory\<lparr>cf_UsableIPs := [''10.0.0.2'']\<rparr>"
  let ?w = "\<lambda>s. \<lparr>cc_state = s, cc_factory = ?f, cc_starting = {#''10.0.0.1''#}, cc_removing = {#}, cc_ids = {}\<rparr>"
  have quiet: "?step (?w s) (?w s')" if "race_lstep (None, []) s s'" for s s'
    using quiet_step [of "example_semaphore 10" "map fst" "\<lambda>_. 5" "?w s" s'] that by simp
  have s1: "?step (concurrent_new 0 10 [] example_factory) (?w (race_pool [] 0 0 0 0, {#}))"
    using concurrent_step.start [of "concurrent_new 0 10 [] example_factory" "''10.0.0.1''" ?f]
    by (simp add: concurrent_new_def acquireIP_def example_factory_def race_pool_def NewContainerPool_def)
  have s2: "?step (?w (race_pool [] 0 0 0 0, {#})) (?w (race_pool [] 0 0 5 0, {#Acquired ?k#}))"
    using race_step_acquire [of 0 "[]" 0 0 0 "{#}" ?k] by (intro quiet) simp
  have s3: "?step (?w (race_pool [] 0 0 5 0, {#Acquired ?k#})) (?w (race_pool [] 0 0 5 5, {#Counted ?k 5#}))"
    using race_step_count [of "[]" 0 0 5 0 ?k "{#}"] by (intro quiet) simp
  have s4: "?step (?w (race_pool [] 0 0 5 5, {#Counted ?k 5#})) (?w (race_pool [] 0 0 5 5, {#Sending ?k []#}))"
    using race_step_space [of "[]" ?k 0 5 0 5 5 "{#}"] by (intro quiet) simp
  have s5: "?step (?w (race_pool [] 0 0 5 5, {#Sending ?k []#})) (?w (race_pool [] 0 0 5 5, {#Creating ?k#}))"
    by (intro quiet pool_lstep.sent)
  have s6: "?step (?w (race_pool [] 0 0 5 5, {#Creating ?k#})) example_owner"
    using concurrent_step.pool_creates [where sem = "example_semaphore 10" and ord = "map fst" and limit = "\<lambda>_. 5" and gone = "[]"
        and w = "?w (race_pool [] 0 0 5 5, {#Creating ?k#})" and s' = "cc_state example_owner" and ctr = ?c and rest = "{#}"]
      race_step_create [of ?c "[]" 0 0 5 5 ?k "{#}"]
    by (simp add: example_owner_def)
  note step = converse_rtranclp_into_rtranclp [of ?step]
  show ?thesis by (rule step [OF s1], rule step [OF s2], rule step [OF s3], rule step [OF s4], rule step [OF s5], rule step [OF s6], rule rtranclp.rtrancl_refl)
qed

theorem interleaved_ownership_witness:
  "rtranclp (concurrent_step (example_semaphore 10) (map fst) (\<lambda>_. 5)) (concurrent_new 0 10 [] example_factory) example_owner \<and>
   ''10.0.0.1'' \<notin> set (cf_UsableIPs (cc_factory example_owner))"
proof -
  have "distinct (cf_UsableIPs example_factory)" by (simp add: example_factory_def)
  note own = interleaved_ownership [OF example_istate_env _ this example_owner_reached]
  have "\<lparr>ctr_ID = ''a'', ctr_IP = ''10.0.0.1''\<rparr> \<in># everything example_owner"
    by (simp add: everything_def example_owner_def race_pool_empty new_pooled_def)
  with own example_owner_reached show ?thesis by force
qed

section \<open>The calls can always finish\<close>

text \<open>The steps without their labels.\<close>

lemmas istep_count = pool_lstep.count [THEN pool_istepI]
lemmas istep_create_fails = pool_lstep.create_fails [THEN pool_istepI]
lemmas istep_delete = pool_lstep.delete [THEN pool_istepI]
lemmas istep_destroy = pool_lstep.destroy [THEN pool_istepI]
lemmas istep_release = pool_lstep.release [THEN pool_istepI]
lemmas istep_section_space = pool_lstep.section_space [THEN pool_istepI]
lemmas istep_section_warm = pool_lstep.section_warm [THEN pool_istepI]
lemmas istep_send = pool_lstep.send [THEN pool_istepI]
lemmas istep_sent = pool_lstep.sent [THEN pool_istepI]
lemmas istep_uncount = pool_lstep.uncount [THEN pool_istepI]
lemmas istep_warming_fails = pool_lstep.warming_fails [THEN pool_istepI]

text \<open>
  What is still to be done: the actions that each call has ahead of it, twice the number of containers that may have to
  be sent to the deleter, and once the number of those in its channel.
\<close>

fun phase_work :: "phase \<Rightarrow> nat" where
  "phase_work (Acquired k) = 6"
| "phase_work (Counted k snapshot) = 5"
| "phase_work (Sending k ds) = 4 + 2 * length ds"
| "phase_work (Returning m) = 2"
| "phase_work (Uncounted m) = 1"
| "phase_work ph = 3"

definition pool_work :: "'s ContainerPool \<Rightarrow> nat" where
  "pool_work p = 2 * length (flat (idles p)) + length (containersToDeleteForSpace p)"

definition calls_work :: "'s istate \<Rightarrow> nat" where
  "calls_work s = (case s of (p, T) \<Rightarrow> pool_work p + weigh phase_work T)"

lemma calls_work_simps [simp]:
  "calls_work (p, {#}) = pool_work p" "calls_work (p, add_mset ph T) = phase_work ph + calls_work (p, T)"
  by (simp_all add: calls_work_def)

lemma calls_work_pool: "calls_work (p, T) = pool_work p + weigh phase_work T"
  by (simp add: calls_work_def)

lemma counted_can_step:
  assumes inv: "istate_inv sem ord limit userMemory held (p, add_mset (Counted k snapshot) T)"
  shows "\<exists>s'. pool_istep sem ord limit (p, add_mset (Counted k snapshot) T) s' \<and> calls_work s' < calls_work (p, add_mset (Counted k snapshot) T)"
  using inv
proof (cases rule: section_interleaved)
  case (warm c p')
  have "containersToDeleteForSpace p' = containersToDeleteForSpace p" by (subst warm(3), simp)
  then have "pool_work p' < pool_work p" using arg_cong [OF warm(4), of size] by (simp add: pool_work_def)
  with istep_section_warm [OF warm(1), of sem limit T] show ?thesis
    by (intro exI conjI) (assumption, simp add: calls_work_pool)
next
  case (space ds p')
  have "containersToDeleteForSpace p' = containersToDeleteForSpace p" by (subst space(3), simp)
  then have "pool_work p' + 2 * length ds = pool_work p" using arg_cong [OF space(5), of size] by (simp add: pool_work_def)
  with istep_section_space [OF space(1), of sem limit T] show ?thesis
    by (intro exI conjI) (assumption, simp add: calls_work_pool)
qed

lemma sending_can_step:
  "\<exists>s'. pool_istep sem ord limit (p, add_mset (Sending k ds) T) s' \<and> calls_work s' < calls_work (p, add_mset (Sending k ds) T)"
proof (cases ds)
  case Nil
  from istep_sent [of sem ord limit p k T] Nil show ?thesis by (intro exI conjI) (simp, simp)
next
  case (Cons d ds')
  show ?thesis
  proof (cases "length (containersToDeleteForSpace p) < deleteBuffer")
    case True
    from istep_send [OF True, of sem ord limit k d ds' T] show ?thesis unfolding Cons
      by (intro exI conjI) (assumption, simp add: calls_work_pool pool_work_def)
  next
    case False
    then obtain x xs where q: "containersToDeleteForSpace p = x # xs" by (cases "containersToDeleteForSpace p") (auto simp: deleteBuffer_def)
    from istep_delete [OF q, of sem ord limit "add_mset (Sending k ds) T"] show ?thesis
      by (intro exI conjI) (assumption, simp add: calls_work_pool pool_work_def q)
  qed
qed

lemma call_can_step:
  assumes inv: "istate_inv sem ord limit userMemory held (p, add_mset ph T)"
  shows "\<exists>s'. pool_istep sem ord limit (p, add_mset ph T) s' \<and> calls_work s' < calls_work (p, add_mset ph T)"
proof -
  have eq: "calls_work (p\<lparr>inFlightMemory := x\<rparr>, T) = calls_work (p, T)" "calls_work (p\<lparr>containersCreated := n\<rparr>, T) = calls_work (p, T)"
    "calls_work (p\<lparr>inFlight := y\<rparr>, T) = calls_work (p, T)" for x n y by (simp_all add: calls_work_pool pool_work_def)
  show ?thesis
  proof (cases ph)
    case (Acquired k)
    from istep_count [of sem ord limit p k T] show ?thesis unfolding Acquired by (intro exI conjI) (assumption, simp add: eq)
  next
    case (Counted k snapshot)
    with inv counted_can_step show ?thesis by blast
  next
    case (Sending k ds)
    with sending_can_step show ?thesis by blast
  next
    case (Creating k)
    from istep_create_fails [of sem ord limit p k T] show ?thesis unfolding Creating by (intro exI conjI) (assumption, simp add: eq)
  next
    case (Warming c)
    from istep_warming_fails [of sem ord limit p c T] show ?thesis unfolding Warming by (intro exI conjI) (assumption, simp)
  next
    case (Holding c)
    from istep_destroy [of sem ord limit p c T] show ?thesis unfolding Holding by (intro exI conjI) (assumption, simp)
  next
    case (Returning m)
    from istep_uncount [of sem ord limit p m T] show ?thesis unfolding Returning by (intro exI conjI) (assumption, simp add: eq)
  next
    case (Uncounted m)
    from istep_release [of sem ord limit p m T] show ?thesis unfolding Uncounted by (intro exI conjI) (assumption, simp add: eq)
  qed
qed

lemma calls_end:
  "istate_inv sem ord limit userMemory held s
   \<Longrightarrow> \<exists>p'. rtranclp (pool_istep sem ord limit) s (p', {#}) \<and> istate_inv sem ord limit userMemory held (p', {#})"
proof (induction "calls_work s" arbitrary: s rule: less_induct)
  case less
  obtain p T where s: "s = (p, T)" by force
  show ?case
  proof (cases T)
    case empty
    with less.prems s show ?thesis by blast
  next
    case (add ph T')
    with call_can_step [of sem ord limit userMemory held p ph T'] less.prems s obtain s1
      where s1: "pool_istep sem ord limit s s1" "calls_work s1 < calls_work s" by auto
    from less.hyps [OF s1(2) pool_istep_inv [OF less.prems s1(1)]] s1(1) show ?thesis
      by (meson converse_rtranclp_into_rtranclp)
  qed
qed

text \<open>
  C7. The calls of the pool never block each other for good. From every reachable interleaving all calls under way can
  still finish, once their callers give their containers back: no lock and no full channel to the deleter stands in their
  way for ever. (A call that still waits for its memory has had no effect.) When they have finished, nothing is left in flight and the semaphore has
  all its weight again.
\<close>

theorem interleaved_calls_finish:
  assumes "istate_env sem ord limit userMemory held" and "held s0 = 0"
    and "rtranclp (pool_istep sem ord limit) (NewContainerPool s0 userMemory manifests, {#}) (p, T)"
  shows "\<exists>p'. rtranclp (pool_istep sem ord limit) (p, T) (p', {#}) \<and> inFlightMemory p' = 0 \<and> held (inFlight p') = 0 \<and>
    mem_sum (flat (idles p')) \<le> 2 * unat userMemory"
proof -
  note inv = interleaved.reachable_inv [OF new_pool_istate_inv [OF assms(1,2), of manifests] assms(3)]
  from calls_end [OF inv] obtain p' where p': "rtranclp (pool_istep sem ord limit) (p, T) (p', {#})"
    and "istate_inv sem ord limit userMemory held (p', {#})" by blast
  then have "unat (inFlightMemory p') = 0" "held (inFlight p') = 0" "mem_sum (flat (idles p')) \<le> 2 * unat userMemory"
    by (simp_all add: istate_inv_def)
  with p' show ?thesis by (auto simp: unat_eq_zero)
qed

theorem interleaved_calls_finish_witness:
  "\<exists>p'. rtranclp race_step (race_pool [] 0 0 5 5, {#Counted (example_key ''a'') 5#}) (p', {#}) \<and> inFlightMemory p' = 0"
  using interleaved_calls_finish [OF example_istate_env _ race_counted [unfolded race_reaches_def]] by auto

end
