(* ===== verification/Base64.thy ===== *)
theory Base64
  imports Go_Errors
begin

text \<open>
  Go's \<open>encoding/base64\<close> as far as the invoker uses it: \<open>StdEncoding\<close> and \<open>URLEncoding\<close>, both
  padded and not strict. Decoding skips line ends wherever they are; the error of a corrupt
  input does not carry its position here. The two alphabets share their laws through the
  locale \<open>base64_alphabet\<close>.
\<close>

definition alphabet_start :: string where
  "alphabet_start = ''ABCDEFGHIJKLMNOPQRSTUVWXYZabcdefghijklmnopqrstuvwxyz0123456789''"

definition StdEncoding :: string where "StdEncoding = alphabet_start @ ''+/''"
definition URLEncoding :: string where "URLEncoding = alphabet_start @ ''-_''"

definition padChar :: char where "padChar = CHR ''=''"

definition byte_val :: "char \<Rightarrow> nat" where "byte_val c = of_char c"

section \<open>Encoding\<close>

definition sextets :: "nat \<Rightarrow> nat list" where
  "sextets n = [n div 262144 mod 64, n div 4096 mod 64, n div 64 mod 64, n mod 64]"

fun EncodeToString :: "string \<Rightarrow> bytes \<Rightarrow> string" where
  "EncodeToString alpha [] = []"
| "EncodeToString alpha [a] =
     map ((!) alpha) (take 2 (sextets (byte_val a * 65536))) @ [padChar, padChar]"
| "EncodeToString alpha [a, b] =
     map ((!) alpha) (take 3 (sextets (byte_val a * 65536 + byte_val b * 256))) @ [padChar]"
| "EncodeToString alpha (a # b # c # rest) =
     map ((!) alpha) (sextets (byte_val a * 65536 + byte_val b * 256 + byte_val c)) @ EncodeToString alpha rest"

section \<open>Decoding\<close>

definition decode_map :: "string \<Rightarrow> char \<Rightarrow> nat option" where
  "decode_map alpha c = map_of (zip alpha [0..<64]) c"

definition octets :: "nat list \<Rightarrow> bytes" where
  "octets ds =
     (let n = ds ! 0 * 262144 + ds ! 1 * 4096 + ds ! 2 * 64 + ds ! 3
      in [char_of (n div 65536), char_of (n div 256 mod 256), char_of (n mod 256)])"

definition CorruptInputError :: go_error where
  "CorruptInputError = ErrorString ''illegal base64 data at input byte''"

text \<open>The end of the input after padding: anything left is an error, but what was decoded is written.\<close>

definition trailing :: "bytes \<Rightarrow> go_error option" where
  "trailing rest = (if rest = [] then None else Some CorruptInputError)"

text \<open>\<open>decodeQuantum\<close>, repeated: the bytes that are written before the end or the error.\<close>

fun decode_quanta :: "string \<Rightarrow> string \<Rightarrow> bytes \<times> go_error option" where
  "decode_quanta alpha [] = ([], None)"
| "decode_quanta alpha (c0 # c1 # c2 # c3 # rest) =
     (case (decode_map alpha c0, decode_map alpha c1) of
        (Some d0, Some d1) \<Rightarrow>
          (case decode_map alpha c2 of
             Some d2 \<Rightarrow>
               (case decode_map alpha c3 of
                  Some d3 \<Rightarrow>
                    (let (bs, err) = decode_quanta alpha rest in (octets [d0, d1, d2, d3] @ bs, err))
                | None \<Rightarrow>
                    (if c3 = padChar then (take 2 (octets [d0, d1, d2, 0]), trailing rest)
                     else ([], Some CorruptInputError)))
           | None \<Rightarrow>
               (if c2 = padChar \<and> c3 = padChar then (take 1 (octets [d0, d1, 0, 0]), trailing rest)
                else ([], Some CorruptInputError)))
      | _ \<Rightarrow> ([], Some CorruptInputError))"
| "decode_quanta alpha _ = ([], Some CorruptInputError)"

definition line_end :: "char \<Rightarrow> bool" where
  "line_end c = (c = CHR 0x0A \<or> c = CHR 0x0D)"

definition base64_decode :: "string \<Rightarrow> string \<Rightarrow> bytes \<times> go_error option" where
  "base64_decode alpha input = decode_quanta alpha (filter (\<lambda>c. \<not> line_end c) input)"

text \<open>
  \<open>Encoding.Decode\<close> into a buffer of \<open>n\<close> zero bytes: the number of bytes, the error and the buffer;
  a write past the end of the buffer panics.
\<close>

definition Decode_into :: "string \<Rightarrow> nat \<Rightarrow> string \<Rightarrow> (nat \<times> go_error option \<times> bytes) outcome" where
  "Decode_into alpha n input =
     (let (bs, err) = base64_decode alpha input in
      if n < length bs then Panics ''index out of range''
      else Returns (length bs, err, bs @ replicate (n - length bs) (CHR 0x00)))"

text \<open>\<open>Encoding.DecodeString\<close>.\<close>

definition DecodeString :: "string \<Rightarrow> string \<Rightarrow> bytes result" where
  "DecodeString alpha input =
     (let (bs, err) = base64_decode alpha input in case err of Some e \<Rightarrow> Inl e | None \<Rightarrow> Inr bs)"

section \<open>Decoding what was encoded\<close>

lemma byte_val_less: "byte_val c < 256"
  by (simp add: byte_val_def)

lemma char_of_byte_val [simp]: "char_of (byte_val c) = c"
  by (simp add: byte_val_def)

lemma octets_value:
  "d0 * 262144 + d1 * 4096 + d2 * 64 + d3 = n \<Longrightarrow>
   octets [d0, d1, d2, d3] = [char_of (n div 65536), char_of (n div 256 mod 256), char_of (n mod 256)]"
  by (auto simp: octets_def Let_def)

lemma sextets_value:
  fixes n :: nat
  assumes "n < 16777216"
  shows "n div 262144 mod 64 * 262144 + n div 4096 mod 64 * 4096 + n div 64 mod 64 * 64 + n mod 64 = n"
proof -
  have d: "n div 4096 = n div 64 div 64" "n div 262144 = n div 64 div 64 div 64"
    by (simp_all add: div_mult2_eq [symmetric])
  have "n div 64 div 64 div 64 < 64" using assms by (simp add: div_mult2_eq [symmetric] less_mult_imp_div_less)
  then have m: "n div 64 div 64 div 64 mod 64 = n div 64 div 64 div 64" by simp
  show ?thesis
    using div_mult_mod_eq [of n 64] div_mult_mod_eq [of "n div 64" 64] div_mult_mod_eq [of "n div 64 div 64" 64]
    unfolding d m by linarith
qed

lemma sextets_octets:
  assumes "n < 16777216"
  shows "octets (sextets n) = [char_of (n div 65536), char_of (n div 256 mod 256), char_of (n mod 256)]"
  unfolding sextets_def by (rule octets_value [OF sextets_value [OF assms]])

lemma sextets_short:
  "sextets (a * 65536) = [sextets (a * 65536) ! 0, sextets (a * 65536) ! 1, 0, 0]"
  "sextets (a * 65536 + b * 256) =
     [sextets (a * 65536 + b * 256) ! 0, sextets (a * 65536 + b * 256) ! 1, sextets (a * 65536 + b * 256) ! 2, 0]"
proof -
  have "a * 65536 = a * 1024 * 64" "a * 1024 = a * 16 * 64" "a * 65536 + b * 256 = (a * 1024 + b * 4) * 64" by simp_all
  then have "a * 65536 mod 64 = 0" "a * 65536 div 64 mod 64 = 0" "(a * 65536 + b * 256) mod 64 = 0"
    by (metis mod_mult_self2_is_0, metis mod_mult_self2_is_0 nonzero_mult_div_cancel_right zero_neq_numeral, metis mod_mult_self2_is_0)
  then show "sextets (a * 65536) = [sextets (a * 65536) ! 0, sextets (a * 65536) ! 1, 0, 0]"
    "sextets (a * 65536 + b * 256) =
     [sextets (a * 65536 + b * 256) ! 0, sextets (a * 65536 + b * 256) ! 1, sextets (a * 65536 + b * 256) ! 2, 0]"
    by (simp_all add: sextets_def)
qed

lemma sextets_less: "d \<in> set (sextets n) \<Longrightarrow> d < 64"
  by (auto simp: sextets_def)

lemma octets_bytes:
  assumes "a < 256" "b < 256" "c < 256"
  shows "octets (sextets (a * 65536 + b * 256 + c)) = [char_of a, char_of b, char_of c]"
proof -
  have n: "a * 65536 + b * 256 + c < 16777216" using assms by simp
  have e: "a * 65536 + b * 256 + c = c + 256 * (b + 256 * a)" by simp
  have "(a * 65536 + b * 256 + c) div 256 = b + 256 * a" unfolding e using assms by simp
  moreover have "(a * 65536 + b * 256 + c) div 65536 = (a * 65536 + b * 256 + c) div 256 div 256"
    by (simp add: div_mult2_eq [symmetric])
  moreover have "(a * 65536 + b * 256 + c) mod 256 = c" unfolding e using assms by (simp only: mod_mult_self2) simp
  ultimately have "(a * 65536 + b * 256 + c) div 65536 = a" "(a * 65536 + b * 256 + c) div 256 mod 256 = b"
    "(a * 65536 + b * 256 + c) mod 256 = c" using assms by simp_all
  with sextets_octets [OF n] show ?thesis by simp
qed

lemma triple_induct [case_names Nil One Two Three]:
  "P [] \<Longrightarrow> (\<And>a :: char. P [a]) \<Longrightarrow> (\<And>a b. P [a, b]) \<Longrightarrow> (\<And>a b c rest. P rest \<Longrightarrow> P (a # b # c # rest)) \<Longrightarrow> P bs"
  by (rule EncodeToString.induct [where P = "\<lambda>_. P"])

locale base64_alphabet =
  fixes alpha :: string
  assumes alpha_length: "length alpha = 64" and alpha_distinct: "distinct alpha"
    and alpha_pad: "padChar \<notin> set alpha" and alpha_line: "\<not> list_ex line_end alpha"
begin

lemma decode_map_alpha [simp]: "d < 64 \<Longrightarrow> decode_map alpha (alpha ! d) = Some d"
  using alpha_length alpha_distinct map_of_zip_nth [of alpha "[0..<64]" d] by (simp add: decode_map_def)

lemma decode_map_pad [simp]: "decode_map alpha padChar = None"
  using alpha_pad alpha_length by (auto simp: decode_map_def map_of_eq_None_iff dest: set_zip_leftD)

lemma decode_quantum:
  assumes "ds = [d0, d1, d2, d3]" and "\<And>d. d \<in> set ds \<Longrightarrow> d < 64"
  shows "decode_quanta alpha (map ((!) alpha) ds @ rest) =
    (octets ds @ fst (decode_quanta alpha rest), snd (decode_quanta alpha rest))"
  using assms by (simp add: split_beta)

lemma sextets_list: "sextets n = [sextets n ! 0, sextets n ! 1, sextets n ! 2, sextets n ! 3]"
  by (simp add: sextets_def)

lemma sextet_less [simp]: "i < 4 \<Longrightarrow> sextets n ! i < 64"
  by (rule sextets_less [of _ n], rule nth_mem) (simp add: sextets_def)

lemma decode_encode: "decode_quanta alpha (EncodeToString alpha bs) = (bs, None)"
proof (induction bs rule: triple_induct)
  case (One a)
  let ?n = "byte_val a * 65536"
  have "take 1 (octets [sextets ?n ! 0, sextets ?n ! 1, 0, 0]) = [a]"
    using octets_bytes [OF byte_val_less [of a], of 0 0] sextets_short(1) [of "byte_val a"] by simp
  moreover have "take 2 (sextets ?n) = [sextets ?n ! 0, sextets ?n ! 1]" by (subst sextets_list) simp
  ultimately show ?case by (simp add: trailing_def)
next
  case (Two a b)
  let ?n = "byte_val a * 65536 + byte_val b * 256"
  have "take 2 (octets [sextets ?n ! 0, sextets ?n ! 1, sextets ?n ! 2, 0]) = [a, b]"
    using octets_bytes [OF byte_val_less [of a] byte_val_less [of b], of 0]
      sextets_short(2) [of "byte_val a" "byte_val b"] by simp
  moreover have "take 3 (sextets ?n) = [sextets ?n ! 0, sextets ?n ! 1, sextets ?n ! 2]" by (subst sextets_list) simp
  ultimately show ?case by (simp add: trailing_def)
next
  case (Three a b c rest)
  have "octets (sextets (byte_val a * 65536 + byte_val b * 256 + byte_val c)) = [a, b, c]"
    using octets_bytes [OF byte_val_less [of a] byte_val_less [of b] byte_val_less [of c]] by simp
  with Three show ?case
    by (simp only: EncodeToString.simps decode_quantum [OF sextets_list sextets_less]) simp
qed simp

lemma encode_line_free: "\<forall>c \<in> set (EncodeToString alpha bs). \<not> line_end c"
proof (induction bs rule: triple_induct)
  case (Three a b c rest)
  then show ?case
    using alpha_line alpha_length nth_mem [of _ alpha] by (fastforce simp: list_ex_iff dest: sextets_less)
qed (use alpha_line alpha_length nth_mem [of _ alpha] in
      \<open>fastforce simp: list_ex_iff padChar_def line_end_def dest: sextets_less in_set_takeD\<close>)+

lemma base64_decode_encode: "base64_decode alpha (EncodeToString alpha bs) = (bs, None)"
  using encode_line_free [of bs] decode_encode [of bs] by (simp add: base64_decode_def filter_id_conv)

lemma DecodeString_EncodeToString: "DecodeString alpha (EncodeToString alpha bs) = Inr bs"
  by (simp add: DecodeString_def base64_decode_encode)

lemma Decode_into_EncodeToString:
  "Decode_into alpha n (EncodeToString alpha bs) =
     (if n < length bs then Panics ''index out of range''
      else Returns (length bs, None, bs @ replicate (n - length bs) (CHR 0x00)))"
  by (simp add: Decode_into_def base64_decode_encode)

end

interpretation std: base64_alphabet StdEncoding
  by unfold_locales code_simp+

interpretation url: base64_alphabet URLEncoding
  by unfold_locales code_simp+

end
