(* ===== verification/Entities.thy ===== *)
theory Entities
  imports Container Base64 "HOL-Library.List_Lexorder" "HOL-Library.Char_ord"
begin

text \<open>
  \<open>pkg/entities\<close>: activations, functions, their limits and annotations. The records follow
  the structs; \<open>any\<close> covers the values that annotations hold after JSON decoding and the
  ones the invoker adds itself.
\<close>

section \<open>Limits and annotations\<close>

record Limits =
  lim_Timeout :: Duration
  lim_Memory :: ByteSize
  lim_Logs :: ByteSize

text \<open>A decoded JSON number is a finite \<open>float64\<close>: a mantissa and a power of two.\<close>

datatype any =
    ABool bool
  | AFloat int int
  | AString string
  | ANil
  | AComposite bytes
  | AInt int
  | ALimits Limits

type_synonym Annotations = "(string \<times> any) list"

definition IsTruthy :: "Annotations \<Rightarrow> string \<Rightarrow> bool \<Rightarrow> bool" where
  "IsTruthy a key valueForNonExistent =
     (case map_of a key of
        None \<Rightarrow> valueForNonExistent
      | Some val \<Rightarrow>
          (case val of
             ABool v \<Rightarrow> v
           | AFloat m e \<Rightarrow> m \<noteq> 0
           | AString v \<Rightarrow> v \<noteq> ''''
           | ANil \<Rightarrow> False
           | _ \<Rightarrow> True))"

text \<open>\<open>Annotations.UnmarshalJSON\<close> after the list was parsed: the last value of a key counts.\<close>

fun annotations_of_list :: "(string \<times> any) list \<Rightarrow> Annotations \<Rightarrow> Annotations" where
  "annotations_of_list [] annos = annos"
| "annotations_of_list ((k, v) # list) annos = annotations_of_list list (AList.update k v annos)"

definition Annotations_UnmarshalJSON :: "(string \<times> any) list result \<Rightarrow> Annotations \<Rightarrow> go_error option \<times> Annotations" where
  "Annotations_UnmarshalJSON parsed a =
     (case parsed of Inl err \<Rightarrow> (Some err, a) | Inr list \<Rightarrow> (None, annotations_of_list list []))"

text \<open>
  \<open>Annotations.MarshalJSON\<close>: the list that is marshalled. \<open>order\<close> is the order in which the map is
  ranged over; strings compare bytewise, as in Go.
\<close>

definition Annotations_list :: "(Annotations \<Rightarrow> string list) \<Rightarrow> Annotations \<Rightarrow> (string \<times> any) list" where
  "Annotations_list order a = sort_key fst (map (\<lambda>k. (k, the (map_of a k))) (order a))"

text \<open>\<open>Limits.MarshalJSON\<close> and \<open>UnmarshalJSON\<close> (\<open>get\<close> is the third-party parser's \<open>GetInt64\<close>).
  The multiplications wrap at 64 bits.\<close>

definition Limits_MarshalJSON :: "Limits \<Rightarrow> bytes" where
  "Limits_MarshalJSON l =
     ''{\"timeout\":'' @ fmt_i (Milliseconds (lim_Timeout l))
     @ '',\"memory\":'' @ fmt_d (unat (lim_Memory l div Megabyte))
     @ '',\"logs\":'' @ fmt_d (unat (lim_Logs l div Kilobyte)) @ ''}''"

definition Limits_UnmarshalJSON :: "(string \<Rightarrow> int) result \<Rightarrow> Limits \<Rightarrow> go_error option \<times> Limits" where
  "Limits_UnmarshalJSON parsed l =
     (case parsed of
        Inl err \<Rightarrow> (Some err, l)
      | Inr get \<Rightarrow>
          (None, \<lparr>lim_Timeout = sint (of_int (get ''timeout'' * Millisecond) :: 64 word),
                  lim_Memory = of_int (get ''memory'') * Megabyte,
                  lim_Logs = of_int (get ''logs'') * Kilobyte\<rparr>))"

section \<open>Functions\<close>

record FunctionCode =
  fc_Resolved :: string
  fc_AttachmentID :: string
  fc_IsBinary :: bool

record Exec =
  exec_Kind :: string
  exec_Code :: FunctionCode
  exec_Main :: string
  exec_Binary :: bool

record Function =
  fn_Name :: string
  fn_Namespace :: string
  fn_Exec :: Exec
  fn_Annotations :: Annotations
  fn_Limits :: Limits

subsection \<open>The code of a function\<close>

text \<open>What \<open>UnmarshalJSON\<close> reads from the value that the third-party parser gives it.\<close>

record CodeValue =
  cv_IsString :: bool
  cv_String :: bytes
  cv_attachmentName :: bytes
  cv_attachmentType :: bytes
  cv_length :: int

definition memPrefix :: bytes where "memPrefix = ''mem:''"
definition couchPrefix :: bytes where "couchPrefix = ''couch:''"
definition binaryType :: bytes where "binaryType = ''application/octet-stream''"

definition FunctionCode_UnmarshalJSON :: "CodeValue result \<Rightarrow> FunctionCode \<Rightarrow> (go_error option \<times> FunctionCode) outcome" where
  "FunctionCode_UnmarshalJSON parsed c =
     (case parsed of
        Inl err \<Rightarrow> Returns (Some (Errorf ''failed to parse code: %w'' [err]), c)
      | Inr v \<Rightarrow>
          (if cv_IsString v then Returns (None, c\<lparr>fc_Resolved := cv_String v\<rparr>)
           else
             (let name = cv_attachmentName v; isBinary = (cv_attachmentType v = binaryType) in
              if HasPrefix name memPrefix then
                (if cv_length v = 0 then Returns (None, c\<lparr>fc_Resolved := ''''\<rparr>)
                 else if cv_length v < 0 then Panics ''makeslice: len out of range''
                 else
                   (case Decode_into URLEncoding (nat (cv_length v)) (TrimPrefix name memPrefix) of
                      Returns (n, err, decoded) \<Rightarrow>
                        (case err of
                           Some e \<Rightarrow> Returns (Some (Errorf ''failed to base64 decode inlined attachment: %w'' [e]), c)
                         | None \<Rightarrow>
                             (if isBinary then Returns (None, c\<lparr>fc_Resolved := EncodeToString StdEncoding (take n decoded)\<rparr>)
                              else Returns (None, c\<lparr>fc_Resolved := decoded\<rparr>)))
                    | Panics m \<Rightarrow> Panics m
                    | Blocks \<Rightarrow> Blocks))
              else Returns (None, c\<lparr>fc_AttachmentID := TrimPrefix name couchPrefix, fc_IsBinary := isBinary\<rparr>))))"

section \<open>Activations\<close>

datatype ActivationStatusCode = Success | ApplicationError | DeveloperError | SystemError

fun status_number :: "ActivationStatusCode \<Rightarrow> int" where
  "status_number Success = 0"
| "status_number ApplicationError = 1"
| "status_number DeveloperError = 2"
| "status_number SystemError = 3"

fun ActivationStatusCode_String :: "ActivationStatusCode \<Rightarrow> string" where
  "ActivationStatusCode_String Success = ''success''"
| "ActivationStatusCode_String ApplicationError = ''application error''"
| "ActivationStatusCode_String DeveloperError = ''developer error''"
| "ActivationStatusCode_String SystemError = ''internal error''"

record ActivationFunction =
  af_Name :: string
  af_Version :: string
  af_Path :: string
  af_Kind :: string
  af_Entrypoint :: string
  af_Limits :: Limits
  af_Binding :: string

text \<open>A nil \<open>Result\<close> is the empty message.\<close>

record ActivationResponse =
  ar_Result :: bytes
  ar_Error :: string
  ar_StatusCode :: ActivationStatusCode

record Activation =
  act_ActivationID :: string
  act_Namespace :: string
  act_Subject :: string
  act_Cause :: string
  act_Annotations :: Annotations
  act_Function :: ActivationFunction
  act_Start :: Time
  act_End :: Time
  act_IsTimeout :: bool
  act_InitTime :: Duration
  act_WaitTime :: Duration
  act_Response :: ActivationResponse
  act_Logs :: "string list"

subsection \<open>Marshalling an activation\<close>

text \<open>
  The values that are handed to \<open>json.Marshal\<close>. \<open>gbs\<close> is \<open>units.GigabyteSeconds\<close> (floating point),
  \<open>marshal\<close> is \<open>json.Marshal\<close> on the error object.
\<close>

datatype json =
    JString string
  | JBoolean bool
  | JInt int
  | JRawMessage bytes
  | JStrings "string list"
  | JAnnotations "(string \<times> any) list"
  | JObject "(string \<times> json) list"

definition Activation_GigabyteSeconds :: "(ByteSize \<Rightarrow> Duration \<Rightarrow> any) \<Rightarrow> Activation \<Rightarrow> any" where
  "Activation_GigabyteSeconds gbs a =
     (if HasPrefix (af_Path (act_Function a)) ''fnsystem/builder'' then AFloat 0 0
      else gbs (lim_Memory (af_Limits (act_Function a))) (act_End a - act_Start a))"

text \<open>The annotations are a map that the caller shares (unless it was nil), so they are part of the result.\<close>

definition schema_annotations :: "(ByteSize \<Rightarrow> Duration \<Rightarrow> any) \<Rightarrow> Activation \<Rightarrow> Annotations" where
  "schema_annotations gbs a =
     (let f = act_Function a;
          a1 = AList.update ''path'' (AString (af_Path f)) (act_Annotations a);
          a2 = AList.update ''kind'' (AString (af_Kind f)) a1;
          a3 = AList.update ''entry'' (AString (af_Entrypoint f)) a2;
          a4 = AList.update ''limits'' (ALimits (af_Limits f)) a3;
          a5 = (if af_Binding f \<noteq> '''' then AList.update ''binding'' (AString (af_Binding f)) a4 else a4);
          a6 = AList.update ''timeout'' (ABool (act_IsTimeout a)) a5;
          a7 = AList.update ''gbs'' (Activation_GigabyteSeconds gbs a) a6;
          a8 = (if act_WaitTime a > 0 then AList.update ''waitTime'' (AInt (Milliseconds (act_WaitTime a))) a7 else a7)
      in if act_InitTime a > 0 then AList.update ''initTime'' (AInt (Milliseconds (act_InitTime a))) a8 else a8)"

definition activation_fields :: "Activation \<Rightarrow> (string \<times> any) list \<Rightarrow> bytes \<Rightarrow> nat \<Rightarrow> (string \<times> json) list" where
  "activation_fields a annotations result sz =
     [(''activationId'', JString (act_ActivationID a)),
      (''namespace'', JString (act_Namespace a)),
      (''subject'', JString (act_Subject a)),
      (''name'', JString (af_Name (act_Function a))),
      (''version'', JString (af_Version (act_Function a))),
      (''annotations'', JAnnotations annotations),
      (''logs'', JStrings (act_Logs a)),
      (''start'', JInt (UnixMilli (act_Start a))),
      (''end'', JInt (UnixMilli (act_End a))),
      (''duration'', JInt (Milliseconds (act_End a - act_Start a))),
      (''response'', JObject
        [(''result'', JRawMessage result),
         (''statusCode'', JInt (status_number (ar_StatusCode (act_Response a)))),
         (''size'', JInt (int sz))]),
      (''publish'', JBoolean False)]
     @ (if act_Cause a \<noteq> '''' then [(''cause'', JString (act_Cause a))] else [])"

definition activation_result :: "(json \<Rightarrow> bytes result) \<Rightarrow> ActivationResponse \<Rightarrow> (bytes \<times> nat) result" where
  "activation_result marshal r =
     (if ar_Error r \<noteq> '''' then
        (case marshal (JObject [(''error'', JString (ar_Error r))]) of
           Inl err \<Rightarrow> Inl (Errorf ''failed to marshal error result: %w'' [err])
         | Inr errorResult \<Rightarrow> Inr (errorResult, length errorResult))
      else Inr (ar_Result r, length (ar_Result r)))"

definition Activation_MarshalJSON ::
  "(ByteSize \<Rightarrow> Duration \<Rightarrow> any) \<Rightarrow> (json \<Rightarrow> bytes result) \<Rightarrow> (Annotations \<Rightarrow> string list) \<Rightarrow> Activation \<Rightarrow> json result \<times> Annotations" where
  "Activation_MarshalJSON gbs marshal order a =
     (let annos = schema_annotations gbs a in
      case activation_result marshal (act_Response a) of
        Inl err \<Rightarrow> (Inl err, annos)
      | Inr (result, sz) \<Rightarrow>
          (let annos' = (if act_Cause a \<noteq> '''' then AList.update ''causedBy'' (AString ''sequence'') annos else annos)
           in (Inr (JObject (activation_fields a (Annotations_list order annos') result sz)), annos')))"

section \<open>Lemmas\<close>

lemma map_of_annotations_of_list:
  "map_of (annotations_of_list list annos) k =
     (case map_of (rev list) k of Some v \<Rightarrow> Some v | None \<Rightarrow> map_of annos k)"
  by (induction list annos rule: annotations_of_list.induct)
    (auto simp: update_conv' map_add_def split: option.splits)

lemma status_number_inj: "status_number a = status_number b \<longleftrightarrow> a = b"
  by (cases a; cases b) auto

end
