(* ===== verification/Runner.thy ===== *)
theory Runner
  imports Entities Pool
begin

text \<open>
  \<open>pkg/runner/runner.go\<close>: \<open>Invoke\<close>, the handler that runs one activation, and the
  collection of logs.

  The runner's collaborators (the pool, the database, the clock, the container's methods) are
  the fields of \<open>RunnerEnv\<close>, functions on a world. \<open>re_Logs\<close> describes what the goroutine that
  collects logs sees: the lines it received before its context was done, whether the timer of
  the deferred function fired before the collection ended, and the clock reading for the line
  that reports truncated logs. \<open>re_TimeFormat\<close> is \<open>time.Format\<close> in the host's time zone,
  \<open>re_UnmarshalObject\<close> and \<open>re_UnmarshalError\<close> are \<open>json.Unmarshal\<close> into a
  \<open>map[string]json.RawMessage\<close> (\<open>None\<close> is a nil map, for \<open>null\<close>) and into
  \<open>runtimeErrorResponse\<close>. The deadlines of the contexts for \<open>Initialize\<close> and \<open>Run\<close> are
  the deadlines of the payload's environment. Logging and metrics are left out.
\<close>

definition minInitDuration :: Duration where "minInitDuration = 10 * Second"

definition logCollectionTimeout :: Duration where "logCollectionTimeout = 500 * Millisecond"

record 'w RunnerEnv =
  re_Now :: "'w \<Rightarrow> Time \<times> 'w"
  re_Get :: "string \<Rightarrow> ActivationMessageFunction \<Rightarrow> string \<Rightarrow> ByteSize \<Rightarrow> 'w \<Rightarrow> (PooledContainer \<times> bool) result \<times> 'w"
  re_Put :: "PooledContainer \<Rightarrow> 'w \<Rightarrow> 'w"
  re_PutToDestroy :: "PooledContainer \<Rightarrow> 'w \<Rightarrow> go_error option \<times> 'w"
  re_GetFunction :: "string \<Rightarrow> string \<Rightarrow> 'w \<Rightarrow> Function result \<times> 'w"
  re_WriteActivation :: "Activation \<Rightarrow> 'w \<Rightarrow> go_error option \<times> 'w"
  re_Initialize :: "PooledContainer \<Rightarrow> ContainerInitPayload \<Rightarrow> 'w \<Rightarrow> (bytes \<times> go_error option) \<times> 'w"
  re_Run :: "PooledContainer \<Rightarrow> ContainerRunPayload \<Rightarrow> 'w \<Rightarrow> (bytes \<times> go_error option) \<times> 'w"
  re_State :: "PooledContainer \<Rightarrow> 'w \<Rightarrow> ContainerState result \<times> 'w"
  re_Logs :: "PooledContainer \<Rightarrow> 'w \<Rightarrow> (LogLine list \<times> bool \<times> Time) \<times> 'w"
  re_TimeFormat :: "Time \<Rightarrow> string"
  re_UnmarshalObject :: "bytes \<Rightarrow> (string \<times> bytes) list option result"
  re_UnmarshalError :: "bytes \<Rightarrow> string result"

section \<open>Log collection\<close>

text \<open>\<open>%-30s\<close> pads with blanks on the right.\<close>

definition pad_right :: "nat \<Rightarrow> string \<Rightarrow> string" where
  "pad_right n s = s @ replicate (n - length s) CHR '' ''"

definition formatLog :: "(Time \<Rightarrow> string) \<Rightarrow> Time \<Rightarrow> string \<Rightarrow> string \<Rightarrow> string" where
  "formatLog format t stream msg = pad_right 30 (format t) @ '' '' @ stream @ '': '' @ msg"

definition punctuate :: "string \<Rightarrow> string" where
  "punctuate msg = (if HasSuffix msg ''.'' then msg else msg @ ''.'')"

record CollectState =
  col_logs :: "string list"
  col_collected :: ByteSize
  col_exceeded :: bool
  col_stdout :: bool
  col_stderr :: bool

text \<open>One received line; \<open>now\<close> is the clock reading for the report of truncated logs.\<close>

definition collect_line :: "(Time \<Rightarrow> string) \<Rightarrow> Time \<Rightarrow> ByteSize \<Rightarrow> LogLine \<Rightarrow> CollectState \<Rightarrow> CollectState" where
  "collect_line format now limit line s =
     (if ll_IsSentinel line then
        (if ll_Stream line = LogStreamStdout then s\<lparr>col_stdout := True\<rparr> else s\<lparr>col_stderr := True\<rparr>)
      else if col_exceeded s then s
      else let formatted = formatLog format (ll_Time line) (ll_Stream line) (ll_Message line);
               size = of_nat (length formatted) :: ByteSize in
        if col_collected s + size > limit then
          s\<lparr>col_logs := col_logs s @ [formatLog format now LogStreamStderr (ErrorFunctionTruncatedLogs limit)],
            col_exceeded := True\<rparr>
        else s\<lparr>col_collected := col_collected s + size, col_logs := col_logs s @ [formatted]\<rparr>)"

text \<open>The loop: it ends when both sentinels were seen or, with the lines used up, at \<open>ctx.Done\<close>.\<close>

fun collect_loop :: "(Time \<Rightarrow> string) \<Rightarrow> Time \<Rightarrow> ByteSize \<Rightarrow> LogLine list \<Rightarrow> CollectState \<Rightarrow> CollectState \<times> LogLine list" where
  "collect_loop format now limit lines s =
     (if col_stdout s \<and> col_stderr s then (s, lines)
      else case lines of
        [] \<Rightarrow> (s, [])
      | line # rest \<Rightarrow> collect_loop format now limit rest (collect_line format now limit line s))"

declare collect_loop.simps [simp del]

definition collect_start :: CollectState where
  "collect_start = \<lparr>col_logs = [], col_collected = 0, col_exceeded = False, col_stdout = False, col_stderr = False\<rparr>"

definition collectLogs :: "(Time \<Rightarrow> string) \<Rightarrow> Time \<Rightarrow> LogLine list \<Rightarrow> ByteSize \<Rightarrow> string list" where
  "collectLogs format now lines limit = col_logs (fst (collect_loop format now limit lines collect_start))"

section \<open>Errors of the runtime\<close>

definition parseErrorFromResponse :: "'w RunnerEnv \<Rightarrow> bytes \<Rightarrow> string result" where
  "parseErrorFromResponse env response =
     (case re_UnmarshalError env response of
        Inl err \<Rightarrow> Inl (Errorf ''failed to parse response as JSON: %w'' [err])
      | Inr msg \<Rightarrow> (if msg = '''' then Inl (ErrorString ''error response did not contain error field'') else Inr msg))"

section \<open>Invoke\<close>

text \<open>The fields of an activation that the handler sets.\<close>

definition set_response :: "ActivationStatusCode \<Rightarrow> string \<Rightarrow> Activation \<Rightarrow> Activation" where
  "set_response code err a = a\<lparr>act_Response := (act_Response a)\<lparr>ar_StatusCode := code, ar_Error := err\<rparr>\<rparr>"

definition set_error :: "string \<Rightarrow> Activation \<Rightarrow> Activation" where
  "set_error err a = a\<lparr>act_Response := (act_Response a)\<lparr>ar_Error := err\<rparr>\<rparr>"

definition set_status :: "ActivationStatusCode \<Rightarrow> Activation \<Rightarrow> Activation" where
  "set_status code a = a\<lparr>act_Response := (act_Response a)\<lparr>ar_StatusCode := code\<rparr>\<rparr>"

definition qualifiedFnName :: "ActivationMessage \<Rightarrow> string" where
  "qualifiedFnName msg = amf_Namespace (am_Function msg) @ ''/'' @ amf_Name (am_Function msg)"

definition zero_Limits :: Limits where
  "zero_Limits = \<lparr>lim_Timeout = 0, lim_Memory = 0, lim_Logs = 0\<rparr>"

definition add_annotations :: "(string \<times> string) list \<Rightarrow> Annotations \<Rightarrow> Annotations" where
  "add_annotations new a = fold (\<lambda>(k, v). AList.update k (AString v)) new a"

definition new_activation :: "ActivationMessage \<Rightarrow> Time \<Rightarrow> Activation" where
  "new_activation msg now =
     \<lparr>act_ActivationID = am_ActivationID msg,
      act_Namespace = ii_Namespace (am_InvocationIdentity msg),
      act_Subject = ii_Subject (am_InvocationIdentity msg),
      act_Cause = am_CausedBy msg,
      act_Annotations = add_annotations (ii_Annotations (am_InvocationIdentity msg))
        (if am_CausedBy msg \<noteq> '''' then [(''causedBy'', AString ''sequence'')] else []),
      act_Function = \<lparr>af_Name = amf_Name (am_Function msg), af_Version = amf_Version (am_Function msg),
        af_Path = qualifiedFnName msg, af_Kind = '''', af_Entrypoint = '''', af_Limits = zero_Limits,
        af_Binding = amf_Binding (am_Function msg)\<rparr>,
      act_Start = now, act_End = now, act_IsTimeout = False, act_InitTime = 0, act_WaitTime = 0,
      act_Response = \<lparr>ar_Result = [], ar_Error = '''', ar_StatusCode = SystemError\<rparr>,
      act_Logs = []\<rparr>"

text \<open>
  The error handling that \<open>Initialize\<close> and \<open>Run\<close> share, once the response limit is out of the
  way: the container's state, a timeout, the runtime's own message, or the generic text.
\<close>

definition classify_failure ::
  "'w RunnerEnv \<Rightarrow> PooledContainer \<Rightarrow> go_error \<Rightarrow> bytes \<Rightarrow> string \<Rightarrow> string \<Rightarrow> Activation \<Rightarrow> 'w \<Rightarrow> Activation \<times> 'w" where
  "classify_failure env c err response timeoutText genericText a w =
     (let (st, w1) = re_State env c w in
      (case st of
         Inr state \<Rightarrow>
           (if cs_OOMKilled state then set_error ErrorFunctionMemoryExhausted a
            else if cs_Status state = ContainerStateStatusExited then set_error ErrorFunctionAbnormalRun a
            else if errors_Is err DeadlineExceeded then set_error timeoutText (a\<lparr>act_IsTimeout := True\<rparr>)
            else set_error (if response \<noteq> [] then (case parseErrorFromResponse env response of
                                Inr m \<Rightarrow> m | Inl _ \<Rightarrow> genericText) else genericText) a)
       | Inl _ \<Rightarrow>
           (if errors_Is err DeadlineExceeded then set_error timeoutText (a\<lparr>act_IsTimeout := True\<rparr>)
            else set_error (if response \<noteq> [] then (case parseErrorFromResponse env response of
                                Inr m \<Rightarrow> m | Inl _ \<Rightarrow> genericText) else genericText) a),
       w1))"

text \<open>The environment both payloads share, without the deadline.\<close>

definition invocation_environment :: "ActivationMessage \<Rightarrow> Function \<Rightarrow> Time \<Rightarrow> InvocationEnvironment" where
  "invocation_environment msg fn deadline =
     \<lparr>ie_ActivationID = am_ActivationID msg, ie_TransactionID = am_TransactionID msg,
      ie_Namespace = ii_Namespace (am_InvocationIdentity msg),
      ie_FunctionName = ''/'' @ qualifiedFnName msg,
      ie_FunctionVersion = amf_Version (am_Function msg),
      ie_Deadline = deadline,
      ie_APIKey = (if \<not> IsTruthy (fn_Annotations fn) ''provide-api-key'' True then ''''
                   else ii_APIKey (am_InvocationIdentity msg))\<rparr>"

definition fn_entrypoint :: "Function \<Rightarrow> string" where
  "fn_entrypoint fn = (if exec_Main (fn_Exec fn) = '''' then ''main'' else exec_Main (fn_Exec fn))"

definition init_timeout :: "Function \<Rightarrow> Duration" where
  "init_timeout fn =
     (if lim_Timeout (fn_Limits fn) > minInitDuration then lim_Timeout (fn_Limits fn) else minInitDuration)"

text \<open>Step 3. The flag says whether the container is initialised; otherwise the activation failed and the container is broken.\<close>

definition invoke_init ::
  "'w RunnerEnv \<Rightarrow> ActivationMessage \<Rightarrow> Function \<Rightarrow> PooledContainer \<Rightarrow> Activation \<Rightarrow> 'w \<Rightarrow> bool \<times> Activation \<times> 'w" where
  "invoke_init env msg fn c a w =
     (let (initStart, w1) = re_Now env w;
          deadline = initStart + init_timeout fn;
          ((response, err), w2) = re_Initialize env c
            \<lparr>cip_Name = fn_Name fn, cip_Entrypoint = fn_entrypoint fn, cip_Code = fc_Resolved (exec_Code (fn_Exec fn)),
             cip_IsBinary = exec_Binary (fn_Exec fn), cip_Environment = invocation_environment msg fn deadline,
             cip_Parameters = am_InitParameters msg\<rparr> w1;
          (initEnd, w3) = re_Now env w2;
          a1 = a\<lparr>act_InitTime := initEnd - initStart, act_Start := initStart, act_End := initEnd\<rparr>
      in case err of
           None \<Rightarrow> (True, a1, w3)
         | Some e \<Rightarrow>
             (let a2 = set_status DeveloperError a1 in
              case errors_As_ResponseLimitExceeded e of
                Some contentLength \<Rightarrow>
                  (False, set_error (ErrorFunctionTruncatedResponse response contentLength (of_nat (length response))) a2, w3)
              | None \<Rightarrow>
                  (let (a3, w4) = classify_failure env c e response (ErrorFunctionInitTimeout (init_timeout fn))
                         ErrorFunctionAbnormalInit a2 w3
                   in (False, a3, w4))))"

text \<open>The last part: the result of a run without an error.\<close>

definition finish_result :: "'w RunnerEnv \<Rightarrow> bytes \<Rightarrow> Activation \<Rightarrow> Activation" where
  "finish_result env response a =
     (case re_UnmarshalObject env response of
        Inl _ \<Rightarrow> set_response DeveloperError (ErrorFunctionInvalidRunResponse response) a
      | Inr parsedResult \<Rightarrow>
          (let a1 = a\<lparr>act_Response := (act_Response a)\<lparr>ar_Result := (if parsedResult = None then ''{}'' else response)\<rparr>\<rparr> in
           set_status (case parsedResult of
             None \<Rightarrow> Success
           | Some obj \<Rightarrow> (if map_of obj ''error'' \<noteq> None then ApplicationError else Success)) a1))"

text \<open>Step 4. The flag says whether the container is broken.\<close>

definition invoke_run ::
  "'w RunnerEnv \<Rightarrow> ActivationMessage \<Rightarrow> Function \<Rightarrow> PooledContainer \<Rightarrow> Activation \<Rightarrow> 'w \<Rightarrow> bool \<times> Activation \<times> 'w" where
  "invoke_run env msg fn c a w =
     (let (runStart, w1) = re_Now env w;
          deadline = runStart + lim_Timeout (fn_Limits fn);
          ((response, err), w2) = re_Run env c
            \<lparr>crp_Environment = invocation_environment msg fn deadline, crp_Parameters = am_Parameters msg\<rparr> w1;
          (runEnd, w3) = re_Now env w2;
          a1 = a\<lparr>act_Start := runStart + (- act_InitTime a), act_End := runEnd\<rparr>
      in case err of
           None \<Rightarrow> (False, finish_result env response a1, w3)
         | Some e \<Rightarrow>
             (case errors_As_ResponseLimitExceeded e of
                Some contentLength \<Rightarrow>
                  (False, set_response ApplicationError
                            (ErrorFunctionTruncatedResponse response contentLength (of_nat (length response))) a1, w3)
              | None \<Rightarrow>
                  (let (a2, w4) = classify_failure env c e response (ErrorFunctionTimeout (lim_Timeout (fn_Limits fn)))
                         ErrorFunctionAbnormalRun (set_status DeveloperError a1) w3
                   in (True, a2, w4))))"

text \<open>The deferred function that waits for the logs. A timeout breaks the container.\<close>

definition finish_logs ::
  "'w RunnerEnv \<Rightarrow> Function \<Rightarrow> PooledContainer \<Rightarrow> bool \<Rightarrow> Activation \<Rightarrow> 'w \<Rightarrow> bool \<times> Activation \<times> 'w" where
  "finish_logs env fn c broken a w =
     (let ((lines, timedOut, truncTime), w1) = re_Logs env c w;
          a1 = a\<lparr>act_Logs := collectLogs (re_TimeFormat env) truncTime lines (lim_Logs (fn_Limits fn))\<rparr> in
      if timedOut then
        (let (now, w2) = re_Now env w1;
             message = (if ar_Error (act_Response a1) \<noteq> '''' then punctuate (ar_Error (act_Response a1)) @ '' Logs might be missing.''
                        else ErrorFunctionLogCollection)
         in (True, a1\<lparr>act_Logs := act_Logs a1 @ [formatLog (re_TimeFormat env) now LogStreamStderr message]\<rparr>, w2))
      else (broken, a1, w1))"

text \<open>The deferred function that returns the container.\<close>

definition return_container :: "'w RunnerEnv \<Rightarrow> PooledContainer \<Rightarrow> bool \<Rightarrow> 'w \<Rightarrow> 'w" where
  "return_container env c broken w = (if broken then snd (re_PutToDestroy env c w) else re_Put env c w)"

text \<open>The wait time is only set outside of sequences.\<close>

definition set_wait_time :: "'w RunnerEnv \<Rightarrow> ActivationMessage \<Rightarrow> Activation \<Rightarrow> 'w \<Rightarrow> Activation \<times> 'w" where
  "set_wait_time env msg a w =
     (if am_CausedBy msg = '''' then
        (let (now, w1) = re_Now env w in (a\<lparr>act_WaitTime := now - am_TransactionStart msg\<rparr>, w1))
      else (a, w))"

text \<open>From the moment the container is there; the two deferred functions run in reverse order.\<close>

definition invoke_in_container ::
  "'w RunnerEnv \<Rightarrow> ActivationMessage \<Rightarrow> Function \<Rightarrow> PooledContainer \<Rightarrow> bool \<Rightarrow> Activation \<Rightarrow> 'w \<Rightarrow> Activation \<times> 'w" where
  "invoke_in_container env msg fn c isReused a w =
     (let (a1, w1) = set_wait_time env msg a w;
          (initOk, a2, w2) = (if \<not> isReused then invoke_init env msg fn c a1 w1 else (True, a1, w1));
          (broken, a3, w3) = (if initOk then invoke_run env msg fn c a2 w2 else (True, a2, w2));
          (broken', a4, w4) = finish_logs env fn c broken a3 w3
      in (a4, return_container env c broken' w4))"

text \<open>Step 2, the error of the pool.\<close>

definition provision_failure :: "go_error \<Rightarrow> Activation \<Rightarrow> Activation" where
  "provision_failure err a =
     (case errors_As_ContainerBroken err of
        Some state \<Rightarrow>
          (if cs_OOMKilled state then set_response DeveloperError ErrorFunctionMemoryExhausted a
           else if cs_Status state = ContainerStateStatusExited then set_response DeveloperError ErrorFunctionAbnormalRun a
           else set_response SystemError ErrorFunctionProvision a)
      | None \<Rightarrow> set_response SystemError ErrorFunctionProvision a)"

definition invoke_function ::
  "'w RunnerEnv \<Rightarrow> ActivationMessage \<Rightarrow> Activation \<Rightarrow> 'w \<Rightarrow> Activation \<times> 'w" where
  "invoke_function env msg a w =
     (let (fnRes, w1) = re_GetFunction env (qualifiedFnName msg) (amf_Revision (am_Function msg)) w in
      case fnRes of
        Inl err \<Rightarrow>
          (if errors_Is err ErrFunctionNotFound then set_response ApplicationError ErrorFunctionNotFoundText a
           else set_response SystemError ErrorFunctionFetch a, w1)
      | Inr fn \<Rightarrow>
          (let a1 = a\<lparr>act_Function := (act_Function a)\<lparr>af_Entrypoint := fn_entrypoint fn,
                  af_Kind := exec_Kind (fn_Exec fn), af_Limits := fn_Limits fn\<rparr>\<rparr>;
               (got, w2) = re_Get env (ii_Namespace (am_InvocationIdentity msg)) (am_Function msg)
                 (exec_Kind (fn_Exec fn)) (lim_Memory (fn_Limits fn)) w1
           in case got of
                Inl err \<Rightarrow> (provision_failure err a1, w2)
              | Inr (c, isReused) \<Rightarrow> invoke_in_container env msg fn c isReused a1 w2))"

text \<open>The whole handler; the deferred write of the activation runs last.\<close>

definition Invoke :: "'w RunnerEnv \<Rightarrow> ActivationMessage \<Rightarrow> 'w \<Rightarrow> Activation \<times> 'w" where
  "Invoke env msg w =
     (let (now, w1) = re_Now env w;
          (a, w2) = invoke_function env msg (new_activation msg now) w1
      in if \<not> am_IsBlocking msg \<and> ii_StoreActivations (am_InvocationIdentity msg)
         then (a, snd (re_WriteActivation env a w2)) else (a, w2))"

end
