(* ===== verification/Runner_Properties.thy ===== *)
theory Runner_Properties
  imports Runner
begin

text \<open>
  What the runner promises (\<open>pkg/runner/runner.go\<close>): the life cycle of a container within an
  invocation, the consistency of the response, the times of the activation, and the log
  collection against a reference definition.
\<close>

section \<open>The calls of an invocation\<close>

text \<open>Every environment can be made to record the calls that matter here.\<close>

datatype run_event =
    EvFetch
  | EvGet "(PooledContainer \<times> bool) result"
  | EvInit PooledContainer "go_error option"
  | EvRun PooledContainer "go_error option"
  | EvLogs PooledContainer bool
  | EvPut PooledContainer
  | EvDestroy PooledContainer
  | EvWrite Activation

definition silent :: "('w \<Rightarrow> 'a \<times> 'w) \<Rightarrow> 'w \<times> run_event list \<Rightarrow> 'a \<times> 'w \<times> run_event list" where
  "silent f wt = (let (r, w) = f (fst wt) in (r, w, snd wt))"

definition recorded :: "('a \<Rightarrow> run_event) \<Rightarrow> ('w \<Rightarrow> 'a \<times> 'w) \<Rightarrow> 'w \<times> run_event list \<Rightarrow> 'a \<times> 'w \<times> run_event list" where
  "recorded ev f wt = (let (r, w) = f (fst wt) in (r, w, snd wt @ [ev r]))"

definition traced :: "'w RunnerEnv \<Rightarrow> ('w \<times> run_event list) RunnerEnv" where
  "traced env =
     \<lparr>re_Now = silent (re_Now env),
      re_Get = \<lambda>ns fn kind m. recorded EvGet (re_Get env ns fn kind m),
      re_Put = \<lambda>c wt. (re_Put env c (fst wt), snd wt @ [EvPut c]),
      re_PutToDestroy = \<lambda>c. recorded (\<lambda>_. EvDestroy c) (re_PutToDestroy env c),
      re_GetFunction = \<lambda>fqn rev. recorded (\<lambda>_. EvFetch) (re_GetFunction env fqn rev),
      re_WriteActivation = \<lambda>a. recorded (\<lambda>_. EvWrite a) (re_WriteActivation env a),
      re_Initialize = \<lambda>c p. recorded (\<lambda>r. EvInit c (snd r)) (re_Initialize env c p),
      re_Run = \<lambda>c p. recorded (\<lambda>r. EvRun c (snd r)) (re_Run env c p),
      re_State = \<lambda>c. silent (re_State env c),
      re_Logs = \<lambda>c. recorded (\<lambda>r. EvLogs c (fst (snd r))) (re_Logs env c),
      re_TimeFormat = re_TimeFormat env,
      re_UnmarshalObject = re_UnmarshalObject env,
      re_UnmarshalError = re_UnmarshalError env\<rparr>"

lemma traced_sel:
  "re_Now (traced env) = silent (re_Now env)"
  "re_Get (traced env) ns f kind m = recorded EvGet (re_Get env ns f kind m)"
  "re_Put (traced env) c wt = (re_Put env c (fst wt), snd wt @ [EvPut c])"
  "re_PutToDestroy (traced env) c = recorded (\<lambda>_. EvDestroy c) (re_PutToDestroy env c)"
  "re_GetFunction (traced env) fqn rv = recorded (\<lambda>_. EvFetch) (re_GetFunction env fqn rv)"
  "re_WriteActivation (traced env) a = recorded (\<lambda>_. EvWrite a) (re_WriteActivation env a)"
  "re_Initialize (traced env) c ip = recorded (\<lambda>r. EvInit c (snd r)) (re_Initialize env c ip)"
  "re_Run (traced env) c rp = recorded (\<lambda>r. EvRun c (snd r)) (re_Run env c rp)"
  "re_State (traced env) c = silent (re_State env c)"
  "re_Logs (traced env) c = recorded (\<lambda>r. EvLogs c (fst (snd r))) (re_Logs env c)"
  by (simp_all add: traced_def)

lemmas traced_simps = traced_sel silent_def recorded_def

text \<open>An error of \<open>Run\<close> breaks the container unless only the response was too long.\<close>

definition breaks :: "go_error option \<Rightarrow> bool" where
  "breaks err = (case err of None \<Rightarrow> False | Some e \<Rightarrow> errors_As_ResponseLimitExceeded e = None)"

lemma classify_failure_traced:
  "classify_failure (traced env) c err response t g a (w, evs) = (a', w', evs') \<Longrightarrow> evs' = evs"
  by (auto simp: classify_failure_def traced_simps Let_def split: prod.splits)

lemma invoke_init_traced:
  assumes "invoke_init (traced env) msg fn c a (w, evs) = (ok, a', w', evs')"
  shows "\<exists>err. evs' = evs @ [EvInit c err] \<and> (ok \<longleftrightarrow> err = None)"
  using assms
  by (auto simp: invoke_init_def traced_simps Let_def split: prod.splits option.splits dest!: classify_failure_traced)

lemma invoke_run_traced:
  assumes "invoke_run (traced env) msg fn c a (w, evs) = (broken, a', w', evs')"
  shows "\<exists>err. evs' = evs @ [EvRun c err] \<and> (broken \<longleftrightarrow> breaks err)"
  using assms
  by (auto simp: invoke_run_def traced_simps Let_def breaks_def
      split: prod.splits option.splits dest!: classify_failure_traced)

lemma finish_logs_traced:
  assumes "finish_logs (traced env) fn c broken a (w, evs) = (broken', a', w', evs')"
  shows "\<exists>timedOut. evs' = evs @ [EvLogs c timedOut] \<and> (broken' \<longleftrightarrow> broken \<or> timedOut)"
  using assms by (auto simp: finish_logs_def traced_simps Let_def split: prod.splits if_splits)

lemma return_container_traced:
  "snd (return_container (traced env) c broken (w, evs)) = evs @ [if broken then EvDestroy c else EvPut c]"
  by (simp add: return_container_def traced_simps split: prod.splits)

text \<open>The calls made with a container, by what the calls returned.\<close>

definition container_calls :: "PooledContainer \<Rightarrow> bool \<Rightarrow> go_error option \<Rightarrow> go_error option \<Rightarrow> bool \<Rightarrow> run_event list" where
  "container_calls c reused initErr runErr timedOut =
     (if reused then [] else [EvInit c initErr]) @
     (if reused \<or> initErr = None then [EvRun c runErr] else []) @
     [EvLogs c timedOut] @
     [if (if reused \<or> initErr = None then breaks runErr else True) \<or> timedOut then EvDestroy c else EvPut c]"

lemma set_wait_time_traced: "\<exists>a1 w1. set_wait_time (traced env) msg a (w, evs) = (a1, w1, evs)"
  by (cases "am_CausedBy msg = ''''"; cases "re_Now env w") (simp_all add: set_wait_time_def traced_simps)

lemma invoke_in_container_traced:
  assumes "invoke_in_container (traced env) msg fn c reused a (w, evs) = (a', w', evs')"
  shows "\<exists>initErr runErr timedOut. evs' = evs @ container_calls c reused initErr runErr timedOut"
proof -
  obtain a1 w1 where s1: "set_wait_time (traced env) msg a (w, evs) = (a1, w1, evs)"
    using set_wait_time_traced [of env msg a w evs] by blast
  obtain ok a2 w2 evs2 where s2: "(if \<not> reused then invoke_init (traced env) msg fn c a1 (w1, evs) else (True, a1, (w1, evs)))
      = (ok, a2, w2, evs2)" by (metis prod_cases4)
  obtain broken a3 w3 evs3 where s3: "(if ok then invoke_run (traced env) msg fn c a2 (w2, evs2) else (True, a2, (w2, evs2)))
      = (broken, a3, w3, evs3)" by (metis prod_cases4)
  obtain broken' a4 w4 evs4 where s4: "finish_logs (traced env) fn c broken a3 (w3, evs3) = (broken', a4, w4, evs4)"
    by (metis prod_cases4)
  have evs': "evs' = evs4 @ [if broken' then EvDestroy c else EvPut c]"
    using assms return_container_traced [of env c broken' w4 evs4] unfolding invoke_in_container_def s1 Let_def
    by (simp add: s2 s3 s4)
  obtain initErr where init: "evs2 = evs @ (if reused then [] else [EvInit c initErr])" "ok \<longleftrightarrow> reused \<or> initErr = None"
    using s2 invoke_init_traced [of env msg fn c a1 w1 evs] by (fastforce split: if_splits)
  obtain runErr where run: "evs3 = evs2 @ (if ok then [EvRun c runErr] else [])" "broken \<longleftrightarrow> (if ok then breaks runErr else True)"
    using s3 invoke_run_traced [of env msg fn c a2 w2 evs2] by (fastforce split: if_splits)
  obtain timedOut where "evs4 = evs3 @ [EvLogs c timedOut]" "broken' \<longleftrightarrow> broken \<or> timedOut"
    using finish_logs_traced [OF s4] by blast
  with evs' init run have "evs' = evs @ container_calls c reused initErr runErr timedOut"
    by (simp add: container_calls_def)
  then show ?thesis by blast
qed

text \<open>
  C18. The life cycle of a container in an invocation. The function is fetched first. If a
  container is obtained, it is initialised exactly when it is not a reused one, run exactly when
  it is initialised, its logs are collected, and then it is given back to the pool exactly once,
  after everything else that uses it: destroyed if the initialisation failed, the run failed
  for another reason than an oversized response, or the logs timed out, put back otherwise. If
  no container is obtained, none is given back. The activation is written exactly when the
  invocation is not blocking and the namespace stores activations, and this is the last call.
\<close>

theorem Invoke_container_lifecycle:
  assumes "Invoke (traced env) msg (w, []) = (a, w', evs)"
  shows "\<exists>calls. evs = calls @ (if \<not> am_IsBlocking msg \<and> ii_StoreActivations (am_InvocationIdentity msg) then [EvWrite a] else []) \<and>
    (calls = [EvFetch] \<or> (\<exists>e. calls = [EvFetch, EvGet (Inl e)]) \<or>
     (\<exists>c reused initErr runErr timedOut.
        calls = [EvFetch, EvGet (Inr (c, reused))] @ container_calls c reused initErr runErr timedOut))"
proof -
  obtain now w1 where now: "re_Now (traced env) (w, []) = (now, w1, [])"
    by (cases "re_Now env w") (simp add: traced_simps)
  obtain a2 w2 calls where f: "invoke_function (traced env) msg (new_activation msg now) (w1, []) = (a2, w2, calls)"
    by (metis prod_cases3)
  have evs: "a = a2" "evs = calls @ (if \<not> am_IsBlocking msg \<and> ii_StoreActivations (am_InvocationIdentity msg) then [EvWrite a] else [])"
    using assms f by (auto simp: Invoke_def now, auto simp: traced_simps split: prod.splits if_splits)
  have "calls = [EvFetch] \<or> (\<exists>e. calls = [EvFetch, EvGet (Inl e)]) \<or>
     (\<exists>c reused initErr runErr timedOut.
        calls = [EvFetch, EvGet (Inr (c, reused))] @ container_calls c reused initErr runErr timedOut)"
    using f unfolding invoke_function_def
    by (auto simp: Let_def split: prod.splits sum.splits dest!: invoke_in_container_traced)
      (auto simp: traced_simps split: prod.splits sum.splits, blast)
  with evs(2) show ?thesis by blast
qed

section \<open>The response\<close>

text \<open>
  An activation has either a result or an error text, and the status fits: only a success or an
  application error carries a result, a success carries no error text.
\<close>

definition response_ok :: "Activation \<Rightarrow> bool" where
  "response_ok a =
     (let r = act_Response a in
      (ar_Error r = '''' \<longleftrightarrow> ar_Result r \<noteq> []) \<and>
      (ar_Result r \<noteq> [] \<longrightarrow> ar_StatusCode r \<in> {Success, ApplicationError}) \<and>
      (ar_StatusCode r = Success \<longrightarrow> ar_Error r = ''''))"

definition no_result :: "Activation \<Rightarrow> bool" where
  "no_result a = (ar_Result (act_Response a) = [] \<and> ar_Error (act_Response a) = '''')"

lemma response_ok_failure [simp]:
  "no_result a \<Longrightarrow> err \<noteq> '''' \<Longrightarrow> code \<noteq> Success \<Longrightarrow> response_ok (set_response code err a)"
  by (simp add: response_ok_def set_response_def no_result_def Let_def)

lemma no_result_frame [simp]:
  "no_result (a\<lparr>act_WaitTime := x\<rparr>) = no_result a" "no_result (a\<lparr>act_Function := f\<rparr>) = no_result a"
  "no_result (a\<lparr>act_Start := x\<rparr>) = no_result a" "no_result (a\<lparr>act_End := x\<rparr>) = no_result a"
  "no_result (a\<lparr>act_InitTime := x\<rparr>) = no_result a" "no_result (a\<lparr>act_IsTimeout := b\<rparr>) = no_result a"
  "no_result (set_status code a) = no_result a"
  by (simp_all add: no_result_def set_status_def)

lemma response_ok_logs [simp]: "response_ok (a\<lparr>act_Logs := l\<rparr>) = response_ok a"
  by (simp add: response_ok_def)

lemma set_error_status: "set_error err (set_status code a) = set_response code err a"
  by (simp add: set_error_def set_status_def set_response_def)

lemma parseErrorFromResponse_not_empty: "parseErrorFromResponse env response = Inr m \<Longrightarrow> m \<noteq> ''''"
  by (auto simp: parseErrorFromResponse_def split: sum.splits if_splits)

lemma classify_failure_ok:
  assumes "classify_failure env c err response t g (set_status DeveloperError a) w = (a', w')"
    and "no_result a" and "t \<noteq> ''''" and "g \<noteq> ''''"
  shows "response_ok a'"
proof -
  have timeout: "set_error t ((set_status DeveloperError a)\<lparr>act_IsTimeout := True\<rparr>)
      = set_response DeveloperError t (a\<lparr>act_IsTimeout := True\<rparr>)"
    by (simp add: set_error_def set_status_def set_response_def)
  have "(case parseErrorFromResponse env response of Inr m \<Rightarrow> m | Inl _ \<Rightarrow> g) \<noteq> ''''"
    using assms(4) parseErrorFromResponse_not_empty [of env response] by (auto split: sum.splits)
  with assms show ?thesis
    by (auto simp: classify_failure_def Let_def timeout set_error_status split: prod.splits sum.splits if_splits)
qed

lemma invoke_init_response:
  assumes "invoke_init env msg fn c a w = (ok, a', w')" and "no_result a"
  shows "if ok then no_result a' else response_ok a'"
  using assms
  by (auto simp: invoke_init_def Let_def set_error_status split: prod.splits option.splits
      dest!: classify_failure_ok)

lemma finish_result_ok:
  assumes "no_result a" and "\<exists>e. re_UnmarshalObject env [] = Inl e"
  shows "response_ok (finish_result env response a)"
  using assms
  by (auto simp: finish_result_def response_ok_def no_result_def set_response_def set_status_def Let_def
      split: sum.splits option.splits)

lemma invoke_run_response:
  assumes "invoke_run env msg fn c a w = (broken, a', w')" and "no_result a"
    and "\<exists>e. re_UnmarshalObject env [] = Inl e"
  shows "response_ok a'"
  using assms
  by (auto simp: invoke_run_def Let_def finish_result_ok split: prod.splits option.splits dest!: classify_failure_ok)

lemma finish_logs_response:
  "finish_logs env fn c broken a w = (broken', a', w') \<Longrightarrow> response_ok a' = response_ok a"
  by (auto simp: finish_logs_def Let_def split: prod.splits if_splits)

lemma invoke_in_container_response:
  assumes "invoke_in_container env msg fn c reused a w = (a', w')" and "no_result a"
    and "\<exists>e. re_UnmarshalObject env [] = Inl e"
  shows "response_ok a'"
proof -
  obtain a1 w1 where s1: "set_wait_time env msg a w = (a1, w1)" by force
  obtain ok a2 w2 where s2: "(if \<not> reused then invoke_init env msg fn c a1 w1 else (True, a1, w1)) = (ok, a2, w2)"
    by (metis prod_cases3)
  obtain broken a3 w3 where s3: "(if ok then invoke_run env msg fn c a2 w2 else (True, a2, w2)) = (broken, a3, w3)"
    by (metis prod_cases3)
  obtain broken' a4 w4 where s4: "finish_logs env fn c broken a3 w3 = (broken', a4, w4)" by (metis prod_cases3)
  have a': "a' = a4" using assms(1) by (simp add: invoke_in_container_def s1 s2 s3 s4)
  have "no_result a1" using s1 assms(2) by (auto simp: set_wait_time_def split: prod.splits if_splits)
  then have "if ok then no_result a2 else response_ok a2"
    using s2 invoke_init_response by (fastforce split: if_splits)
  then have "response_ok a3" using s3 invoke_run_response [OF _ _ assms(3)] by (fastforce split: if_splits)
  then show ?thesis using finish_logs_response [OF s4] a' by simp
qed

text \<open>No step changes what the activation is an activation of.\<close>

definition act_ident :: "Activation \<Rightarrow> string \<times> string \<times> string \<times> string" where
  "act_ident a = (act_ActivationID a, act_Namespace a, act_Subject a, act_Cause a)"

lemma act_ident_set [simp]:
  "act_ident (set_error err a) = act_ident a" "act_ident (set_status code a) = act_ident a"
  "act_ident (set_response code err a) = act_ident a" "act_ident (provision_failure e a) = act_ident a"
  "act_ident (finish_result env response a) = act_ident a"
  by (auto simp: act_ident_def set_error_def set_status_def set_response_def provision_failure_def
      finish_result_def Let_def split: option.splits sum.splits)

lemma act_ident_update [simp]:
  "act_ident (a\<lparr>act_IsTimeout := b\<rparr>) = act_ident a" "act_ident (a\<lparr>act_Start := t\<rparr>) = act_ident a"
  "act_ident (a\<lparr>act_End := t\<rparr>) = act_ident a" "act_ident (a\<lparr>act_InitTime := t\<rparr>) = act_ident a"
  "act_ident (a\<lparr>act_WaitTime := t\<rparr>) = act_ident a" "act_ident (a\<lparr>act_Logs := l\<rparr>) = act_ident a"
  "act_ident (a\<lparr>act_Function := f\<rparr>) = act_ident a"
  by (simp_all add: act_ident_def)

lemma steps_keep_ident:
  "classify_failure env c err response t g a w = (a', w') \<Longrightarrow> act_ident a' = act_ident a"
  "invoke_init env msg fn c a w = (ok, a', w') \<Longrightarrow> act_ident a' = act_ident a"
  "invoke_run env msg fn c a w = (ok, a', w') \<Longrightarrow> act_ident a' = act_ident a"
  "finish_logs env fn c b a w = (ok, a', w') \<Longrightarrow> act_ident a' = act_ident a"
  "set_wait_time env msg a w = (a', w') \<Longrightarrow> act_ident a' = act_ident a"
proof -
  show cf: "classify_failure env c err response t g a w = (a', w') \<Longrightarrow> act_ident a' = act_ident a"
    for err response t g a w a' w'
    by (auto simp: classify_failure_def Let_def split: prod.splits sum.splits)
  show "invoke_init env msg fn c a w = (ok, a', w') \<Longrightarrow> act_ident a' = act_ident a"
    "invoke_run env msg fn c a w = (ok, a', w') \<Longrightarrow> act_ident a' = act_ident a"
    by (auto simp: invoke_init_def invoke_run_def Let_def split: prod.splits option.splits dest!: cf)
  show "finish_logs env fn c b a w = (ok, a', w') \<Longrightarrow> act_ident a' = act_ident a"
    by (auto simp: finish_logs_def Let_def split: prod.splits if_splits)
  show "set_wait_time env msg a w = (a', w') \<Longrightarrow> act_ident a' = act_ident a"
    by (auto simp: set_wait_time_def split: prod.splits if_splits)
qed

lemma invoke_in_container_ident:
  "invoke_in_container env msg fn c reused a w = (a', w') \<Longrightarrow> act_ident a' = act_ident a"
  by (auto simp: invoke_in_container_def Let_def split: prod.splits if_splits dest!: steps_keep_ident)

text \<open>
  C19. Whatever the database, the pool, the container and the runtime answer, the activation that
  Invoke returns is for the requested activation and has a consistent response: either a result
  or a non-empty error text, never both and never none; a result only with the status success
  or application error; no error text with the status success. (An empty response is not valid
  JSON, which is documented behaviour of the JSON decoder.)
\<close>

theorem Invoke_response_consistent:
  assumes "\<exists>e. re_UnmarshalObject env [] = Inl e" and "Invoke env msg w = (a, w')"
  shows "act_ident a = (am_ActivationID msg, ii_Namespace (am_InvocationIdentity msg),
      ii_Subject (am_InvocationIdentity msg), am_CausedBy msg) \<and>
    (ar_Error (act_Response a) = '''' \<longleftrightarrow> ar_Result (act_Response a) \<noteq> []) \<and>
    (ar_Result (act_Response a) \<noteq> [] \<longrightarrow> ar_StatusCode (act_Response a) \<in> {Success, ApplicationError}) \<and>
    (ar_StatusCode (act_Response a) = Success \<longrightarrow> ar_Error (act_Response a) = '''')"
proof -
  obtain now w1 where now: "re_Now env w = (now, w1)" by force
  obtain a2 w2 where f: "invoke_function env msg (new_activation msg now) w1 = (a2, w2)" by force
  have "a = a2" using assms(2) by (auto simp: Invoke_def now f split: if_splits)
  moreover have "no_result (new_activation msg now)" by (simp add: no_result_def new_activation_def)
  ultimately have "response_ok a"
    using f invoke_in_container_response [OF _ _ assms(1)]
    by (fastforce simp: invoke_function_def provision_failure_def Let_def
        split: prod.splits sum.splits if_splits option.splits)
  moreover have "act_ident a = act_ident (new_activation msg now)"
    using f \<open>a = a2\<close>
    by (auto simp: invoke_function_def Let_def split: prod.splits sum.splits if_splits dest!: invoke_in_container_ident)
  ultimately show ?thesis by (simp add: response_ok_def Let_def act_ident_def new_activation_def)
qed

section \<open>The times\<close>

text \<open>
  A clock that does not run backwards: \<open>clk\<close> gives the time of a world, a reading is the time of
  the world it leaves, and no call moves the time back.
\<close>

definition clock_ok :: "('w \<Rightarrow> Time) \<Rightarrow> 'w RunnerEnv \<Rightarrow> bool" where
  "clock_ok clk env =
     ((\<forall>w. clk w \<le> fst (re_Now env w) \<and> clk (snd (re_Now env w)) = fst (re_Now env w)) \<and>
      (\<forall>c p w. clk w \<le> clk (snd (re_Initialize env c p w))) \<and>
      (\<forall>c p w. clk w \<le> clk (snd (re_Run env c p w))))"

definition times_ok :: "Activation \<Rightarrow> bool" where
  "times_ok a = (0 \<le> act_InitTime a \<and> act_InitTime a \<le> act_End a - act_Start a)"

lemma clock_ok_now: "clock_ok clk env \<Longrightarrow> re_Now env w = (t, w') \<Longrightarrow> clk w \<le> t \<and> clk w' = t"
  by (metis clock_ok_def fst_conv snd_conv)

lemma clock_ok_calls:
  "clock_ok clk env \<Longrightarrow> re_Initialize env c ip w = (r, w') \<Longrightarrow> clk w \<le> clk w'"
  "clock_ok clk env \<Longrightarrow> re_Run env c rp w = (r, w') \<Longrightarrow> clk w \<le> clk w'"
  by (metis clock_ok_def snd_conv)+

text \<open>The times of an activation that the error handling leaves alone.\<close>

definition act_times :: "Activation \<Rightarrow> Time \<times> Time \<times> Duration" where
  "act_times a = (act_Start a, act_End a, act_InitTime a)"

lemma act_times_set [simp]:
  "act_times (set_error err a) = act_times a" "act_times (set_status code a) = act_times a"
  "act_times (set_response code err a) = act_times a" "act_times (provision_failure e a) = act_times a"
  "act_times (finish_result env response a) = act_times a" "act_times (a\<lparr>act_Logs := l\<rparr>) = act_times a"
  "act_times (a\<lparr>act_IsTimeout := b\<rparr>) = act_times a" "act_times (a\<lparr>act_WaitTime := d\<rparr>) = act_times a"
  "act_times (a\<lparr>act_Function := f\<rparr>) = act_times a"
  by (auto simp: act_times_def set_error_def set_status_def set_response_def provision_failure_def
      finish_result_def Let_def split: option.splits sum.splits)

lemma times_ok_times: "act_times a = act_times b \<Longrightarrow> times_ok a = times_ok b"
  by (simp add: act_times_def times_ok_def)

lemma classify_failure_times:
  "classify_failure env c err response t g a w = (a', w') \<Longrightarrow> act_times a' = act_times a"
  by (auto simp: classify_failure_def Let_def split: prod.splits sum.splits)

lemma invoke_init_times:
  assumes "clock_ok clk env" and "invoke_init env msg fn c a w = (ok, a', w')"
  shows "times_ok a'"
proof -
  obtain t1 w1 where n1: "re_Now env w = (t1, w1)" by force
  let ?p = "\<lparr>cip_Name = fn_Name fn, cip_Entrypoint = fn_entrypoint fn, cip_Code = fc_Resolved (exec_Code (fn_Exec fn)),
      cip_IsBinary = exec_Binary (fn_Exec fn), cip_Environment = invocation_environment msg fn (t1 + init_timeout fn),
      cip_Parameters = am_InitParameters msg\<rparr>"
  obtain response err w2 where i: "re_Initialize env c ?p w1 = ((response, err), w2)" by (metis prod.exhaust)
  obtain t2 w3 where n2: "re_Now env w2 = (t2, w3)" by force
  let ?a = "a\<lparr>act_InitTime := t2 - t1, act_Start := t1, act_End := t2\<rparr>"
  have "act_times a' = act_times ?a"
    using assms(2) by (auto simp: invoke_init_def n1 i n2 Let_def split: prod.splits option.splits dest!: classify_failure_times)
  moreover have "t1 \<le> t2"
    using clock_ok_now [OF assms(1) n1] clock_ok_now [OF assms(1) n2] clock_ok_calls(1) [OF assms(1) i] by simp
  then have "times_ok ?a" by (simp add: times_ok_def)
  ultimately show ?thesis using times_ok_times by blast
qed

lemma invoke_run_times:
  assumes "clock_ok clk env" and "invoke_run env msg fn c a w = (broken, a', w')" and "times_ok a"
  shows "times_ok a'"
proof -
  obtain t1 w1 where n1: "re_Now env w = (t1, w1)" by force
  let ?p = "\<lparr>crp_Environment = invocation_environment msg fn (t1 + lim_Timeout (fn_Limits fn)), crp_Parameters = am_Parameters msg\<rparr>"
  obtain response err w2 where r: "re_Run env c ?p w1 = ((response, err), w2)" by (metis prod.exhaust)
  obtain t2 w3 where n2: "re_Now env w2 = (t2, w3)" by force
  let ?a = "a\<lparr>act_Start := t1 - act_InitTime a, act_End := t2\<rparr>"
  have "act_times a' = act_times ?a"
    using assms(2) by (auto simp: invoke_run_def n1 r n2 Let_def split: prod.splits option.splits dest!: classify_failure_times)
  moreover have "t1 \<le> t2"
    using clock_ok_now [OF assms(1) n1] clock_ok_now [OF assms(1) n2] clock_ok_calls(2) [OF assms(1) r] by simp
  then have "times_ok ?a" using assms(3) by (simp add: times_ok_def)
  ultimately show ?thesis using times_ok_times by blast
qed

lemma invoke_in_container_times:
  assumes "clock_ok clk env" and "invoke_in_container env msg fn c reused a w = (a', w')" and "times_ok a"
  shows "times_ok a'"
proof -
  obtain a1 w1 where s1: "set_wait_time env msg a w = (a1, w1)" by force
  obtain ok a2 w2 where s2: "(if \<not> reused then invoke_init env msg fn c a1 w1 else (True, a1, w1)) = (ok, a2, w2)"
    by (metis prod_cases3)
  obtain broken a3 w3 where s3: "(if ok then invoke_run env msg fn c a2 w2 else (True, a2, w2)) = (broken, a3, w3)"
    by (metis prod_cases3)
  obtain broken' a4 w4 where s4: "finish_logs env fn c broken a3 w3 = (broken', a4, w4)" by (metis prod_cases3)
  have "a' = a4" using assms(2) by (simp add: invoke_in_container_def s1 s2 s3 s4)
  moreover have "act_times a1 = act_times a" using s1 by (auto simp: set_wait_time_def split: prod.splits if_splits)
  then have "times_ok a1" using assms(3) times_ok_times by blast
  then have "times_ok a2" using s2 invoke_init_times [OF assms(1)] by (auto split: if_splits)
  then have "times_ok a3" using s3 invoke_run_times [OF assms(1)] by (auto split: if_splits)
  moreover have "act_times a4 = act_times a3" using s4 by (auto simp: finish_logs_def Let_def split: prod.splits if_splits)
  ultimately show ?thesis using times_ok_times by blast
qed

text \<open>
  With a clock that does not run backwards, the start of every activation is not after its
  end, and the time between them covers the initialisation, whichever path the invocation took:
  the start is moved back by the time the initialisation took, so that the duration of a cold
  run is the sum of both phases.
\<close>

theorem Invoke_times_ordered:
  assumes "clock_ok clk env" and "Invoke env msg w = (a, w')"
  shows "act_Start a \<le> act_End a \<and> 0 \<le> act_InitTime a \<and> act_InitTime a \<le> act_End a - act_Start a"
proof -
  obtain now w1 where now: "re_Now env w = (now, w1)" by force
  obtain a2 w2 where f: "invoke_function env msg (new_activation msg now) w1 = (a2, w2)" by force
  have a: "a = a2" using assms(2) by (auto simp: Invoke_def now f split: if_splits)
  have new: "times_ok (new_activation msg now)" by (simp add: times_ok_def new_activation_def)
  have "times_ok (b\<lparr>act_Function := x\<rparr>) = times_ok b" "times_ok (set_response code err b) = times_ok b"
    "times_ok (provision_failure e b) = times_ok b" for b x code err e
    by (rule times_ok_times, simp)+
  then have "times_ok a2"
    using f new invoke_in_container_times [OF assms(1)]
    by (auto simp: invoke_function_def Let_def split: prod.splits sum.splits if_splits)
  then show ?thesis by (simp add: a times_ok_def)
qed

section \<open>Log collection against a reference\<close>

text \<open>The lines up to the point where both sentinels were seen, and as many messages as fit.\<close>

fun until_sentinels :: "bool \<Rightarrow> bool \<Rightarrow> LogLine list \<Rightarrow> LogLine list" where
  "until_sentinels out err [] = []"
| "until_sentinels out err (l # ls) =
     (if out \<and> err then []
      else l # until_sentinels (out \<or> ll_IsSentinel l \<and> ll_Stream l = LogStreamStdout)
                 (err \<or> ll_IsSentinel l \<and> ll_Stream l \<noteq> LogStreamStdout) ls)"

fun fitting :: "nat \<Rightarrow> string list \<Rightarrow> string list" where
  "fitting n [] = []"
| "fitting n (m # ms) = (if length m \<le> n then m # fitting (n - length m) ms else [])"

definition messages :: "(Time \<Rightarrow> string) \<Rightarrow> LogLine list \<Rightarrow> string list" where
  "messages format ls = map (\<lambda>l. formatLog format (ll_Time l) (ll_Stream l) (ll_Message l)) (filter (\<lambda>l. \<not> ll_IsSentinel l) ls)"

definition truncated_to :: "nat \<Rightarrow> string \<Rightarrow> string list \<Rightarrow> string list" where
  "truncated_to n note ms = (if fitting n ms = ms then ms else fitting n ms @ [note])"

lemma truncated_to_simps [simp]:
  "truncated_to n note [] = []"
  "truncated_to n note (m # ms) = (if length m \<le> n then m # truncated_to (n - length m) note ms else [note])"
  by (simp_all add: truncated_to_def)

lemma messages_simps [simp]:
  "messages format [] = []"
  "messages format (l # ls) = (if ll_IsSentinel l then messages format ls
     else formatLog format (ll_Time l) (ll_Stream l) (ll_Message l) # messages format ls)"
  by (simp_all add: messages_def)

lemma until_sentinels_done [simp]: "until_sentinels True True ls = []"
  by (cases ls) simp_all

lemma collect_loop_done: "col_stdout s \<Longrightarrow> col_stderr s \<Longrightarrow> collect_loop format now limit ls s = (s, ls)"
  by (subst collect_loop.simps) simp

lemma collect_loop_step:
  "\<not> (col_stdout s \<and> col_stderr s) \<Longrightarrow>
   collect_loop format now limit (l # ls) s = collect_loop format now limit ls (collect_line format now limit l s)"
  by (subst collect_loop.simps) auto

lemma collect_loop_Nil: "collect_loop format now limit [] s = (s, [])"
  by (subst collect_loop.simps) simp

lemma collect_line_sentinels:
  "col_stdout (collect_line format now limit l s) = (col_stdout s \<or> ll_IsSentinel l \<and> ll_Stream l = LogStreamStdout)"
  "col_stderr (collect_line format now limit l s) = (col_stderr s \<or> ll_IsSentinel l \<and> ll_Stream l \<noteq> LogStreamStdout)"
  by (simp_all add: collect_line_def Let_def)

lemma collect_loop_exceeded:
  "col_exceeded s \<Longrightarrow> col_logs (fst (collect_loop format now limit ls s)) = col_logs s"
proof (induction ls arbitrary: s)
  case (Cons l ls)
  have "col_exceeded (collect_line format now limit l s)" "col_logs (collect_line format now limit l s) = col_logs s"
    using Cons.prems by (simp_all add: collect_line_def)
  with Cons.IH show ?case
    by (cases "col_stdout s \<and> col_stderr s") (simp_all add: collect_loop_done collect_loop_step)
qed (simp add: collect_loop_Nil)

lemma collect_loop_rest:
  "snd (collect_loop format now limit ls s) = drop (length (until_sentinels (col_stdout s) (col_stderr s) ls)) ls"
proof (induction ls arbitrary: s)
  case (Cons l ls)
  show ?case
  proof (cases "col_stdout s \<and> col_stderr s")
    case True
    then show ?thesis by (simp add: collect_loop_done)
  next
    case False
    with Cons.IH [of "collect_line format now limit l s"] show ?thesis
      by (simp add: collect_loop_step collect_line_sentinels)
  qed
qed (simp add: collect_loop_Nil)

lemma collect_loop_logs:
  assumes "\<forall>l \<in> set ls. unat limit + length (formatLog format (ll_Time l) (ll_Stream l) (ll_Message l)) < 2 ^ 64"
    and "\<not> col_exceeded s" and "unat (col_collected s) \<le> unat limit"
  shows "col_logs (fst (collect_loop format now limit ls s)) = col_logs s @
    truncated_to (unat limit - unat (col_collected s)) (formatLog format now LogStreamStderr (ErrorFunctionTruncatedLogs limit))
      (messages format (until_sentinels (col_stdout s) (col_stderr s) ls))"
  using assms
proof (induction ls arbitrary: s)
  case (Cons l ls)
  show ?case
  proof (cases "col_stdout s \<and> col_stderr s")
    case True
    then show ?thesis by (simp add: collect_loop_done)
  next
    case False
    let ?m = "formatLog format (ll_Time l) (ll_Stream l) (ll_Message l)"
    let ?s = "collect_line format now limit l s"
    have size: "unat (of_nat (length ?m) :: ByteSize) = length ?m"
      and sum: "unat (col_collected s + of_nat (length ?m)) = unat (col_collected s) + length ?m"
      using Cons.prems by (simp_all add: unat_of_nat_small unat_plus_no_wrap)
    show ?thesis
    proof (cases "\<not> ll_IsSentinel l \<and> limit < col_collected s + of_nat (length ?m)")
      case True
      then have "col_exceeded ?s" "col_logs ?s = col_logs s @ [formatLog format now LogStreamStderr (ErrorFunctionTruncatedLogs limit)]"
        using Cons.prems by (simp_all add: collect_line_def Let_def)
      then have "col_logs (fst (collect_loop format now limit (l # ls) s)) =
          col_logs s @ [formatLog format now LogStreamStderr (ErrorFunctionTruncatedLogs limit)]"
        by (simp add: collect_loop_step [OF False] collect_loop_exceeded)
      moreover have "\<not> length ?m \<le> unat limit - unat (col_collected s)"
        using True sum Cons.prems(3) unfolding word_less_nat_alt by linarith
      ultimately show ?thesis using True False by simp
    next
      case fits: False
      then have "\<not> col_exceeded ?s" "unat (col_collected ?s) \<le> unat limit"
        using Cons.prems sum by (auto simp: collect_line_def Let_def word_less_nat_alt)
      from Cons.IH [OF _ this] Cons.prems(1)
      have "col_logs (fst (collect_loop format now limit ls ?s)) = col_logs ?s @
          truncated_to (unat limit - unat (col_collected ?s)) (formatLog format now LogStreamStderr (ErrorFunctionTruncatedLogs limit))
            (messages format (until_sentinels (col_stdout ?s) (col_stderr ?s) ls))" by simp
      then show ?thesis
        using False fits Cons.prems(2) sum
        by (auto simp: collect_loop_step collect_line_sentinels, auto simp: collect_line_def Let_def word_less_nat_alt)
    qed
  qed
qed (simp add: collect_loop_Nil)

text \<open>
  C20. The log collection equals its reference: of the lines up to the point where the sentinels
  of both streams were seen, it returns the longest prefix of the formatted messages whose total
  size is within the limit, followed by one line that reports the truncation exactly when a
  message was left out; lines after the second sentinel stay in the channel for the next
  invocation.
\<close>

theorem collectLogs_reference:
  assumes "\<forall>l \<in> set lines. unat limit + length (formatLog format (ll_Time l) (ll_Stream l) (ll_Message l)) < 2 ^ 64"
  shows "collectLogs format now lines limit =
      (let ms = messages format (until_sentinels False False lines) in
       if fitting (unat limit) ms = ms then ms
       else fitting (unat limit) ms @ [formatLog format now LogStreamStderr (ErrorFunctionTruncatedLogs limit)]) \<and>
    snd (collect_loop format now limit lines collect_start) = drop (length (until_sentinels False False lines)) lines"
  using collect_loop_logs [OF assms, of collect_start now] collect_loop_rest [of format now limit lines collect_start]
  by (simp add: collectLogs_def collect_start_def truncated_to_def Let_def)

section \<open>Witnesses\<close>

definition example_runner :: "nat RunnerEnv" where
  "example_runner =
     \<lparr>re_Now = \<lambda>w. (int w, w), re_Get = \<lambda>ns f kind m w. (Inr (new_pooled \<lparr>ctr_ID = ''1'', ctr_IP = ''''\<rparr> zero_WarmContainerKey m, False), w + 1),
      re_Put = \<lambda>c w. w + 1, re_PutToDestroy = \<lambda>c w. (None, w + 1),
      re_GetFunction = \<lambda>fqn rv w. (Inr \<lparr>fn_Name = ''f'', fn_Namespace = ''ns'',
         fn_Exec = \<lparr>exec_Kind = ''go'', exec_Code = \<lparr>fc_Resolved = ''code'', fc_AttachmentID = '''', fc_IsBinary = False\<rparr>,
                    exec_Main = '''', exec_Binary = False\<rparr>,
         fn_Annotations = [], fn_Limits = \<lparr>lim_Timeout = Second, lim_Memory = 5, lim_Logs = 100\<rparr>\<rparr>, w + 1),
      re_WriteActivation = \<lambda>a w. (None, w + 1), re_Initialize = \<lambda>c p w. (([], None), w + 2),
      re_Run = \<lambda>c p w. ((''{}'', None), w + 3),
      re_State = \<lambda>c w. (Inr zero_ContainerState, w),
      re_Logs = \<lambda>c w. (([], False, 0), w), re_TimeFormat = \<lambda>t. ''T'',
      re_UnmarshalObject = \<lambda>b. if b = [] then Inl (ErrorString ''unexpected end of JSON input'') else Inr (Some []),
      re_UnmarshalError = \<lambda>b. Inl (ErrorString ''invalid'')\<rparr>"

definition example_msg :: ActivationMessage where
  "example_msg =
     \<lparr>am_TransactionID = ''t'', am_TransactionStart = 0, am_ActivationID = ''a'', am_RootControllerIndex = ''0'',
      am_CausedBy = '''', am_IsBlocking = False,
      am_Function = \<lparr>amf_Namespace = ''ns'', amf_Name = ''f'', amf_Version = ''1'', amf_Revision = ''1'', amf_Binding = ''''\<rparr>,
      am_InvocationIdentity = \<lparr>ii_Subject = ''s'', ii_Namespace = ''ns'', ii_Annotations = [], ii_APIKey = ''k'', ii_StoreActivations = True\<rparr>,
      am_Parameters = None, am_InitParameters = None\<rparr>"

theorem Invoke_container_lifecycle_witness:
  "\<exists>a w' evs calls. Invoke (traced example_runner) example_msg (0, []) = (a, w', evs) \<and> length evs = 7 \<and> evs = calls @ [EvWrite a]"
proof -
  obtain a w' evs where r: "Invoke (traced example_runner) example_msg (0, []) = (a, w', evs)" by (metis prod_cases3)
  have "length (snd (snd (Invoke (traced example_runner) example_msg (0, [])))) = 7" by code_simp
  with Invoke_container_lifecycle [OF r] r show ?thesis by (fastforce simp: example_msg_def)
qed

theorem Invoke_response_consistent_witness:
  "ar_StatusCode (act_Response (fst (Invoke example_runner example_msg 0))) = Success \<and>
   ar_Error (act_Response (fst (Invoke example_runner example_msg 0))) = ''''"
proof -
  have ok: "ar_StatusCode (act_Response (fst (Invoke example_runner example_msg 0))) = Success" by code_simp
  have "\<exists>e. re_UnmarshalObject example_runner [] = Inl e" by (simp add: example_runner_def)
  from Invoke_response_consistent [OF this, of example_msg 0 "fst (Invoke example_runner example_msg 0)" "snd (Invoke example_runner example_msg 0)"] ok
  show ?thesis by simp
qed

theorem Invoke_times_ordered_witness:
  "act_End (fst (Invoke example_runner example_msg 0)) - act_Start (fst (Invoke example_runner example_msg 0)) = 5 \<and>
   act_InitTime (fst (Invoke example_runner example_msg 0)) \<le> 5"
proof -
  let ?a = "fst (Invoke example_runner example_msg 0)"
  have d: "act_End ?a - act_Start ?a = 5" by code_simp
  have "clock_ok int example_runner" by (simp add: clock_ok_def example_runner_def)
  from Invoke_times_ordered [OF this, of example_msg 0 ?a "snd (Invoke example_runner example_msg 0)"] d show ?thesis by simp
qed

definition example_line :: "string \<Rightarrow> string \<Rightarrow> bool \<Rightarrow> LogLine" where
  "example_line stream msg sentinel = \<lparr>ll_Message = msg, ll_Stream = stream, ll_Time = 0, ll_IsSentinel = sentinel\<rparr>"

definition example_lines :: "LogLine list" where
  "example_lines = [example_line ''stdout'' ''one'' False, example_line ''stderr'' '''' True,
     example_line ''stdout'' ''two'' False, example_line ''stdout'' '''' True, example_line ''stdout'' ''next'' False]"

theorem collectLogs_reference_witness:
  "collectLogs (\<lambda>_. ''T'') 0 example_lines 50 =
     [formatLog (\<lambda>_. ''T'') 0 ''stdout'' ''one'', formatLog (\<lambda>_. ''T'') 0 ''stderr'' (ErrorFunctionTruncatedLogs 50)]"
proof -
  have "\<forall>l \<in> set example_lines. unat (50 :: ByteSize) + length (formatLog (\<lambda>_. ''T'') (ll_Time l) (ll_Stream l) (ll_Message l)) < 2 ^ 64"
    by (simp add: example_lines_def example_line_def formatLog_def pad_right_def)
  moreover have "fitting (unat (50 :: ByteSize)) (messages (\<lambda>_. ''T'') (until_sentinels False False example_lines))
      = [formatLog (\<lambda>_. ''T'') 0 ''stdout'' ''one'']"
    "[formatLog (\<lambda>_. ''T'') 0 ''stdout'' ''one''] \<noteq> messages (\<lambda>_. ''T'') (until_sentinels False False example_lines)"
    by code_simp+
  ultimately show ?thesis
    using collectLogs_reference [of example_lines 50 "\<lambda>_. ''T''" 0]
    by (auto simp: LogStreamStderr_def Let_def split: if_splits)
qed

end
