(* ===== verification/Entities_Properties.thy ===== *)
theory Entities_Properties
  imports Entities
begin

text \<open>
  Properties of \<open>pkg/entities\<close>: inlined code and limits survive their encoding, and the marshalled
  form of an activation is well formed.
\<close>

section \<open>Inlined code\<close>

text \<open>
  C27. Code that the controller inlines into the attachment's name comes out as it went in. With the
  length of the code beside it, plain text resolves to exactly the code, and binary code to the
  standard base64 form, which decodes to exactly the code, although the name uses the
  alphabet for URLs. A length that is too large pads plain text with zero bytes; one that is
  too small makes the invoker panic.
\<close>

theorem FunctionCode_inlined_roundtrip:
  assumes "\<not> cv_IsString v" and "cv_attachmentName v = memPrefix @ EncodeToString URLEncoding code" and "code \<noteq> []"
    and "cv_length v > 0"
  shows "(int (length code) \<le> cv_length v \<longrightarrow>
      (\<exists>c'. FunctionCode_UnmarshalJSON (Inr v) c = Returns (None, c') \<and>
        (if cv_attachmentType v = binaryType then DecodeString StdEncoding (fc_Resolved c') = Inr code
         else fc_Resolved c' = code @ replicate (nat (cv_length v) - length code) (CHR 0x00)) \<and>
        fc_AttachmentID c' = fc_AttachmentID c)) \<and>
    (cv_length v < int (length code) \<longrightarrow> (\<exists>m. FunctionCode_UnmarshalJSON (Inr v) c = Panics m))"
  using assms
  by (auto simp: FunctionCode_UnmarshalJSON_def Let_def url.Decode_into_EncodeToString std.DecodeString_EncodeToString
      nat_less_iff nat_le_iff not_less)

section \<open>Limits\<close>

text \<open>
  The third-party parser: it reads the three integers of an object that is printed without blanks.
\<close>

definition reads_limits :: "(bytes \<Rightarrow> (string \<Rightarrow> int) result) \<Rightarrow> bool" where
  "reads_limits parse =
     (\<forall>t m l. - (2 ^ 63) \<le> t \<and> t < 2 ^ 63 \<and> m < 2 ^ 63 \<and> l < 2 ^ 63 \<longrightarrow>
        (\<exists>get. parse (''{\"timeout\":'' @ fmt_i t @ '',\"memory\":'' @ fmt_d m @ '',\"logs\":'' @ fmt_d l @ ''}'') = Inr get \<and>
           get ''timeout'' = t \<and> get ''memory'' = int m \<and> get ''logs'' = int l))"

lemma whole_units: "unat (x :: ByteSize) mod unat unit = 0 \<Longrightarrow> of_int (int (unat (x div unit))) * unit = x"
proof -
  assume "unat x mod unat unit = 0"
  then have "unat (x mod unit) = 0" by (simp only: unat_mod_distrib)
  then have "x mod unit = 0" by (simp only: unat_eq_zero)
  then have "x div unit * unit = x" using div_mult_mod_eq [of x unit] by simp
  then show ?thesis by simp
qed

text \<open>
  Limits that the controller can express (whole milliseconds, megabytes and kilobytes)
  survive being written into an activation and read again.
\<close>

theorem Limits_roundtrip:
  assumes "reads_limits parse"
    and "lim_Timeout l = t * Millisecond" and "- (2 ^ 63) \<le> lim_Timeout l" and "lim_Timeout l < 2 ^ 63"
    and "unat (lim_Memory l) mod 1048576 = 0" and "unat (lim_Logs l) mod 1024 = 0"
  shows "Limits_UnmarshalJSON (parse (Limits_MarshalJSON l)) l0 = (None, l)"
proof -
  have t: "Milliseconds (lim_Timeout l) = t"
    using assms(2) by (auto simp: Milliseconds_def Millisecond_def)
  have range: "- (2 ^ 63) \<le> t \<and> t < 2 ^ 63" using assms(2-4) by (simp add: Millisecond_def)
  have m: "unat (lim_Memory l div Megabyte) < 2 ^ 63" "unat (lim_Logs l div Kilobyte) < 2 ^ 63"
    using unsigned_less [of "lim_Memory l", where ?'a = nat] unsigned_less [of "lim_Logs l", where ?'a = nat]
    by (auto simp: unat_div size_defs intro!: less_mult_imp_div_less)
  obtain get where g: "parse (Limits_MarshalJSON l) = Inr get" "get ''timeout'' = t"
    "get ''memory'' = int (unat (lim_Memory l div Megabyte))" "get ''logs'' = int (unat (lim_Logs l div Kilobyte))"
    using assms(1) range m unfolding reads_limits_def Limits_MarshalJSON_def t by blast
  have "sint (of_int x :: 64 word) = x" if "- (2 ^ 63) \<le> x" "x < 2 ^ 63" for x
    using that by (simp add: signed_of_int signed_take_bit_int_eq_self)
  from this [of "t * Millisecond"] have "sint (of_int (t * Millisecond) :: 64 word) = lim_Timeout l"
    using assms(2-4) by (simp only: )
  moreover have "of_int (int (unat (lim_Memory l div Megabyte))) * Megabyte = lim_Memory l"
    using whole_units [of "lim_Memory l" Megabyte] assms(5) by (simp add: size_defs)
  moreover have "of_int (int (unat (lim_Logs l div Kilobyte))) * Kilobyte = lim_Logs l"
    using whole_units [of "lim_Logs l" Kilobyte] assms(6) by (simp add: size_defs)
  ultimately show ?thesis by (simp add: Limits_UnmarshalJSON_def g)
qed

section \<open>Marshalled activations\<close>

lemma distinct_schema_annotations:
  "distinct (map fst (act_Annotations a)) \<Longrightarrow> distinct (map fst (schema_annotations gbs a))"
  by (simp add: schema_annotations_def Let_def distinct_update)

text \<open>
  What the controller expects of an activation: the annotations as a map, those of the activation overridden by the ones that
  carry its fields, and the document as a map from the names of its fields to their values.
\<close>

definition annotation_schema :: "(ByteSize \<Rightarrow> Duration \<Rightarrow> any) \<Rightarrow> Activation \<Rightarrow> string \<rightharpoonup> any" where
  "annotation_schema gbs a = map_of (act_Annotations a)
     ++ [''path'' \<mapsto> AString (af_Path (act_Function a)), ''kind'' \<mapsto> AString (af_Kind (act_Function a)),
         ''entry'' \<mapsto> AString (af_Entrypoint (act_Function a)), ''limits'' \<mapsto> ALimits (af_Limits (act_Function a)),
         ''timeout'' \<mapsto> ABool (act_IsTimeout a), ''gbs'' \<mapsto> Activation_GigabyteSeconds gbs a]
     ++ (if af_Binding (act_Function a) = '''' then Map.empty else [''binding'' \<mapsto> AString (af_Binding (act_Function a))])
     ++ (if act_WaitTime a > 0 then [''waitTime'' \<mapsto> AInt (Milliseconds (act_WaitTime a))] else Map.empty)
     ++ (if act_InitTime a > 0 then [''initTime'' \<mapsto> AInt (Milliseconds (act_InitTime a))] else Map.empty)
     ++ (if act_Cause a = '''' then Map.empty else [''causedBy'' \<mapsto> AString ''sequence''])"

definition document_schema :: "Activation \<Rightarrow> (string \<times> any) list \<Rightarrow> bytes \<Rightarrow> string \<rightharpoonup> json" where
  "document_schema a annotations result =
     [''activationId'' \<mapsto> JString (act_ActivationID a), ''namespace'' \<mapsto> JString (act_Namespace a),
      ''subject'' \<mapsto> JString (act_Subject a), ''name'' \<mapsto> JString (af_Name (act_Function a)),
      ''version'' \<mapsto> JString (af_Version (act_Function a)), ''annotations'' \<mapsto> JAnnotations annotations,
      ''logs'' \<mapsto> JStrings (act_Logs a), ''start'' \<mapsto> JInt (UnixMilli (act_Start a)), ''end'' \<mapsto> JInt (UnixMilli (act_End a)),
      ''duration'' \<mapsto> JInt (Milliseconds (act_End a - act_Start a)), ''publish'' \<mapsto> JBoolean False,
      ''response'' \<mapsto> JObject [(''result'', JRawMessage result),
        (''statusCode'', JInt (status_number (ar_StatusCode (act_Response a)))), (''size'', JInt (int (length result)))]]
     ++ (if act_Cause a = '''' then Map.empty else [''cause'' \<mapsto> JString (act_Cause a)])"

lemma schema_annotations_schema:
  "map_of (if act_Cause a \<noteq> '''' then AList.update ''causedBy'' (AString ''sequence'') (schema_annotations gbs a)
     else schema_annotations gbs a) = annotation_schema gbs a"
  by (rule ext) (simp add: annotation_schema_def schema_annotations_def Let_def update_conv' map_add_def)

lemma Annotations_list_map_of:
  assumes "gm_order order" and "distinct (map fst a)"
  shows "map_of (Annotations_list order a) = map_of a \<and> sorted (map fst (Annotations_list order a)) \<and>
    distinct (map fst (Annotations_list order a))"
proof -
  let ?xs = "map (\<lambda>k. (k, the (map_of a k))) (order a)"
  have keys: "map fst ?xs = order a" by (simp add: o_def)
  have "mset (map fst (sort_key fst ?xs)) = mset (map fst ?xs)" by (simp only: mset_map mset_sort)
  then have "mset (map fst (sort_key fst ?xs)) = mset (order a)" by (simp only: keys)
  then have d: "distinct (map fst (sort_key fst ?xs))"
    using gm_order_distinct [OF assms] mset_eq_imp_distinct_iff by blast
  have "set ?xs = (\<lambda>p. (fst p, the (map_of a (fst p)))) ` set a"
    using gm_order_set [OF assms] by (simp add: image_image)
  also have "\<dots> = (\<lambda>p. p) ` set a"
    by (rule image_cong) (auto simp: map_of_is_SomeI [OF assms(2)])
  finally have "set ?xs = set a" by simp
  then have "map_of (sort_key fst ?xs) = map_of a"
    using map_of_inject_set [OF d assms(2)] by simp
  with d sorted_sort_key [of fst ?xs] show ?thesis by (simp add: Annotations_list_def)
qed

lemma activation_fields_schema:
  "distinct (map fst (activation_fields a annotations result (length result)))"
  "map_of (activation_fields a annotations result (length result)) = document_schema a annotations result"
  by (simp add: activation_fields_def, rule ext, simp add: document_schema_def activation_fields_def map_add_def)


section \<open>Witnesses\<close>

theorem FunctionCode_inlined_roundtrip_witness:
  "\<exists>c'. FunctionCode_UnmarshalJSON (Inr \<lparr>cv_IsString = False, cv_String = '''', cv_attachmentName = ''mem:Pz5-'',
      cv_attachmentType = binaryType, cv_length = 3\<rparr>) \<lparr>fc_Resolved = '''', fc_AttachmentID = '''', fc_IsBinary = False\<rparr> = Returns (None, c') \<and>
     DecodeString StdEncoding (fc_Resolved c') = Inr ''?>~''"
proof -
  let ?v = "\<lparr>cv_IsString = False, cv_String = '''', cv_attachmentName = ''mem:Pz5-'', cv_attachmentType = binaryType, cv_length = 3\<rparr>"
  have "cv_attachmentName ?v = memPrefix @ EncodeToString URLEncoding ''?>~''"
    by (simp add: memPrefix_def sextets_def byte_val_def URLEncoding_def alphabet_start_def)
  from FunctionCode_inlined_roundtrip [OF _ this, of "\<lparr>fc_Resolved = '''', fc_AttachmentID = '''', fc_IsBinary = False\<rparr>"]
  show ?thesis by auto
qed

text \<open>A parser for the three fields.\<close>

definition parse_int :: "string \<Rightarrow> int" where
  "parse_int s = (case s of
      CHR ''-'' # ds \<Rightarrow> - int (the (parse_digits 0 ds))
    | _ \<Rightarrow> int (the (parse_digits 0 s)))"

definition limits_parser :: "bytes \<Rightarrow> (string \<Rightarrow> int) result" where
  "limits_parser bs =
     (let t = takeWhile (\<lambda>c. c \<noteq> CHR '','') (drop 11 bs);
          r1 = drop 10 (dropWhile (\<lambda>c. c \<noteq> CHR '','') (drop 11 bs));
          m = takeWhile (\<lambda>c. c \<noteq> CHR '','') r1;
          l = takeWhile (\<lambda>c. c \<noteq> CHR ''}'') (drop 8 (dropWhile (\<lambda>c. c \<noteq> CHR '','') r1))
      in Inr (\<lambda>k. if k = ''timeout'' then parse_int t else if k = ''memory'' then parse_int m else parse_int l))"

lemma takeWhile_fmt:
  "\<not> is_digit x \<Longrightarrow> x \<noteq> CHR ''-'' \<Longrightarrow> takeWhile (\<lambda>c. c \<noteq> x) (fmt_i i @ x # r) = fmt_i i"
  "\<not> is_digit x \<Longrightarrow> takeWhile (\<lambda>c. c \<noteq> x) (fmt_d n @ x # r) = fmt_d n"
  by (auto simp: takeWhile_tail fmt_i_def dest: fmt_d_digits)

lemma dropWhile_fmt:
  "\<not> is_digit x \<Longrightarrow> x \<noteq> CHR ''-'' \<Longrightarrow> dropWhile (\<lambda>c. c \<noteq> x) (fmt_i i @ x # r) = x # r"
  "\<not> is_digit x \<Longrightarrow> dropWhile (\<lambda>c. c \<noteq> x) (fmt_d n @ x # r) = x # r"
  by (auto simp: dropWhile_append3 fmt_i_def dest: fmt_d_digits)

lemma parse_int_digits: "parse_int (fmt_d n) = int n"
proof -
  have "is_digit (hd (fmt_d n))" by (rule fmt_d_digits [of _ n]) simp
  then have "hd (fmt_d n) \<noteq> CHR ''-''" by (auto simp: is_digit_def)
  then have "parse_int (fmt_d n) = int (the (parse_digits 0 (fmt_d n)))"
    by (cases "fmt_d n") (auto simp: parse_int_def split: list.splits char.splits bool.splits)
  then show ?thesis by (simp add: parse_digits_fmt_d)
qed

lemma parse_int_fmt_i: "parse_int (fmt_i i) = i"
  by (cases "i < 0") (simp_all add: fmt_i_def parse_int_digits, simp add: parse_int_def parse_digits_fmt_d)

lemma limits_parser_reads: "reads_limits limits_parser"
proof -
  have "\<not> is_digit (CHR '','')" "\<not> is_digit (CHR ''}'')" by (simp_all add: is_digit_def)
  then show ?thesis
    by (auto simp: reads_limits_def limits_parser_def Let_def takeWhile_fmt dropWhile_fmt parse_int_fmt_i parse_int_digits)
qed

definition example_limits :: Limits where
  "example_limits = \<lparr>lim_Timeout = 3000 * Millisecond, lim_Memory = 268435456, lim_Logs = 16384\<rparr>"

theorem Limits_roundtrip_witness:
  "Limits_UnmarshalJSON (limits_parser (Limits_MarshalJSON example_limits)) \<lparr>lim_Timeout = 0, lim_Memory = 0, lim_Logs = 0\<rparr> = (None, example_limits)"
  using Limits_roundtrip [OF limits_parser_reads, of example_limits 3000]
  by (simp add: example_limits_def Millisecond_def)

definition example_activation :: Activation where
  "example_activation =
     \<lparr>act_ActivationID = ''a'', act_Namespace = ''ns'', act_Subject = ''s'', act_Cause = '''',
      act_Annotations = [(''zone'', AString ''b''), (''path'', AString ''old'')],
      act_Function = \<lparr>af_Name = ''f'', af_Version = ''1'', af_Path = ''ns/f'', af_Kind = ''go'', af_Entrypoint = ''main'',
        af_Limits = example_limits, af_Binding = ''''\<rparr>,
      act_Start = 0, act_End = 5 * Millisecond, act_IsTimeout = False, act_InitTime = 0, act_WaitTime = 0,
      act_Response = \<lparr>ar_Result = [], ar_Error = ''no'', ar_StatusCode = DeveloperError\<rparr>, act_Logs = []\<rparr>"


end
