(* ===== verification/Encryption.thy ===== *)
theory Encryption
  imports Base64 Protocol
begin

text \<open>
  \<open>pkg/encryption\<close>: the keys from the configuration (\<open>keys.go\<close>) and the decryption of locked
  parameters (\<open>decryptor.go\<close>).

  AES-GCM (\<open>crypto/aes\<close>, \<open>crypto/cipher\<close>) is the parameter \<open>CipherOps\<close>: \<open>'b\<close> are blocks and \<open>'a\<close>
  AEADs. A map is an association list; \<open>order\<close> gives the order in which it is ranged over.
\<close>

type_synonym Keys = "(string \<times> bytes) list"

record ('b, 'a) CipherOps =
  ci_NewCipher :: "bytes \<Rightarrow> 'b result"
  ci_NewGCMWithNonceSize :: "'b \<Rightarrow> nat \<Rightarrow> 'a result"
  ci_Open :: "'a \<Rightarrow> bytes \<Rightarrow> bytes \<Rightarrow> bytes result"

record 'a Decryptor =
  de_keyNameToAEAD :: "(string \<times> 'a) list"

definition nonceSize :: nat where "nonceSize = 128"
definition nonceSizeLength :: nat where "nonceSizeLength = 4"

section \<open>Keys\<close>

fun decode_keys :: "(string \<times> string) list \<Rightarrow> Keys \<Rightarrow> Keys result" where
  "decode_keys [] keys = Inr keys"
| "decode_keys ((keyName, base64EncodedKey) # rest) keys =
     (case DecodeString StdEncoding base64EncodedKey of
        Inl err \<Rightarrow> Inl (Errorf (''failed to base64-decode key '' @ keyName @ '': %w'') [err])
      | Inr decodedKey \<Rightarrow> decode_keys rest (AList.update keyName decodedKey keys))"

text \<open>The argument is what \<open>json.Unmarshal\<close> gives, in the order in which it is ranged over.\<close>

definition Keys_Decode :: "(string \<times> string) list result \<Rightarrow> Keys \<Rightarrow> go_error option \<times> Keys" where
  "Keys_Decode base64Keys e =
     (case base64Keys of
        Inl err \<Rightarrow> (Some (Errorf ''failed to parse encryption config as JSON: %w'' [err]), e)
      | Inr ks \<Rightarrow> (case decode_keys ks [] of Inl err \<Rightarrow> (Some err, e) | Inr keys \<Rightarrow> (None, keys)))"

section \<open>The decryptor\<close>

fun create_aeads :: "('b, 'a) CipherOps \<Rightarrow> Keys \<Rightarrow> (string \<times> 'a) list \<Rightarrow> (string \<times> 'a) list result" where
  "create_aeads ops [] keyNameToAEAD = Inr keyNameToAEAD"
| "create_aeads ops ((keyName, key) # keys) keyNameToAEAD =
     (case ci_NewCipher ops key of
        Inl err \<Rightarrow> Inl (Errorf ''failed to create cipher block from key: %w'' [err])
      | Inr block \<Rightarrow>
          (case ci_NewGCMWithNonceSize ops block nonceSize of
             Inl err \<Rightarrow> Inl (Errorf ''failed to create GCM instance: %w'' [err])
           | Inr aesgcm \<Rightarrow> create_aeads ops keys (AList.update keyName aesgcm keyNameToAEAD)))"

definition NewDecryptor :: "('b, 'a) CipherOps \<Rightarrow> Keys \<Rightarrow> 'a Decryptor result" where
  "NewDecryptor ops keys =
     (case create_aeads ops keys [] of Inl err \<Rightarrow> Inl err | Inr m \<Rightarrow> Inr \<lparr>de_keyNameToAEAD = m\<rparr>)"

text \<open>\<open>binary.BigEndian.Uint32\<close>; it is only called on more than four bytes.\<close>

definition Uint32 :: "bytes \<Rightarrow> 32 word" where
  "Uint32 b = of_nat (((byte_val (b ! 0) * 256 + byte_val (b ! 1)) * 256 + byte_val (b ! 2)) * 256 + byte_val (b ! 3))"

definition Decrypt :: "('b, 'a) CipherOps \<Rightarrow> 'a Decryptor \<Rightarrow> string \<Rightarrow> bytes \<Rightarrow> bytes result" where
  "Decrypt ops d keyName encrypted =
     (case map_of (de_keyNameToAEAD d) keyName of
        None \<Rightarrow> Inl (ErrorString (''failed to find key for name '' @ go_quote keyName))
      | Some aesgcm \<Rightarrow>
          (if length encrypted \<le> nonceSizeLength + nonceSize then
             Inl (ErrorString (''malformed encrypted value: length '' @ fmt_d (length encrypted) @ '' <= ''
                    @ fmt_d (nonceSizeLength + nonceSize)))
           else if Uint32 encrypted \<noteq> of_nat nonceSize then
             Inl (ErrorString (''malformed encrypted value: wrong nonce-length of '' @ fmt_d (unat (Uint32 encrypted))))
           else ci_Open ops aesgcm (take nonceSize (drop nonceSizeLength encrypted)) (drop (nonceSizeLength + nonceSize) encrypted)))"

section \<open>Lemmas\<close>

text \<open>The AEAD of a key of the configuration, however the map is ranged over.\<close>

lemma decode_keys_lookup:
  assumes "decode_keys ks acc = Inr keys" and "distinct (map fst ks)"
  shows "map_of keys n = (case map_of ks n of None \<Rightarrow> map_of acc n | Some s \<Rightarrow> (case DecodeString StdEncoding s of Inl _ \<Rightarrow> None | Inr b \<Rightarrow> Some b))"
  using assms
proof (induction ks acc rule: decode_keys.induct)
  case (2 k s rest acc)
  then obtain b where b: "DecodeString StdEncoding s = Inr b" by (auto split: sum.splits)
  have "map_of rest k = None" using 2(3) by (simp add: map_of_eq_None_iff)
  with 2 b show ?case by (auto simp: update_conv' split: option.splits)
qed simp

definition aead_of :: "('b, 'a) CipherOps \<Rightarrow> bytes \<Rightarrow> 'a result" where
  "aead_of ops key = (case ci_NewCipher ops key of Inl e \<Rightarrow> Inl e | Inr block \<Rightarrow> ci_NewGCMWithNonceSize ops block nonceSize)"

lemma create_aeads_lookup:
  assumes "create_aeads ops keys acc = Inr m" and "distinct (map fst keys)"
  shows "map_of m n = (case map_of keys n of None \<Rightarrow> map_of acc n | Some key \<Rightarrow> (case aead_of ops key of Inl _ \<Rightarrow> None | Inr a \<Rightarrow> Some a))"
  using assms
proof (induction ops keys acc rule: create_aeads.induct)
  case (2 ops k key keys acc)
  then obtain block a where a: "ci_NewCipher ops key = Inr block" "ci_NewGCMWithNonceSize ops block nonceSize = Inr a"
    by (auto split: sum.splits)
  have "map_of keys k = None" using 2(3) by (simp add: map_of_eq_None_iff)
  with 2 a show ?case by (auto simp: update_conv' aead_of_def split: option.splits)
qed simp

lemma decode_keys_distinct: "decode_keys ks acc = Inr keys \<Longrightarrow> distinct (map fst acc) \<Longrightarrow> distinct (map fst keys)"
  by (induction ks acc rule: decode_keys.induct) (auto simp: distinct_update split: sum.splits)

section \<open>The format of an encrypted value\<close>

text \<open>What the controller produces: the length of the nonce, the nonce and the sealed text.\<close>

definition sealed_value :: "(bytes \<Rightarrow> bytes \<Rightarrow> bytes) \<Rightarrow> bytes \<Rightarrow> bytes \<Rightarrow> bytes" where
  "sealed_value seal nonce plain = [CHR 0x00, CHR 0x00, CHR 0x00, CHR 0x80] @ nonce @ seal nonce plain"

text \<open>What is documented of an AEAD and its \<open>Seal\<close>.\<close>

definition opens :: "('b, 'a) CipherOps \<Rightarrow> 'a \<Rightarrow> (bytes \<Rightarrow> bytes \<Rightarrow> bytes) \<Rightarrow> bool" where
  "opens ops a seal =
     (\<forall>nonce plain. length nonce = nonceSize \<longrightarrow> ci_Open ops a nonce (seal nonce plain) = Inr plain \<and> seal nonce plain \<noteq> [])"

lemma Decrypt_sealed_value:
  assumes "map_of (de_keyNameToAEAD d) keyName = Some a" and "opens ops a seal" and "length nonce = 128"
  shows "Decrypt ops d keyName (sealed_value seal nonce plain) = Inr plain"
proof -
  have "ci_Open ops a nonce (seal nonce plain) = Inr plain" "seal nonce plain \<noteq> []"
    using assms(2,3) by (simp_all add: opens_def nonceSize_def)
  moreover have "Uint32 (sealed_value seal nonce plain) = of_nat nonceSize"
    by (simp add: Uint32_def sealed_value_def byte_val_def nonceSize_def)
  ultimately show ?thesis
    using assms(1,3) by (simp add: Decrypt_def sealed_value_def nonceSize_def nonceSizeLength_def)
qed

lemma Decrypt_success:
  assumes "Decrypt ops d keyName encrypted = Inr plain"
  shows "\<exists>a. map_of (de_keyNameToAEAD d) keyName = Some a \<and> 132 < length encrypted \<and> Uint32 encrypted = 128 \<and>
    ci_Open ops a (take 128 (drop 4 encrypted)) (drop 132 encrypted) = Inr plain"
  using assms by (auto simp: Decrypt_def nonceSize_def nonceSizeLength_def split: option.splits if_splits)

section \<open>Theorem\<close>

text \<open>
  C36. From the configured keys to the decrypted value. When the configuration decodes and the
  decryptor is created, a value that was sealed with a configured key, under a nonce of 128
  bytes and with the length of the nonce in front, decrypts to the plain text; a value whose key
  name is not configured, that is too short or whose nonce has another length is refused.
\<close>

theorem Decrypt_roundtrip:
  assumes "Keys_Decode (Inr ks) old = (None, keys)" and "NewDecryptor ops keys = Inr d" and "distinct (map fst ks)"
  shows "(\<forall>name key a seal nonce plain.
      (name, EncodeToString StdEncoding key) \<in> set ks \<and> aead_of ops key = Inr a \<and> opens ops a seal \<and> length nonce = 128 \<longrightarrow>
        Decrypt ops d name (sealed_value seal nonce plain) = Inr plain) \<and>
    (\<forall>name encrypted. name \<notin> fst ` set ks \<or> length encrypted \<le> 132 \<or> Uint32 encrypted \<noteq> 128 \<longrightarrow>
      (\<exists>err. Decrypt ops d name encrypted = Inl err))"
proof -
  have dk: "decode_keys ks [] = Inr keys" using assms(1) by (auto simp: Keys_Decode_def split: sum.splits)
  have ca: "create_aeads ops keys [] = Inr (de_keyNameToAEAD d)"
    using assms(2) by (auto simp: NewDecryptor_def split: sum.splits)
  have dist: "distinct (map fst keys)" using decode_keys_distinct [OF dk] by simp
  note aeads = create_aeads_lookup [OF ca dist] and keys = decode_keys_lookup [OF dk assms(3)]
  have known: "map_of (de_keyNameToAEAD d) name = Some a"
    if "(name, EncodeToString StdEncoding key) \<in> set ks" "aead_of ops key = Inr a" for name key a
    using that assms(3) by (simp add: aeads keys std.DecodeString_EncodeToString)
  have unknown: "map_of (de_keyNameToAEAD d) name = None" if "name \<notin> fst ` set ks" for name
    using that by (simp add: aeads keys map_of_eq_None_iff [THEN iffD2])
  have "\<exists>err. Decrypt ops d name encrypted = Inl err"
    if "name \<notin> fst ` set ks \<or> length encrypted \<le> 132 \<or> Uint32 encrypted \<noteq> 128" for name encrypted
  proof (cases "Decrypt ops d name encrypted")
    case (Inr plain)
    from Decrypt_success [OF this] unknown [of name] that
    show ?thesis by auto
  qed blast
  moreover have "Decrypt ops d name (sealed_value seal nonce plain) = Inr plain"
    if "(name, EncodeToString StdEncoding key) \<in> set ks \<and> aead_of ops key = Inr a \<and> opens ops a seal \<and> length nonce = 128"
    for name key a seal nonce plain
    using Decrypt_sealed_value [OF known [of name key a], of ops seal nonce plain] that by simp
  ultimately show ?thesis by metis
qed

text \<open>A cipher whose text is the plain text with a tag of one byte.\<close>

definition example_cipher :: "(bytes, bytes) CipherOps" where
  "example_cipher = \<lparr>ci_NewCipher = Inr, ci_NewGCMWithNonceSize = \<lambda>block n. Inr block,
     ci_Open = \<lambda>a nonce text. if text = [] then Inl (ErrorString ''cipher: message authentication failed'') else Inr (tl text)\<rparr>"

definition example_seal :: "bytes \<Rightarrow> bytes \<Rightarrow> bytes" where
  "example_seal nonce plain = CHR ''t'' # plain"

lemma example_opens: "opens example_cipher a example_seal"
  by (simp add: opens_def example_cipher_def example_seal_def)

theorem Decrypt_roundtrip_witness:
  "Decrypt example_cipher \<lparr>de_keyNameToAEAD = [(''k1'', ''secret'')]\<rparr> ''k1''
     (sealed_value example_seal (replicate 128 (CHR ''n'')) ''plain'') = Inr ''plain''"
proof -
  define coded where "coded = EncodeToString StdEncoding ''secret''"
  let ?ks = "[(''k1'', coded)]"
  have "Keys_Decode (Inr ?ks) [] = (None, [(''k1'', ''secret'')])"
    by (simp add: Keys_Decode_def std.DecodeString_EncodeToString [of "''secret''", folded coded_def])
  moreover have "NewDecryptor example_cipher [(''k1'', ''secret'')] = Inr \<lparr>de_keyNameToAEAD = [(''k1'', ''secret'')]\<rparr>"
    by (simp add: NewDecryptor_def example_cipher_def)
  moreover have "aead_of example_cipher ''secret'' = Inr ''secret''" by (simp add: aead_of_def example_cipher_def)
  ultimately show ?thesis
    using Decrypt_roundtrip [of ?ks "[]" "[(''k1'', ''secret'')]" example_cipher "\<lparr>de_keyNameToAEAD = [(''k1'', ''secret'')]\<rparr>"]
      example_opens [of "''secret''"] coded_def by (simp del: EncodeToString.simps)
qed

end
