(* ===== verification/Activation_Message.thy ===== *)
theory Activation_Message
  imports Encryption
begin

text \<open>
  \<open>ParseActivationMessage\<close> of \<open>pkg/protocol/activation.go\<close>: the message of a controller with its
  locked parameters decrypted and its parameters split into those for the initialisation and
  those for the run.

  The third-party JSON parser \<open>fastjson\<close> is the parameter \<open>FastJson\<close>: \<open>'v\<close> are its values and \<open>'o\<close>
  its objects, and a nil pointer is \<open>None\<close>. Its getters take the path of keys. \<open>Get\<close> of an object is documented to give the
  value or nil; what it does on a nil object is not documented, so that it is an outcome here: \<open>ParseActivationMessage\<close> calls it on
  the locked arguments without looking whether the message has any.
\<close>

record ('v, 'o) FastJson =
  fj_ParseBytes :: "bytes \<Rightarrow> 'v result"
  fj_Get :: "'v option \<Rightarrow> string list \<Rightarrow> 'v option"
  fj_GetArray :: "'v option \<Rightarrow> string list \<Rightarrow> 'v list"
  fj_GetObject :: "'v option \<Rightarrow> string list \<Rightarrow> 'o option"
  fj_GetStringBytes :: "'v option \<Rightarrow> string list \<Rightarrow> bytes"
  fj_GetInt64 :: "'v option \<Rightarrow> string list \<Rightarrow> int"
  fj_GetBool :: "'v option \<Rightarrow> string list \<Rightarrow> bool"
  fj_MarshalTo :: "'v \<Rightarrow> bytes"
  fj_Object_Get :: "'o option \<Rightarrow> string \<Rightarrow> 'v option outcome"
  fj_Object_Visit :: "'o \<Rightarrow> (string \<times> 'v) list"

section \<open>Parameters\<close>

text \<open>\<open>base64.StdEncoding.DecodedLen\<close>.\<close>

definition DecodedLen :: "nat \<Rightarrow> nat" where "DecodedLen n = n div 4 * 3"

definition unlock ::
  "('v, 'o) FastJson \<Rightarrow> ('b, 'a) CipherOps \<Rightarrow> 'a Decryptor \<Rightarrow> 'v \<Rightarrow> 'v \<Rightarrow> bytes result outcome" where
  "unlock fj ops d encryptionKeyVal v =
     (let encryptionKey = fj_GetStringBytes fj (Some encryptionKeyVal) [];
          base64Encoded = fj_GetStringBytes fj (Some v) []
      in case Decode_into StdEncoding (DecodedLen (length base64Encoded)) base64Encoded of
           Panics msg \<Rightarrow> Panics msg
         | Blocks \<Rightarrow> Blocks
         | Returns (n, Some err, decoded) \<Rightarrow> Returns (Inl (Errorf ''failed to base64-decode encrypted value: %w'' [err]))
         | Returns (n, None, decoded) \<Rightarrow>
             (case Decrypt ops d encryptionKey (take n decoded) of
                Inl err \<Rightarrow> Returns (Inl (Errorf ''failed to decrypt value: %w'' [err]))
              | Inr unlocked \<Rightarrow> Returns (Inr unlocked)))"

definition param_value ::
  "('v, 'o) FastJson \<Rightarrow> ('b, 'a) CipherOps \<Rightarrow> 'a Decryptor \<Rightarrow> 'o option \<Rightarrow> string \<Rightarrow> 'v \<Rightarrow> bytes result outcome" where
  "param_value fj ops d lockedParameters k v =
     (case fj_Object_Get fj lockedParameters k of
        Panics msg \<Rightarrow> Panics msg
      | Blocks \<Rightarrow> Blocks
      | Returns (Some encryptionKeyVal) \<Rightarrow> unlock fj ops d encryptionKeyVal v
      | Returns None \<Rightarrow> Returns (Inr (fj_MarshalTo fj v)))"

text \<open>The loop over the parameters; the accumulators are \<open>initParameters\<close> and \<open>runParameters\<close>.\<close>

fun split_params ::
  "(string \<Rightarrow> 'v \<Rightarrow> bytes result outcome) \<Rightarrow> string list \<Rightarrow> (string \<times> 'v) list
   \<Rightarrow> (string \<times> bytes) list \<Rightarrow> (string \<times> bytes) list
   \<Rightarrow> ((string \<times> bytes) list \<times> (string \<times> bytes) list) result outcome" where
  "split_params val initKeys [] inits runs = Returns (Inr (inits, runs))"
| "split_params val initKeys ((k, v) # ps) inits runs =
     (case val k v of
        Panics msg \<Rightarrow> Panics msg
      | Blocks \<Rightarrow> Blocks
      | Returns (Inl err) \<Rightarrow> Returns (Inl err)
      | Returns (Inr value) \<Rightarrow>
          (if k \<in> set initKeys then split_params val initKeys ps (AList.update k value inits) runs
           else split_params val initKeys ps inits (AList.update k value runs)))"

text \<open>\<open>Visit\<close> fills a map, which is then ranged over in some order.\<close>

fun visited :: "(string \<times> 'v) list \<Rightarrow> (string \<times> 'v) list \<Rightarrow> (string \<times> 'v) list" where
  "visited [] parameters = parameters"
| "visited ((k, v) # kvs) parameters = visited kvs (AList.update k v parameters)"

definition parse_params ::
  "((string \<times> 'v) list \<Rightarrow> string list) \<Rightarrow> ('v, 'o) FastJson \<Rightarrow> ('b, 'a) CipherOps \<Rightarrow> 'a Decryptor
   \<Rightarrow> string list \<Rightarrow> 'o option \<Rightarrow> 'o option \<Rightarrow> (raw_params \<times> raw_params) result outcome" where
  "parse_params order fj ops d initKeys lockedParameters contents =
     (case contents of
        None \<Rightarrow> Returns (Inr (None, None))
      | Some obj \<Rightarrow>
          (let parameters = visited (fj_Object_Visit fj obj) [];
               ranged = map (\<lambda>k. (k, the (map_of parameters k))) (order parameters)
           in case split_params (param_value fj ops d lockedParameters) initKeys ranged [] [] of
                Panics msg \<Rightarrow> Panics msg
              | Blocks \<Rightarrow> Blocks
              | Returns (Inl err) \<Rightarrow> Returns (Inl err)
              | Returns (Inr (inits, runs)) \<Rightarrow> Returns (Inr (Some inits, Some runs))))"

section \<open>The message\<close>

fun ns_annotations :: "('v, 'o) FastJson \<Rightarrow> 'v list \<Rightarrow> (string \<times> string) list \<Rightarrow> (string \<times> string) list" where
  "ns_annotations fj [] annos = annos"
| "ns_annotations fj (anno # rest) annos =
     ns_annotations fj rest
       (AList.update (fj_GetStringBytes fj (Some anno) [''key'']) (fj_GetStringBytes fj (Some anno) [''value'']) annos)"

definition init_keys :: "('v, 'o) FastJson \<Rightarrow> 'v option \<Rightarrow> string list" where
  "init_keys fj parsed = map (\<lambda>keyVal. fj_GetStringBytes fj (Some keyVal) []) (fj_GetArray fj parsed [''initArgs''])"

definition build_message ::
  "('v, 'o) FastJson \<Rightarrow> 'v option \<Rightarrow> 'v list \<Rightarrow> raw_params \<Rightarrow> raw_params \<Rightarrow> ActivationMessage" where
  "build_message fj parsed tidVals initParameters runParameters =
     (let actionVal = fj_Get fj parsed [''action''];
          userVals = fj_Get fj parsed [''user''];
          nsVals = fj_Get fj userVals [''namespace''];
          storeActivations = (case fj_Get fj userVals [''limits'', ''storeActivations''] of
                                None \<Rightarrow> True
                              | Some v \<Rightarrow> fj_GetBool fj (Some v) [])
      in \<lparr>am_TransactionID = fj_GetStringBytes fj (Some (tidVals ! 0)) [],
          am_TransactionStart = fj_GetInt64 fj (Some (tidVals ! 1)) [] * Millisecond,
          am_ActivationID = fj_GetStringBytes fj parsed [''activationId''],
          am_RootControllerIndex = fj_GetStringBytes fj parsed [''rootControllerIndex'', ''asString''],
          am_CausedBy = fj_GetStringBytes fj parsed [''cause''],
          am_IsBlocking = fj_GetBool fj parsed [''blocking''],
          am_Function =
            \<lparr>amf_Namespace = fj_GetStringBytes fj actionVal [''path''],
             amf_Name = fj_GetStringBytes fj actionVal [''name''],
             amf_Version = fj_GetStringBytes fj actionVal [''version''],
             amf_Revision = fj_GetStringBytes fj parsed [''revision''],
             amf_Binding = fj_GetStringBytes fj actionVal [''binding'']\<rparr>,
          am_InvocationIdentity =
            \<lparr>ii_Subject = fj_GetStringBytes fj userVals [''subject''],
             ii_Namespace = fj_GetStringBytes fj nsVals [''name''],
             ii_Annotations = ns_annotations fj (fj_GetArray fj nsVals [''annotations'']) [],
             ii_APIKey = fj_GetStringBytes fj userVals [''authkey'', ''api_key''],
             ii_StoreActivations = storeActivations\<rparr>,
          am_Parameters = runParameters,
          am_InitParameters = initParameters\<rparr>)"

definition ParseActivationMessage ::
  "((string \<times> 'v) list \<Rightarrow> string list) \<Rightarrow> ('v, 'o) FastJson \<Rightarrow> ('b, 'a) CipherOps \<Rightarrow> 'a Decryptor
   \<Rightarrow> bytes \<Rightarrow> ActivationMessage result outcome" where
  "ParseActivationMessage order fj ops d data =
     (case fj_ParseBytes fj data of
        Inl err \<Rightarrow> Returns (Inl (Errorf ''failed to parse JSON: %w'' [err]))
      | Inr v \<Rightarrow>
          (let parsed = Some v; tidVals = fj_GetArray fj parsed [''transid''] in
           if length tidVals \<noteq> 2 then
             Returns (Inl (ErrorString ''malformed input: \"transid\" was not an array of length 2''))
           else
             (case parse_params order fj ops d (init_keys fj parsed)
                     (fj_GetObject fj parsed [''lockedArgs'']) (fj_GetObject fj parsed [''content'']) of
                Panics msg \<Rightarrow> Panics msg
              | Blocks \<Rightarrow> Blocks
              | Returns (Inl err) \<Rightarrow> Returns (Inl err)
              | Returns (Inr (initParameters, runParameters)) \<Rightarrow>
                  Returns (Inr (build_message fj parsed tidVals initParameters runParameters)))))"

section \<open>Unlocking\<close>

text \<open>The buffer is large enough, so decoding never writes past its end.\<close>

lemma decode_quanta_length: "length (fst (decode_quanta alpha s)) \<le> length s div 4 * 3"
proof (induction alpha s rule: decode_quanta.induct)
  case (2 alpha c0 c1 c2 c3 rest)
  have "(4 + length rest) div 4 = Suc (length rest div 4)" by simp
  with 2 show ?case by (auto simp: octets_def Let_def split: option.splits prod.splits)
qed simp_all

lemma Decode_into_DecodedLen:
  "Decode_into StdEncoding (DecodedLen (length s)) s =
     Returns (length (fst (base64_decode StdEncoding s)), snd (base64_decode StdEncoding s),
       fst (base64_decode StdEncoding s) @ replicate (DecodedLen (length s) - length (fst (base64_decode StdEncoding s))) (CHR 0x00))"
proof -
  have "length (filter (\<lambda>c. \<not> line_end c) s) div 4 * 3 \<le> length s div 4 * 3"
    by (intro mult_le_mono1 div_le_mono length_filter_le)
  with decode_quanta_length [of StdEncoding "filter (\<lambda>c. \<not> line_end c) s"]
  have "\<not> DecodedLen (length s) < length (fst (base64_decode StdEncoding s))"
    unfolding base64_decode_def DecodedLen_def by linarith
  then show ?thesis by (simp add: Decode_into_def split_beta Let_def)
qed

definition unlocked :: "('v, 'o) FastJson \<Rightarrow> ('b, 'a) CipherOps \<Rightarrow> 'a Decryptor \<Rightarrow> 'v \<Rightarrow> 'v \<Rightarrow> bytes result" where
  "unlocked fj ops d ekv v =
     (case DecodeString StdEncoding (fj_GetStringBytes fj (Some v) []) of
        Inl err \<Rightarrow> Inl (Errorf ''failed to base64-decode encrypted value: %w'' [err])
      | Inr bs \<Rightarrow>
          (case Decrypt ops d (fj_GetStringBytes fj (Some ekv) []) bs of
             Inl err \<Rightarrow> Inl (Errorf ''failed to decrypt value: %w'' [err])
           | Inr p \<Rightarrow> Inr p))"

lemma unlock_unlocked: "unlock fj ops d ekv v = Returns (unlocked fj ops d ekv v)"
  by (simp add: unlock_def unlocked_def Decode_into_DecodedLen DecodeString_def Let_def split_beta split: option.splits sum.splits)

text \<open>
  The specification of one parameter: \<open>value_ok\<close> says that \<open>b\<close> is the value of the parameter \<open>k\<close> in the clear.
\<close>

definition value_ok :: "('v, 'o) FastJson \<Rightarrow> ('b, 'a) CipherOps \<Rightarrow> 'a Decryptor \<Rightarrow> 'o option \<Rightarrow> string \<Rightarrow> 'v \<Rightarrow> bytes \<Rightarrow> bool" where
  "value_ok fj ops d locked k x b =
     (case fj_Object_Get fj locked k of
        Returns None \<Rightarrow> b = fj_MarshalTo fj x
      | Returns (Some key) \<Rightarrow> (\<exists>bs. DecodeString StdEncoding (fj_GetStringBytes fj (Some x) []) = Inr bs \<and>
          Decrypt ops d (fj_GetStringBytes fj (Some key) []) bs = Inr b)
      | _ \<Rightarrow> False)"

lemma param_value_ok: "param_value fj ops d locked k x = Returns (Inr b) \<Longrightarrow> value_ok fj ops d locked k x b"
  by (auto simp: param_value_def unlock_unlocked unlocked_def value_ok_def split: outcome.splits option.splits sum.splits)

lemma param_value_returns: "fj_Object_Get fj locked k = Returns x \<Longrightarrow> \<exists>r. param_value fj ops d locked k v = Returns r"
  by (cases x) (simp_all add: param_value_def unlock_unlocked)

section \<open>Splitting\<close>

lemma visited_lookup: "map_of (visited kvs m) k = (case map_of (rev kvs) k of None \<Rightarrow> map_of m k | Some v \<Rightarrow> Some v)"
  by (induction kvs m rule: visited.induct) (auto simp: update_conv' map_add_def split: option.splits)

lemma visited_distinct: "distinct (map fst m) \<Longrightarrow> distinct (map fst (visited kvs m))"
  by (induction kvs m rule: visited.induct) (simp_all add: distinct_update)

lemma ranged_lookup:
  assumes "gm_order order" and "distinct (map fst m)"
  shows "map_of (map (\<lambda>k. (k, the (map_of m k))) (order m)) = map_of m"
proof
  fix k
  show "map_of (map (\<lambda>k. (k, the (map_of m k))) (order m)) k = map_of m k"
    using gm_order_set [OF assms] map_of_eq_None_iff [of m k]
    by (cases "map_of m k") (simp_all add: map_of_map_restrict restrict_map_def)
qed

lemma split_params_returns:
  "(\<And>k v. \<exists>r. val k v = Returns r) \<Longrightarrow> \<exists>r. split_params val initKeys ps inits runs = Returns r"
proof (induction ps arbitrary: inits runs)
  case (Cons p ps)
  obtain k v where p: "p = (k, v)" by force
  from Cons.prems [of k v] obtain r where "val k v = Returns r" by blast
  with Cons.IH [OF Cons.prems] p show ?case by (cases r) auto
qed simp

text \<open>Where a parameter ends up and with which value.\<close>

lemma split_params_lookup:
  assumes "split_params val initKeys ps inits runs = Returns (Inr (inits', runs'))" and "distinct (map fst ps)"
  shows "(\<forall>k. map_of ps k = None \<longrightarrow> map_of inits' k = map_of inits k \<and> map_of runs' k = map_of runs k) \<and>
    (\<forall>k v. map_of ps k = Some v \<longrightarrow> (\<exists>b. val k v = Returns (Inr b) \<and>
       (if k \<in> set initKeys then map_of inits' k = Some b \<and> map_of runs' k = map_of runs k
        else map_of runs' k = Some b \<and> map_of inits' k = map_of inits k)))"
  using assms
proof (induction ps arbitrary: inits runs)
  case (Cons p ps)
  obtain k v where p: "p = (k, v)" by force
  from Cons.prems(1) obtain b where b: "val k v = Returns (Inr b)" by (auto simp: p split: outcome.splits sum.splits)
  have k: "map_of ps k = None" and d: "distinct (map fst ps)" using Cons.prems(2) by (simp_all add: p map_of_eq_None_iff)
  show ?case
  proof (cases "k \<in> set initKeys")
    case True
    with Cons.prems(1) b have "split_params val initKeys ps (AList.update k b inits) runs = Returns (Inr (inits', runs'))"
      by (simp add: p)
    from Cons.IH [OF this d] b k True show ?thesis by (fastforce simp: p update_conv' split: if_splits)
  next
    case False
    with Cons.prems(1) b have "split_params val initKeys ps inits (AList.update k b runs) = Returns (Inr (inits', runs'))"
      by (simp add: p)
    from Cons.IH [OF this d] b k False show ?thesis by (fastforce simp: p update_conv' split: if_splits)
  qed
qed simp

section \<open>Theorem\<close>

lemma parse_params_returns:
  assumes "contents = None \<or> (\<forall>k. \<exists>x. fj_Object_Get fj locked k = Returns x)"
  shows "\<exists>r. parse_params order fj ops d initKeys locked contents = Returns r"
proof (cases contents)
  case (Some obj)
  with assms have "\<And>k v. \<exists>r. param_value fj ops d locked k v = Returns r" by (metis option.distinct(1) param_value_returns)
  then have "\<exists>r. split_params (param_value fj ops d locked) initKeys (map (\<lambda>k. (k, the (map_of (visited (fj_Object_Visit fj obj) []) k)))
      (order (visited (fj_Object_Visit fj obj) []))) [] [] = Returns r" by (rule split_params_returns)
  then obtain r where "split_params (param_value fj ops d locked) initKeys (map (\<lambda>k. (k, the (map_of (visited (fj_Object_Visit fj obj) []) k)))
      (order (visited (fj_Object_Visit fj obj) []))) [] [] = Returns r" ..
  with Some show ?thesis by (cases r) (auto simp: parse_params_def Let_def)
qed (simp add: parse_params_def)

lemma parse_params_spec:
  assumes "gm_order order" and "parse_params order fj ops d initKeys locked (Some obj) = Returns (Inr (ips, rps))"
  shows "\<exists>inits runs. ips = Some inits \<and> rps = Some runs \<and>
        (\<forall>k. map_of (rev (fj_Object_Visit fj obj)) k = None \<longrightarrow> map_of inits k = None \<and> map_of runs k = None) \<and>
        (\<forall>k v. map_of (rev (fj_Object_Visit fj obj)) k = Some v \<longrightarrow> (\<exists>b. param_value fj ops d locked k v = Returns (Inr b) \<and>
          (if k \<in> set initKeys then map_of inits k = Some b \<and> map_of runs k = None
           else map_of runs k = Some b \<and> map_of inits k = None)))"
proof -
  let ?ranged = "map (\<lambda>k. (k, the (map_of (visited (fj_Object_Visit fj obj) []) k))) (order (visited (fj_Object_Visit fj obj) []))"
  from assms(2) obtain inits runs where s: "split_params (param_value fj ops d locked) initKeys ?ranged [] [] = Returns (Inr (inits, runs))"
    and eq: "ips = Some inits" "rps = Some runs"
    by (auto simp: parse_params_def Let_def split: outcome.splits sum.splits)
  have dist: "distinct (map fst (visited (fj_Object_Visit fj obj) []))" by (rule visited_distinct) simp
  then have "distinct (map fst ?ranged)" using gm_order_distinct [OF assms(1) dist] by (simp add: comp_def)
  note spec = split_params_lookup [OF s this]
  have look: "map_of (visited (fj_Object_Visit fj obj) []) = map_of (rev (fj_Object_Visit fj obj))"
    by (rule ext) (simp add: visited_lookup split: option.splits)
  note spec' = spec [unfolded ranged_lookup [OF assms(1) dist], unfolded look map_of.simps(1)]
  show ?thesis
    unfolding eq by (rule exI [of _ inits], rule exI [of _ runs])
      (intro conjI refl conjunct1 [OF spec'] conjunct2 [OF spec'])
qed

text \<open>
  What the parser promises of \<open>Get\<close>: on an object it returns. The locked arguments can be read if the message has some, if it
  has no content, so that they are not read, or if \<open>Get\<close> returns on a nil object as well.
\<close>

definition object_get_ok :: "('v, 'o) FastJson \<Rightarrow> bool" where
  "object_get_ok fj = (\<forall>obj k. \<exists>x. fj_Object_Get fj (Some obj) k = Returns x)"

definition locked_readable :: "('v, 'o) FastJson \<Rightarrow> 'v \<Rightarrow> bool" where
  "locked_readable fj v =
     (fj_GetObject fj (Some v) [''lockedArgs''] \<noteq> None \<or> fj_GetObject fj (Some v) [''content''] = None \<or>
      (\<forall>k. \<exists>x. fj_Object_Get fj None k = Returns x))"

lemma ParseActivationMessage_returns:
  assumes "object_get_ok fj" and "\<And>v. fj_ParseBytes fj data = Inr v \<Longrightarrow> locked_readable fj v"
  shows "\<exists>r. ParseActivationMessage order fj ops d data = Returns r"
proof (cases "fj_ParseBytes fj data")
  case (Inr v)
  have "fj_GetObject fj (Some v) [''content''] = None \<or> (\<forall>k. \<exists>x. fj_Object_Get fj (fj_GetObject fj (Some v) [''lockedArgs'']) k = Returns x)"
    using assms(1) assms(2) [OF Inr] by (cases "fj_GetObject fj (Some v) [''lockedArgs'']") (auto simp: object_get_ok_def locked_readable_def)
  from parse_params_returns [OF this] obtain r where "parse_params order fj ops d (init_keys fj (Some v)) (fj_GetObject fj (Some v) [''lockedArgs''])
      (fj_GetObject fj (Some v) [''content'']) = Returns r" by blast
  with Inr show ?thesis by (cases r) (auto simp: ParseActivationMessage_def Let_def)
qed (simp add: ParseActivationMessage_def)

text \<open>Without locked arguments the first parameter panics if \<open>Get\<close> does.\<close>

lemma parse_params_panics:
  assumes "gm_order order" and "fj_Object_Visit fj obj \<noteq> []" and "\<And>k. fj_Object_Get fj None k = Panics msg"
  shows "parse_params order fj ops d initKeys None (Some obj) = Panics msg"
proof -
  let ?m = "visited (fj_Object_Visit fj obj) []"
  have "map_of ?m \<noteq> Map.empty"
    using assms(2) by (cases "fj_Object_Visit fj obj" rule: rev_cases) (auto simp: visited_lookup fun_eq_iff split: option.splits)
  then have "?m \<noteq> []" by auto
  moreover have "distinct (map fst ?m)" by (rule visited_distinct) simp
  ultimately have "order ?m \<noteq> []" using gm_order_set [OF assms(1)] by fastforce
  then obtain k ks where "order ?m = k # ks" by (cases "order ?m") auto
  then show ?thesis by (simp add: parse_params_def param_value_def assms(3))
qed

text \<open>
  The specification of the split: the entries of the content are divided between the init parameters and the run parameters; of
  two entries with the same key the last one counts.
\<close>

definition partitioned ::
  "string set \<Rightarrow> (string \<Rightarrow> 'v \<Rightarrow> bytes \<Rightarrow> bool) \<Rightarrow> (string \<times> 'v) list \<Rightarrow> (string \<times> bytes) list \<Rightarrow> (string \<times> bytes) list \<Rightarrow> bool" where
  "partitioned initKeys ok entries inits runs =
     ((\<forall>k. k \<notin> fst ` set entries \<longrightarrow> map_of inits k = None \<and> map_of runs k = None) \<and>
      (\<forall>k x. map_of (rev entries) k = Some x \<longrightarrow> (\<exists>b. ok k x b \<and>
         (if k \<in> initKeys then map_of inits k = Some b \<and> map_of runs k = None
          else map_of runs k = Some b \<and> map_of inits k = None))))"

lemma parse_params_partitioned:
  assumes "gm_order order" and "parse_params order fj ops d initKeys locked (Some obj) = Returns (Inr (ips, rps))"
  shows "\<exists>inits runs. ips = Some inits \<and> rps = Some runs \<and>
    partitioned (set initKeys) (value_ok fj ops d locked) (fj_Object_Visit fj obj) inits runs"
proof -
  have n: "map_of (rev (fj_Object_Visit fj obj)) k = None \<longleftrightarrow> k \<notin> fst ` set (fj_Object_Visit fj obj)" for k
    by (simp add: map_of_eq_None_iff)
  from parse_params_spec [OF assms] obtain inits runs where s: "ips = Some inits" "rps = Some runs"
    and none: "\<And>k. k \<notin> fst ` set (fj_Object_Visit fj obj) \<Longrightarrow> map_of inits k = None \<and> map_of runs k = None"
    and some: "\<And>k v. map_of (rev (fj_Object_Visit fj obj)) k = Some v \<Longrightarrow> \<exists>b. param_value fj ops d locked k v = Returns (Inr b) \<and>
      (if k \<in> set initKeys then map_of inits k = Some b \<and> map_of runs k = None else map_of runs k = Some b \<and> map_of inits k = None)"
    unfolding n by blast
  have "partitioned (set initKeys) (value_ok fj ops d locked) (fj_Object_Visit fj obj) inits runs"
    unfolding partitioned_def using none some param_value_ok by metis
  with s show ?thesis by blast
qed

lemma ParseActivationMessage_params:
  assumes "ParseActivationMessage order fj ops d data = Returns (Inr m)" and "fj_ParseBytes fj data = Inr v"
  shows "parse_params order fj ops d (init_keys fj (Some v)) (fj_GetObject fj (Some v) [''lockedArgs'']) (fj_GetObject fj (Some v) [''content''])
    = Returns (Inr (am_InitParameters m, am_Parameters m))"
proof -
  have "am_InitParameters (build_message fj p t i r) = i" "am_Parameters (build_message fj p t i r) = r" for p t i r
    by (simp_all add: build_message_def Let_def)
  with assms show ?thesis by (auto simp: ParseActivationMessage_def Let_def split: if_splits outcome.splits sum.splits)
qed

text \<open>
  C37. In a message that is accepted every parameter of the content is either an init parameter or a run parameter, exactly as the
  list of init arguments says, and nothing else is; a parameter that is not locked has its marshalled value, and a locked one the
  decryption of its base64 text with the key it names. Parsing returns a message or an error, and does not panic, whatever the
  message is, provided that its locked arguments can be read: the message has some, or no content, or \<open>Get\<close> of the JSON parser returns
  on a nil object. Otherwise, with a \<open>Get\<close> that panics on nil, a message with a parameter and without \<open>lockedArgs\<close> does panic.
\<close>

theorem ParseActivationMessage_partitions:
  assumes "gm_order order" and "object_get_ok fj"
  shows "((\<forall>v. fj_ParseBytes fj data = Inr v \<longrightarrow> locked_readable fj v) \<longrightarrow> (\<exists>r. ParseActivationMessage order fj ops d data = Returns r)) \<and>
    (\<forall>v obj msg. fj_ParseBytes fj data = Inr v \<and> length (fj_GetArray fj (Some v) [''transid'']) = 2 \<and>
      fj_GetObject fj (Some v) [''lockedArgs''] = None \<and> fj_GetObject fj (Some v) [''content''] = Some obj \<and> fj_Object_Visit fj obj \<noteq> [] \<and>
      (\<forall>k. fj_Object_Get fj None k = Panics msg) \<longrightarrow> ParseActivationMessage order fj ops d data = Panics msg) \<and>
    (\<forall>m v. ParseActivationMessage order fj ops d data = Returns (Inr m) \<and> fj_ParseBytes fj data = Inr v \<longrightarrow>
      (case fj_GetObject fj (Some v) [''content''] of
         None \<Rightarrow> am_InitParameters m = None \<and> am_Parameters m = None
       | Some obj \<Rightarrow>
           (\<exists>inits runs. am_InitParameters m = Some inits \<and> am_Parameters m = Some runs \<and>
             partitioned (set (init_keys fj (Some v))) (value_ok fj ops d (fj_GetObject fj (Some v) [''lockedArgs'']))
               (fj_Object_Visit fj obj) inits runs)))"
proof (intro conjI allI impI)
  show "\<exists>r. ParseActivationMessage order fj ops d data = Returns r" if "\<forall>v. fj_ParseBytes fj data = Inr v \<longrightarrow> locked_readable fj v"
    using ParseActivationMessage_returns [OF assms(2)] that by blast
next
  fix v obj msg
  assume a: "fj_ParseBytes fj data = Inr v \<and> length (fj_GetArray fj (Some v) [''transid'']) = 2 \<and>
      fj_GetObject fj (Some v) [''lockedArgs''] = None \<and> fj_GetObject fj (Some v) [''content''] = Some obj \<and> fj_Object_Visit fj obj \<noteq> [] \<and>
      (\<forall>k. fj_Object_Get fj None k = Panics msg)"
  then show "ParseActivationMessage order fj ops d data = Panics msg"
    using parse_params_panics [OF assms(1), of fj obj msg ops d "init_keys fj (Some v)"] by (simp add: ParseActivationMessage_def Let_def)
next
  fix m v
  assume a: "ParseActivationMessage order fj ops d data = Returns (Inr m) \<and> fj_ParseBytes fj data = Inr v"
  note pp = ParseActivationMessage_params [OF conjunct1 [OF a] conjunct2 [OF a]]
  show "case fj_GetObject fj (Some v) [''content''] of
         None \<Rightarrow> am_InitParameters m = None \<and> am_Parameters m = None
       | Some obj \<Rightarrow>
           (\<exists>inits runs. am_InitParameters m = Some inits \<and> am_Parameters m = Some runs \<and>
             partitioned (set (init_keys fj (Some v))) (value_ok fj ops d (fj_GetObject fj (Some v) [''lockedArgs'']))
               (fj_Object_Visit fj obj) inits runs)"
  proof (cases "fj_GetObject fj (Some v) [''content'']")
    case None
    with pp show ?thesis by (simp add: parse_params_def)
  next
    case (Some obj)
    from parse_params_partitioned [OF assms(1) pp [unfolded Some]] Some show ?thesis by simp
  qed
qed

text \<open>
  A parser of one message. Its values are texts and objects; the message has an init parameter and a
  run parameter, and a key that occurs twice. \<open>Get\<close> on a nil object panics.
\<close>

datatype example_value = EText bytes | EObject "(string \<times> example_value) list" | EArray "example_value list"

definition example_message :: example_value where
  "example_message = EObject
     [(''transid'', EArray [EText ''tid'', EText '''']),
      (''initArgs'', EArray [EText ''a'']), (''lockedArgs'', EObject []),
      (''content'', EObject [(''a'', EText ''1''), (''b'', EText ''2''), (''a'', EText ''3'')])]"

fun example_get :: "example_value option \<Rightarrow> string list \<Rightarrow> example_value option" where
  "example_get (Some (EObject kvs)) (k # ks) = example_get (map_of kvs k) ks"
| "example_get v [] = v"
| "example_get _ _ = None"

definition example_parser :: "(example_value, (string \<times> example_value) list) FastJson" where
  "example_parser =
     \<lparr>fj_ParseBytes = \<lambda>_. Inr example_message,
      fj_Get = example_get,
      fj_GetArray = \<lambda>v ks. case example_get v ks of Some (EArray vs) \<Rightarrow> vs | _ \<Rightarrow> [],
      fj_GetObject = \<lambda>v ks. case example_get v ks of Some (EObject kvs) \<Rightarrow> Some kvs | _ \<Rightarrow> None,
      fj_GetStringBytes = \<lambda>v ks. case example_get v ks of Some (EText t) \<Rightarrow> t | _ \<Rightarrow> [],
      fj_GetInt64 = \<lambda>v ks. 0, fj_GetBool = \<lambda>v ks. False,
      fj_MarshalTo = \<lambda>v. case v of EText t \<Rightarrow> t | _ \<Rightarrow> [],
      fj_Object_Get = \<lambda>obj k. case obj of None \<Rightarrow> Panics ''nil pointer dereference'' | Some kvs \<Rightarrow> Returns (map_of kvs k),
      fj_Object_Visit = id\<rparr>"

lemma example_parser_ok: "object_get_ok example_parser"
  by (simp add: object_get_ok_def example_parser_def)

theorem ParseActivationMessage_partitions_witness:
  "\<exists>m inits runs. ParseActivationMessage (map fst) example_parser example_cipher \<lparr>de_keyNameToAEAD = []\<rparr> ''{}'' = Returns (Inr m) \<and>
     am_InitParameters m = Some inits \<and> am_Parameters m = Some runs \<and>
     map_of inits ''a'' = Some ''3'' \<and> map_of runs ''b'' = Some ''2'' \<and> map_of runs ''a'' = None"
proof -
  let ?P = "ParseActivationMessage (map fst) example_parser example_cipher \<lparr>de_keyNameToAEAD = []\<rparr> ''{}''"
  have parsed: "fj_ParseBytes example_parser ''{}'' = Inr example_message" by (simp add: example_parser_def)
  have content: "fj_GetObject example_parser (Some example_message) [''content''] =
      Some [(''a'', EText ''1''), (''b'', EText ''2''), (''a'', EText ''3'')]"
    and tid: "length (fj_GetArray example_parser (Some example_message) [''transid'']) = 2"
    and locked: "fj_GetObject example_parser (Some example_message) [''lockedArgs''] = Some []"
    and inits: "init_keys example_parser (Some example_message) = [''a'']"
    and visit: "fj_Object_Visit example_parser = id" and get: "fj_Object_Get example_parser (Some []) k = Returns None"
    and marshal: "fj_MarshalTo example_parser (EText t) = t" for k t
    by (simp_all add: example_parser_def example_message_def init_keys_def)
  note all = ParseActivationMessage_partitions [OF gm_order_map_fst example_parser_ok, of "''{}''" example_cipher "\<lparr>de_keyNameToAEAD = []\<rparr>"]
  have "\<exists>m. ?P = Returns (Inr m)"
    by (simp add: ParseActivationMessage_def parse_params_def content locked inits visit parsed param_value_def get marshal tid Let_def)
  then obtain m where m: "?P = Returns (Inr m)" by blast
  from conjunct2 [OF conjunct2 [OF all], rule_format, OF conjI [OF m parsed]]
  obtain ins rs where s: "am_InitParameters m = Some ins" "am_Parameters m = Some rs"
    "map_of ins ''a'' = Some ''3''" "map_of rs ''b'' = Some ''2''" "map_of rs ''a'' = None"
    by (auto simp: content locked inits visit get marshal partitioned_def value_ok_def)
  with m show ?thesis by blast
qed

end
