(* ===== verification/Frontends.thy ===== *)
theory Frontends
  imports Entities_Properties Activation_Message
begin

text \<open>
  The two front ends that receive activation messages and acknowledge them: the Kafka runner
  (\<open>pkg/kafka/runner.go\<close>) and the HTTP handler (\<open>pkg/http/runner.go\<close>).

  The inner runner, the clock, \<open>json.Marshal\<close>, the Kafka writer and the response writer are the
  fields of \<open>FrontendEnv\<close>, functions on a world. A response writer may be a \<open>Flusher\<close> or not.
  Logging is left out.
\<close>

record KafkaMessage =
  km_Topic :: string
  km_Value :: bytes

record 'w FrontendEnv =
  fe_Now :: "'w \<Rightarrow> Time \<times> 'w"
  fe_Invoke :: "ActivationMessage \<Rightarrow> 'w \<Rightarrow> Activation \<times> 'w"
  fe_Marshal :: "Activation \<Rightarrow> bytes result"
  fe_WriteMessages :: "KafkaMessage \<Rightarrow> 'w \<Rightarrow> go_error option \<times> 'w"
  fe_AddHeader :: "string \<Rightarrow> string \<Rightarrow> 'w \<Rightarrow> 'w"
  fe_WriteHeader :: "int \<Rightarrow> 'w \<Rightarrow> 'w"
  fe_Flush :: "('w \<Rightarrow> 'w) option"
  fe_Write :: "bytes \<Rightarrow> 'w \<Rightarrow> go_error option \<times> 'w"

text \<open>The response to the controller, the same in both front ends.\<close>

definition completion :: "int \<Rightarrow> (Activation \<Rightarrow> bytes result) \<Rightarrow> ActivationMessage \<Rightarrow> Activation \<Rightarrow> bytes" where
  "completion inst marshal msg activation =
     (let isSystemError = (ar_StatusCode (act_Response activation) = SystemError);
          mini = MiniCombinedCompletionMessage inst (am_TransactionID msg) (am_TransactionStart msg) (am_ActivationID msg) isSystemError
      in if \<not> am_IsBlocking msg then mini
         else (case marshal activation of
                 Inl err \<Rightarrow> mini
               | Inr activationBytes \<Rightarrow>
                   CombinedCompletionMessage inst (am_TransactionID msg) (am_TransactionStart msg) activationBytes isSystemError))"

section \<open>Kafka\<close>

definition blockingInvocationCutoff :: Duration where "blockingInvocationCutoff = 10 * Minute"

text \<open>A nil map of blocked namespaces reads as the empty set.\<close>

record KafkaRunner =
  kr_InstanceID :: int
  kr_BlockedNamespaces :: "string set"

text \<open>The clock is only read for a blocking invocation.\<close>

definition skip_invocation :: "'w FrontendEnv \<Rightarrow> ActivationMessage \<Rightarrow> 'w \<Rightarrow> bool \<times> 'w" where
  "skip_invocation env msg w =
     (if am_IsBlocking msg then
        (let (now, w1) = fe_Now env w in (now - am_TransactionStart msg > blockingInvocationCutoff, w1))
      else (False, w))"

definition kafka_Invoke :: "'w FrontendEnv \<Rightarrow> KafkaRunner \<Rightarrow> ActivationMessage \<Rightarrow> 'w \<Rightarrow> 'w" where
  "kafka_Invoke env e msg w =
     (let isNamespaceBlocked = (ii_Namespace (am_InvocationIdentity msg) \<in> kr_BlockedNamespaces e);
          (skipInvocation, w1) = skip_invocation env msg w;
          topic = ''completed'' @ am_RootControllerIndex msg
      in if isNamespaceBlocked \<or> skipInvocation then
           snd (fe_WriteMessages env
             \<lparr>km_Topic = topic,
              km_Value = MiniCombinedCompletionMessage (kr_InstanceID e) (am_TransactionID msg) (am_TransactionStart msg)
                           (am_ActivationID msg) False\<rparr> w1)
         else
           (let (activation, w2) = fe_Invoke env msg w1;
                response = completion (kr_InstanceID e) (fe_Marshal env) msg activation;
                (kafkaStart, w3) = fe_Now env w2;
                (err, w4) = fe_WriteMessages env \<lparr>km_Topic = topic, km_Value = response\<rparr> w3
            in snd (fe_Now env w4)))"

section \<open>HTTP\<close>

text \<open>
  \<open>ServeHTTP\<close>: the argument \<open>input\<close> is what \<open>io.ReadAll\<close> on the request's body gives, \<open>parse\<close> is
  \<open>ParseActivationMessage\<close> with the decryptor.
\<close>

definition ServeHTTP ::
  "'w FrontendEnv \<Rightarrow> int \<Rightarrow> (bytes \<Rightarrow> ActivationMessage result outcome) \<Rightarrow> bytes result \<Rightarrow> 'w \<Rightarrow> 'w outcome" where
  "ServeHTTP env inst parse input w =
     (case input of
        Inl err \<Rightarrow> Returns (fe_WriteHeader env 500 w)
      | Inr body \<Rightarrow>
          (case parse body of
             Panics m \<Rightarrow> Panics m
           | Blocks \<Rightarrow> Blocks
           | Returns (Inl err) \<Rightarrow> Returns (fe_WriteHeader env 400 w)
           | Returns (Inr msg) \<Rightarrow>
               (let w1 = fe_WriteHeader env 200 (fe_AddHeader env ''Content-Type'' ''application/json'' w);
                    w2 = (case fe_Flush env of Some f \<Rightarrow> f w1 | None \<Rightarrow> w1);
                    (activation, w3) = fe_Invoke env msg w2
                in Returns (snd (fe_Write env (completion inst (fe_Marshal env) msg activation) w3)))))"

section \<open>What the outside sees\<close>

text \<open>
  Any environment, with a record of what is done through it: the world is extended by the list
  of the calls.
\<close>

datatype event =
    Invoked ActivationMessage
  | Sent KafkaMessage
  | Header string string
  | Status int
  | Flushed
  | Wrote bytes

definition recorded :: "'w FrontendEnv \<Rightarrow> ('w \<times> event list) FrontendEnv" where
  "recorded env =
     \<lparr>fe_Now = \<lambda>(w, l). let (t, w') = fe_Now env w in (t, w', l),
      fe_Invoke = \<lambda>msg (w, l). let (a, w') = fe_Invoke env msg w in (a, w', l @ [Invoked msg]),
      fe_Marshal = fe_Marshal env,
      fe_WriteMessages = \<lambda>m (w, l). let (err, w') = fe_WriteMessages env m w in (err, w', l @ [Sent m]),
      fe_AddHeader = \<lambda>k v (w, l). (fe_AddHeader env k v w, l @ [Header k v]),
      fe_WriteHeader = \<lambda>n (w, l). (fe_WriteHeader env n w, l @ [Status n]),
      fe_Flush = map_option (\<lambda>f (w, l). (f w, l @ [Flushed])) (fe_Flush env),
      fe_Write = \<lambda>bs (w, l). let (err, w') = fe_Write env bs w in (err, w', l @ [Wrote bs])\<rparr>"

text \<open>Recording changes nothing else.\<close>

lemma fst_kafka_Invoke_recorded: "fst (kafka_Invoke (recorded env) e msg (w, l)) = kafka_Invoke env e msg w"
  by (simp add: kafka_Invoke_def skip_invocation_def recorded_def Let_def split_beta)

lemma map_ServeHTTP_recorded:
  "(case ServeHTTP (recorded env) inst parse input (w, l) of Returns s \<Rightarrow> Returns (fst s) | Panics m \<Rightarrow> Panics m | Blocks \<Rightarrow> Blocks) =
     ServeHTTP env inst parse input w"
  by (simp add: ServeHTTP_def recorded_def Let_def split_beta split: sum.splits outcome.splits option.splits)

text \<open>The response carries the whole activation exactly when the invocation is blocking and the activation can be marshalled.\<close>

definition response_for :: "int \<Rightarrow> 'w FrontendEnv \<Rightarrow> ActivationMessage \<Rightarrow> Activation \<Rightarrow> bytes" where
  "response_for inst env msg a =
     CombinedCompletionMessage inst (am_TransactionID msg) (am_TransactionStart msg)
       (case fe_Marshal env a of Inr bs \<Rightarrow> if am_IsBlocking msg then bs else go_quote (am_ActivationID msg) | Inl _ \<Rightarrow> go_quote (am_ActivationID msg))
       (ar_StatusCode (act_Response a) = SystemError)"

lemma completion_response_for: "completion inst (fe_Marshal env) msg a = response_for inst env msg a"
  by (simp add: completion_def response_for_def MiniCombinedCompletionMessage_def Let_def split: sum.splits)

text \<open>
  The specification: the effects that a message may have. \<open>too_old\<close> reads the clock only for a blocking message.
\<close>

definition too_old :: "'w FrontendEnv \<Rightarrow> ActivationMessage \<Rightarrow> 'w \<Rightarrow> bool \<times> 'w" where
  "too_old env msg w =
     (if am_IsBlocking msg then (let (now, w1) = fe_Now env w in (am_TransactionStart msg + 10 * Minute < now, w1)) else (False, w))"

definition kafka_effects :: "'w FrontendEnv \<Rightarrow> KafkaRunner \<Rightarrow> ActivationMessage \<Rightarrow> 'w \<Rightarrow> event list" where
  "kafka_effects env e msg w =
     (let (old, w1) = too_old env msg w;
          ack = (\<lambda>bs. Sent \<lparr>km_Topic = ''completed'' @ am_RootControllerIndex msg, km_Value = bs\<rparr>) in
      if ii_Namespace (am_InvocationIdentity msg) \<in> kr_BlockedNamespaces e \<or> old then
        [ack (CombinedCompletionMessage (kr_InstanceID e) (am_TransactionID msg) (am_TransactionStart msg) (go_quote (am_ActivationID msg)) False)]
      else [Invoked msg, ack (response_for (kr_InstanceID e) env msg (fst (fe_Invoke env msg w1)))])"

definition http_effects :: "'w FrontendEnv \<Rightarrow> int \<Rightarrow> ActivationMessage result option \<Rightarrow> 'w \<Rightarrow> event list" where
  "http_effects env inst parsed w =
     (case parsed of
        None \<Rightarrow> [Status 500]
      | Some (Inl _) \<Rightarrow> [Status 400]
      | Some (Inr m) \<Rightarrow>
          (let answered = fe_WriteHeader env 200 (fe_AddHeader env ''Content-Type'' ''application/json'' w);
               (flush, w') = (case fe_Flush env of None \<Rightarrow> ([], answered) | Some f \<Rightarrow> ([Flushed], f answered))
           in [Header ''Content-Type'' ''application/json'', Status 200] @ flush
              @ [Invoked m, Wrote (response_for inst env m (fst (fe_Invoke env m w')))]))"

lemma kafka_Invoke_effects: "snd (kafka_Invoke (recorded env) e msg (w, [])) = kafka_effects env e msg w"
proof -
  have old: "blockingInvocationCutoff < now - t \<longleftrightarrow> t + 10 * Minute < now" for now t :: Time
    by (auto simp: blockingInvocationCutoff_def)
  show ?thesis
    unfolding kafka_Invoke_def skip_invocation_def old completion_response_for [symmetric] MiniCombinedCompletionMessage_def
      kafka_effects_def too_old_def
    by (simp add: recorded_def Let_def split_beta)
qed

text \<open>The handler on every outcome of the parser.\<close>

lemma ServeHTTP_effects:
  "(case input of
      Inl _ \<Rightarrow> \<exists>s. ServeHTTP (recorded env) inst parse input (w, []) = Returns s \<and> snd s = http_effects env inst None w
    | Inr body \<Rightarrow>
        (case parse body of
           Returns r \<Rightarrow> \<exists>s. ServeHTTP (recorded env) inst parse input (w, []) = Returns s \<and> snd s = http_effects env inst (Some r) w
         | Panics m \<Rightarrow> ServeHTTP (recorded env) inst parse input (w, []) = Panics m
         | Blocks \<Rightarrow> ServeHTTP (recorded env) inst parse input (w, []) = Blocks))"
proof (cases input)
  case (Inr body)
  show ?thesis
  proof (cases "parse body")
    case (Returns r)
    with Inr show ?thesis
      by (cases r; cases "fe_Flush env") (simp_all add: ServeHTTP_def recorded_def http_effects_def Let_def split_beta completion_response_for)
  qed (use Inr in \<open>simp_all add: ServeHTTP_def\<close>)
qed (simp add: ServeHTTP_def recorded_def http_effects_def)

text \<open>
  C38. A message is acknowledged exactly once. Through Kafka: a message of a blocked namespace and a
  blocking one older than ten minutes is not invoked, only acknowledged, and never as a system
  error; every other message is invoked once and then acknowledged with the outcome of that
  invocation, on the topic of the controller that sent it. Through HTTP: a body that cannot be
  read or parsed is answered with 500 or 400 and nothing else happens; otherwise the status is
  sent and flushed before the single invocation, whose outcome is the body of the response. The handler returns for every body whose
  locked arguments can be read (a message with some, or without content, or with a JSON parser whose \<open>Get\<close> returns on nil);
  when parsing panics, the handler does, before it has answered anything.
\<close>

theorem controller_acknowledged_once:
  fixes env :: "'w FrontendEnv"
  assumes "object_get_ok fj"
  shows "snd (kafka_Invoke (recorded env) e msg (w, [])) = kafka_effects env e msg w \<and>
    (case input of
       Inl _ \<Rightarrow> \<exists>s. ServeHTTP (recorded env) inst (ParseActivationMessage order fj ops d) input (w, []) = Returns s \<and> snd s = http_effects env inst None w
     | Inr body \<Rightarrow>
         ((\<forall>v. fj_ParseBytes fj body = Inr v \<longrightarrow> locked_readable fj v) \<longrightarrow> (\<exists>r. ParseActivationMessage order fj ops d body = Returns r)) \<and>
         (case ParseActivationMessage order fj ops d body of
            Returns r \<Rightarrow> \<exists>s. ServeHTTP (recorded env) inst (ParseActivationMessage order fj ops d) input (w, []) = Returns s \<and>
              snd s = http_effects env inst (Some r) w
          | Panics m \<Rightarrow> ServeHTTP (recorded env) inst (ParseActivationMessage order fj ops d) input (w, []) = Panics m
          | Blocks \<Rightarrow> ServeHTTP (recorded env) inst (ParseActivationMessage order fj ops d) input (w, []) = Blocks))"
proof (intro conjI kafka_Invoke_effects)
  have "(\<forall>v. fj_ParseBytes fj body = Inr v \<longrightarrow> locked_readable fj v) \<longrightarrow> (\<exists>r. ParseActivationMessage order fj ops d body = Returns r)" for body
    using ParseActivationMessage_returns [OF assms] by blast
  with ServeHTTP_effects [where input = input and env = env and inst = inst and parse = "ParseActivationMessage order fj ops d" and w = w]
  show "case input of
       Inl _ \<Rightarrow> \<exists>s. ServeHTTP (recorded env) inst (ParseActivationMessage order fj ops d) input (w, []) = Returns s \<and> snd s = http_effects env inst None w
     | Inr body \<Rightarrow>
         ((\<forall>v. fj_ParseBytes fj body = Inr v \<longrightarrow> locked_readable fj v) \<longrightarrow> (\<exists>r. ParseActivationMessage order fj ops d body = Returns r)) \<and>
         (case ParseActivationMessage order fj ops d body of
            Returns r \<Rightarrow> \<exists>s. ServeHTTP (recorded env) inst (ParseActivationMessage order fj ops d) input (w, []) = Returns s \<and>
              snd s = http_effects env inst (Some r) w
          | Panics m \<Rightarrow> ServeHTTP (recorded env) inst (ParseActivationMessage order fj ops d) input (w, []) = Panics m
          | Blocks \<Rightarrow> ServeHTTP (recorded env) inst (ParseActivationMessage order fj ops d) input (w, []) = Blocks)"
    by (cases input) simp_all
qed

text \<open>A message that is eleven minutes old.\<close>

definition example_frontend :: "unit FrontendEnv" where
  "example_frontend =
     \<lparr>fe_Now = \<lambda>w. (11 * Minute, w), fe_Invoke = \<lambda>msg w. (example_activation, w),
      fe_Marshal = \<lambda>a. Inr ''{}'', fe_WriteMessages = \<lambda>m w. (None, w), fe_AddHeader = \<lambda>k v w. w,
      fe_WriteHeader = \<lambda>n w. w, fe_Flush = None, fe_Write = \<lambda>bs w. (None, w)\<rparr>"

definition late_message :: ActivationMessage where
  "late_message =
     \<lparr>am_TransactionID = ''tid'', am_TransactionStart = 0, am_ActivationID = ''aid'', am_RootControllerIndex = ''0'',
      am_CausedBy = '''', am_IsBlocking = True,
      am_Function = \<lparr>amf_Namespace = ''ns'', amf_Name = ''f'', amf_Version = '''', amf_Revision = '''', amf_Binding = ''''\<rparr>,
      am_InvocationIdentity = \<lparr>ii_Subject = '''', ii_Namespace = ''ns'', ii_Annotations = [], ii_APIKey = '''', ii_StoreActivations = True\<rparr>,
      am_Parameters = None, am_InitParameters = None\<rparr>"

theorem controller_acknowledged_once_witness:
  "snd (kafka_Invoke (recorded example_frontend) \<lparr>kr_InstanceID = 3, kr_BlockedNamespaces = {}\<rparr> late_message ((), [])) =
     [Sent \<lparr>km_Topic = ''completed0'',
            km_Value = ''{\"transid\":[\"tid\",0],\"response\":\"aid\",\"isSystemError\":false,\"invoker\":{\"instance\":3,\"userMemory\":\"0 g\"}}''\<rparr>] \<and>
   (\<exists>s. ServeHTTP (recorded example_frontend) 3 (ParseActivationMessage (map fst) example_parser example_cipher \<lparr>de_keyNameToAEAD = []\<rparr>)
      (Inr ''{}'') ((), []) = Returns s)"
proof -
  have bytes: "CombinedCompletionMessage 3 ''tid'' 0 (go_quote ''aid'') False =
    ''{\"transid\":[\"tid\",0],\"response\":\"aid\",\"isSystemError\":false,\"invoker\":{\"instance\":3,\"userMemory\":\"0 g\"}}''"
    by (simp add: CombinedCompletionMessage_def go_quote_def quote_char_def fmt_i_def fmt_d.simps digit_char_def fmt_t_def UnixMilli_def)
      code_simp
  note ack = controller_acknowledged_once [OF example_parser_ok, where env = example_frontend and w = "()" and msg = late_message
      and e = "\<lparr>kr_InstanceID = 3, kr_BlockedNamespaces = {}\<rparr>" and input = "Inr ''{}''" and inst = 3 and order = "map fst"
      and ops = example_cipher and d = "\<lparr>de_keyNameToAEAD = []\<rparr>"]
  have readable: "\<forall>v. fj_ParseBytes example_parser ''{}'' = Inr v \<longrightarrow> locked_readable example_parser v"
    by (simp add: locked_readable_def example_parser_def example_message_def)
  from conjunct2 [OF ack] readable obtain s where
    http: "ServeHTTP (recorded example_frontend) 3 (ParseActivationMessage (map fst) example_parser example_cipher \<lparr>de_keyNameToAEAD = []\<rparr>)
      (Inr ''{}'') ((), []) = Returns s" by auto
  have sent: "kafka_effects example_frontend \<lparr>kr_InstanceID = 3, kr_BlockedNamespaces = {}\<rparr> late_message () =
     [Sent \<lparr>km_Topic = ''completed0'',
            km_Value = ''{\"transid\":[\"tid\",0],\"response\":\"aid\",\"isSystemError\":false,\"invoker\":{\"instance\":3,\"userMemory\":\"0 g\"}}''\<rparr>]"
    by (simp add: kafka_effects_def too_old_def example_frontend_def late_message_def bytes duration_defs)
  show ?thesis by (intro conjI trans [OF conjunct1 [OF ack] sent] exI) (rule http)
qed

end
