(* ===== verification/Invoker.thy ===== *)
theory Invoker
  imports Runner_Properties Pool_Properties Docker_Properties Frontends
begin

text \<open>
  The runner on top of the container pool, and the Kafka front end on top of the runner: \<open>Runner.Invoke\<close> (\<open>pkg/runner/runner.go\<close>) with
  the pool of \<open>pkg/exec/pool.go\<close> behind its \<open>ContainerPool\<close> interface, as
  \<open>cmd/invoker/main.go\<close> wires them. The interface is the locale \<open>container_lender\<close>; the runner's
  part is proved in it once, and it is interpreted on the pool.
\<close>

section \<open>The interface between the runner and the pool\<close>

text \<open>
  \<open>held\<close> are the containers that are handed out. \<open>get\<close> hands one out or none, \<open>put\<close> and \<open>destroy\<close>
  take back a container that was handed out, and nothing else the runner calls touches them.
\<close>

definition untouched :: "('w \<Rightarrow> bool) \<Rightarrow> ('w \<Rightarrow> PooledContainer multiset) \<Rightarrow> 'w \<Rightarrow> 'w \<Rightarrow> bool" where
  "untouched ok held w w' = (ok w \<longrightarrow> ok w' \<and> held w' = held w)"

lemma untouchedD: "untouched ok held w w' \<Longrightarrow> ok w \<Longrightarrow> ok w' \<and> held w' = held w"
  by (simp add: untouched_def)

lemma untouched_refl [simp]: "untouched ok held w w"
  by (simp add: untouched_def)

lemma untouched_trans: "untouched ok held w w' \<Longrightarrow> untouched ok held w' w'' \<Longrightarrow> untouched ok held w w''"
  by (simp add: untouched_def)

locale container_lender =
  fixes env :: "'w RunnerEnv" and ok :: "'w \<Rightarrow> bool" and held :: "'w \<Rightarrow> PooledContainer multiset"
  assumes get: "ok w \<Longrightarrow> re_GetFunction env (qualifiedFnName msg) (amf_Revision (am_Function msg)) w0 = (Inr f, w1) \<Longrightarrow>
      re_Get env (ii_Namespace (am_InvocationIdentity msg)) (am_Function msg) (exec_Kind (fn_Exec f)) (lim_Memory (fn_Limits f)) w = (r, w')
      \<Longrightarrow> ok w' \<and> held w' = mset (handed r) + held w"
    and put: "ok w \<Longrightarrow> c \<in># held w \<Longrightarrow> ok (re_Put env c w) \<and> held (re_Put env c w) = held w - {#c#}"
    and destroy: "ok w \<Longrightarrow> c \<in># held w \<Longrightarrow> re_PutToDestroy env c w = (e, w') \<Longrightarrow> ok w' \<and> held w' = held w - {#c#}"
    and now: "re_Now env w = (t, w') \<Longrightarrow> untouched ok held w w'"
    and fetch: "re_GetFunction env fqn rv w = (fr, w') \<Longrightarrow> untouched ok held w w'"
    and writes: "re_WriteActivation env a w = (e, w') \<Longrightarrow> untouched ok held w w'"
    and init: "re_Initialize env c ip w = (b, w') \<Longrightarrow> untouched ok held w w'"
    and run: "re_Run env c rp w = (b, w') \<Longrightarrow> untouched ok held w w'"
    and state: "re_State env c w = (st, w') \<Longrightarrow> untouched ok held w w'"
    and logs: "re_Logs env c w = (l, w') \<Longrightarrow> untouched ok held w w'"
begin

lemma classify_failure_quiet:
  "classify_failure env c err response t g a w = (a', w') \<Longrightarrow> untouched ok held w w'"
  by (auto simp: classify_failure_def Let_def split: prod.splits dest!: state)

lemma invoke_init_quiet:
  "invoke_init env msg f c a w = (b, a', w') \<Longrightarrow> untouched ok held w w'"
  by (auto simp: invoke_init_def Let_def split: prod.splits option.splits dest!: now init classify_failure_quiet)
    (metis untouched_trans)+

lemma invoke_run_quiet:
  "invoke_run env msg f c a w = (b, a', w') \<Longrightarrow> untouched ok held w w'"
  by (auto simp: invoke_run_def Let_def split: prod.splits option.splits dest!: now run classify_failure_quiet)
    (metis untouched_trans)+

lemma finish_logs_quiet:
  "finish_logs env f c b a w = (b', a', w') \<Longrightarrow> untouched ok held w w'"
  by (auto simp: finish_logs_def Let_def split: prod.splits if_splits dest!: now logs)
    (metis untouched_trans)+

lemma set_wait_time_quiet:
  "set_wait_time env msg a w = (a', w') \<Longrightarrow> untouched ok held w w'"
  by (auto simp: set_wait_time_def split: prod.splits if_splits dest!: now)

lemma return_container_returns:
  assumes "ok w" and "c \<in># held w"
  shows "ok (return_container env c b w) \<and> held (return_container env c b w) = held w - {#c#}"
proof (cases b)
  case True
  obtain e w' where d: "re_PutToDestroy env c w = (e, w')" by force
  from destroy [OF assms d] True d show ?thesis by (simp add: return_container_def)
next
  case False
  with put [OF assms] show ?thesis by (simp add: return_container_def)
qed

lemma invoke_in_container_returns:
  assumes "ok w" and "c \<in># held w" and "invoke_in_container env msg f c reused a w = (a', w')"
  shows "ok w' \<and> held w' = held w - {#c#}"
proof -
  obtain a1 w1 where s1: "set_wait_time env msg a w = (a1, w1)" by force
  obtain b2 a2 w2 where s2: "(if \<not> reused then invoke_init env msg f c a1 w1 else (True, a1, w1)) = (b2, a2, w2)"
    by (metis prod_cases3)
  obtain b3 a3 w3 where s3: "(if b2 then invoke_run env msg f c a2 w2 else (True, a2, w2)) = (b3, a3, w3)"
    by (metis prod_cases3)
  obtain b4 a4 w4 where s4: "finish_logs env f c b3 a3 w3 = (b4, a4, w4)" by (metis prod_cases3)
  have w': "w' = return_container env c b4 w4"
    using assms(3) by (simp add: invoke_in_container_def s1 s2 s3 s4)
  note q1 = untouchedD [OF set_wait_time_quiet [OF s1] assms(1)]
  have "untouched ok held w1 w2" using s2 invoke_init_quiet by (auto split: if_splits)
  with q1 have q2: "ok w2 \<and> held w2 = held w" by (auto dest: untouchedD)
  have "untouched ok held w2 w3" using s3 invoke_run_quiet by (auto split: if_splits)
  with q2 have q3: "ok w3 \<and> held w3 = held w" by (auto dest: untouchedD)
  have q4: "ok w4 \<and> held w4 = held w" using untouchedD [OF finish_logs_quiet [OF s4]] q3 by simp
  then show ?thesis using return_container_returns [of w4 c b4] assms(2) w' by simp
qed

lemma invoke_function_balanced:
  assumes "ok w" and "invoke_function env msg a w = (a', w')"
  shows "ok w' \<and> held w' = held w"
proof -
  obtain fr w1 where f: "re_GetFunction env (qualifiedFnName msg) (amf_Revision (am_Function msg)) w = (fr, w1)" by force
  note q1 = untouchedD [OF fetch [OF f] assms(1)]
  show ?thesis
  proof (cases fr)
    case (Inl e)
    with assms(2) f q1 show ?thesis by (simp add: invoke_function_def)
  next
    case (Inr fn)
    obtain r w2 where g: "re_Get env (ii_Namespace (am_InvocationIdentity msg)) (am_Function msg)
        (exec_Kind (fn_Exec fn)) (lim_Memory (fn_Limits fn)) w1 = (r, w2)" by force
    note q2 = get [OF _ f [unfolded Inr] g]
    show ?thesis
    proof (cases r)
      case (Inl e)
      with assms(2) f \<open>fr = Inr fn\<close> g q1 q2 show ?thesis by (simp add: invoke_function_def Let_def)
    next
      case inr: (Inr cr)
      obtain c reused where cr: "cr = (c, reused)" by force
      obtain a2 where i: "invoke_in_container env msg fn c reused a2 w2 = (a', w')"
        using assms(2) f \<open>fr = Inr fn\<close> g inr cr by (auto simp: invoke_function_def Let_def)
      have "ok w2" "held w2 = {#c#} + held w" using q1 q2 inr cr by simp_all
      with invoke_in_container_returns [OF _ _ i] show ?thesis by simp
    qed
  qed
qed

lemma Invoke_balanced:
  assumes "ok w" and "Invoke env msg w = (a, w')"
  shows "ok w' \<and> held w' = held w"
proof -
  obtain t w1 where n: "re_Now env w = (t, w1)" by force
  obtain a2 w2 where f: "invoke_function env msg (new_activation msg t) w1 = (a2, w2)" by force
  note q1 = untouchedD [OF now [OF n] assms(1)]
  have q2: "ok w2 \<and> held w2 = held w" using invoke_function_balanced [OF _ f] q1 by simp
  show ?thesis
  proof (cases "\<not> am_IsBlocking msg \<and> ii_StoreActivations (am_InvocationIdentity msg)")
    case True
    obtain e w3 where w: "re_WriteActivation env a2 w2 = (e, w3)" by force
    with True assms(2) n f have "w' = w3" by (simp add: Invoke_def)
    then show ?thesis using untouchedD [OF writes [OF w]] q2 by simp
  next
    case False
    with assms(2) n f q2 show ?thesis by (auto simp: Invoke_def)
  qed
qed

end

section \<open>The runner over the pool\<close>

text \<open>
  The world of the runner is the pool's system and a flag: the flag is false once a call of the
  pool panicked or blocked, and what follows then has no meaning. \<open>base\<close> gives what is neither
  the pool's nor the container's: the database, the log channel and the JSON parser.
\<close>

definition on_world :: "('w \<Rightarrow> 'a \<times> 'w) \<Rightarrow> ('w, 's) System \<times> bool \<Rightarrow> 'a \<times> ('w, 's) System \<times> bool" where
  "on_world f s = (let (r, w) = f (sys_world (fst s)) in (r, (fst s)\<lparr>sys_world := w\<rparr>, snd s))"

definition position :: "'a \<Rightarrow> 'a list \<Rightarrow> nat" where
  "position x xs = length (takeWhile (\<lambda>y. y \<noteq> x) xs)"

definition on_pool :: "('w, 's) System outcome \<Rightarrow> ('w, 's) System \<times> bool \<Rightarrow> ('w, 's) System \<times> bool" where
  "on_pool res s = (case res of Returns s' \<Rightarrow> (s', snd s) | _ \<Rightarrow> (fst s, False))"

definition pool_runner ::
  "('w, 's) PoolEnv \<Rightarrow> (WarmContainerKey \<Rightarrow> ByteSize) \<Rightarrow> 'w RunnerEnv \<Rightarrow> (('w, 's) System \<times> bool) RunnerEnv" where
  "pool_runner env limit base =
     \<lparr>re_Now = on_world (pe_Now env),
      re_Get = (\<lambda>ns fn kind memory s.
        case Get env ns fn kind memory (sys_pool (fst s)) (sys_world (fst s)) of
          Returns (r, p, w) \<Rightarrow> (r, (fst s)\<lparr>sys_pool := p, sys_out := handed r @ sys_out (fst s), sys_world := w\<rparr>, snd s)
        | _ \<Rightarrow> (Inl (ErrorString ''no return''), fst s, False)),
      re_Put = (\<lambda>c s. on_pool (sys_call env limit (CallPut (position c (sys_out (fst s)))) (fst s)) s),
      re_PutToDestroy = (\<lambda>c s.
        (fst (PutToDestroy env c (sys_pool (fst s)) (sys_world (fst s))),
         on_pool (sys_call env limit (CallPutToDestroy (position c (sys_out (fst s)))) (fst s)) s)),
      re_GetFunction = (\<lambda>fqn rv. on_world (re_GetFunction base fqn rv)),
      re_WriteActivation = (\<lambda>a. on_world (re_WriteActivation base a)),
      re_Initialize = (\<lambda>c payload. on_world (op_Initialize (pe_containers env) (pc_Container c) payload)),
      re_Run = (\<lambda>c payload. on_world (op_Run (pe_containers env) (pc_Container c) payload)),
      re_State = (\<lambda>c. on_world (PooledContainer_State env c)),
      re_Logs = (\<lambda>c. on_world (re_Logs base c)),
      re_TimeFormat = re_TimeFormat base,
      re_UnmarshalObject = re_UnmarshalObject base,
      re_UnmarshalError = re_UnmarshalError base\<rparr>"

text \<open>
  What the database promises: the document of one revision of a function does not change, so
  its memory limit is a function of name and revision.
\<close>

definition docs_ok :: "'w RunnerEnv \<Rightarrow> (string \<Rightarrow> string \<Rightarrow> ByteSize) \<Rightarrow> bool" where
  "docs_ok base mem =
     (\<forall>fqn rv w f w'. re_GetFunction base fqn rv w = (Inr f, w') \<longrightarrow> lim_Memory (fn_Limits f) = mem fqn rv)"

definition limit_of :: "(string \<Rightarrow> string \<Rightarrow> ByteSize) \<Rightarrow> WarmContainerKey \<Rightarrow> ByteSize" where
  "limit_of mem k =
     mem (amf_Namespace (wck_Function k) @ ''/'' @ amf_Name (wck_Function k)) (amf_Revision (wck_Function k))"

definition lend_ok ::
  "('w, 's) PoolEnv \<Rightarrow> 'w RunnerEnv \<Rightarrow> (string \<Rightarrow> string \<Rightarrow> ByteSize) \<Rightarrow> ByteSize \<Rightarrow> ('s \<Rightarrow> int) \<Rightarrow> ('w, 's) System \<times> bool \<Rightarrow> bool" where
  "lend_ok env base mem userMemory held s =
     (docs_ok base mem \<and> sys_inv env (limit_of mem) userMemory held (fst s) \<and> snd s)"

definition lent :: "('w, 's) System \<times> bool \<Rightarrow> PooledContainer multiset" where
  "lent s = mset (sys_out (fst s))"

lemma sys_inv_world [simp]: "sys_inv env limit userMemory held (s\<lparr>sys_world := w\<rparr>) = sys_inv env limit userMemory held s"
  by (simp add: sys_inv_def)

lemma on_world_untouched:
  "on_world f s = (r, s') \<Longrightarrow> untouched (lend_ok env base mem userMemory held) lent s s'"
  by (auto simp: on_world_def untouched_def lend_ok_def lent_def split: prod.splits)

lemma position_nth: "x \<in> set xs \<Longrightarrow> position x xs < length xs \<and> xs ! position x xs = x"
  by (induction xs) (auto simp: position_def)

lemma mset_remove_position:
  assumes "x \<in> set xs"
  shows "mset (remove_nth (position x xs) xs) = mset xs - {#x#}"
  using mset_remove_nth [of "position x xs" xs] position_nth [OF assms] by simp

lemma sys_call_kept:
  assumes "sys_inv env limit userMemory held s"
  obtains s' where "sys_call env limit c s = Returns s'" and "sys_inv env limit userMemory held s'"
  using sys_call_keeps [OF assms, of c] by (auto simp: keeps_def)

lemma return_takes_back:
  assumes "lend_ok env base mem userMemory held s" and "c \<in># lent s"
    and call: "sys_call env (limit_of mem) (call (position c (sys_out (fst s)))) (fst s) = res"
    and out: "\<And>i s'. i < length (sys_out (fst s)) \<Longrightarrow> sys_call env (limit_of mem) (call i) (fst s) = Returns s'
      \<Longrightarrow> sys_out s' = remove_nth i (sys_out (fst s))"
  shows "lend_ok env base mem userMemory held (on_pool res s) \<and> lent (on_pool res s) = lent s - {#c#}"
proof -
  have c: "c \<in> set (sys_out (fst s))" using assms(2) by (simp add: lent_def)
  have inv: "sys_inv env (limit_of mem) userMemory held (fst s)" using assms(1) by (simp add: lend_ok_def)
  obtain s' where "res = Returns s'" "sys_inv env (limit_of mem) userMemory held s'"
    using sys_call_kept [OF inv] call by metis
  moreover from this have "sys_out s' = remove_nth (position c (sys_out (fst s))) (sys_out (fst s))"
    using out [OF conjunct1 [OF position_nth [OF c]]] call by simp
  ultimately show ?thesis
    using assms(1) mset_remove_position [OF c] by (simp add: on_pool_def lend_ok_def lent_def)
qed

interpretation lender: container_lender "pool_runner env (limit_of mem) base" "lend_ok env base mem userMemory held" lent
  for env :: "('w, 's) PoolEnv" and mem base userMemory held
proof (unfold_locales, goal_cases)
  case (1 w msg w0 f w1 r w')
  let ?k = "\<lparr>wck_InvocationNamespace = ii_Namespace (am_InvocationIdentity msg), wck_Function = am_Function msg\<rparr>"
  have "lim_Memory (fn_Limits f) = mem (qualifiedFnName msg) (amf_Revision (am_Function msg))"
    using 1(1,2) by (fastforce simp: pool_runner_def on_world_def lend_ok_def docs_ok_def split: prod.splits)
  then have m: "lim_Memory (fn_Limits f) = limit_of mem ?k" by (simp add: limit_of_def qualifiedFnName_def)
  have inv: "sys_inv env (limit_of mem) userMemory held (fst w)" using 1(1) by (simp add: lend_ok_def)
  obtain s' where s': "sys_call env (limit_of mem)
      (CallGet (ii_Namespace (am_InvocationIdentity msg)) (am_Function msg) (exec_Kind (fn_Exec f))) (fst w) = Returns s'"
    "sys_inv env (limit_of mem) userMemory held s'"
    by (rule sys_call_kept [OF inv])
  with 1(1,3) m show ?case
    by (auto simp: pool_runner_def lend_ok_def lent_def split: outcome.splits)
next
  case (2 w c)
  then show ?case
    using return_takes_back [OF 2 refl, of CallPut]
    by (fastforce simp: pool_runner_def split: outcome.splits)
next
  case (3 w c e w')
  then show ?case
    using return_takes_back [OF 3(1,2) refl, of CallPutToDestroy]
    by (fastforce simp: pool_runner_def split: prod.splits)
qed (simp_all add: pool_runner_def on_world_untouched)

section \<open>Every sequence of invocations\<close>

text \<open>
  The Kafka runner over the runner over the pool, as \<open>cmd/invoker/main.go\<close> wires them; \<open>front\<close> gives
  the clock and the writers.
\<close>

definition pool_frontend ::
  "('w, 's) PoolEnv \<Rightarrow> (WarmContainerKey \<Rightarrow> ByteSize) \<Rightarrow> 'w RunnerEnv \<Rightarrow> 'w FrontendEnv \<Rightarrow> (('w, 's) System \<times> bool) FrontendEnv" where
  "pool_frontend env limit base front =
     \<lparr>fe_Now = on_world (fe_Now front),
      fe_Invoke = Invoke (pool_runner env limit base),
      fe_Marshal = fe_Marshal front,
      fe_WriteMessages = (\<lambda>m. on_world (fe_WriteMessages front m)),
      fe_AddHeader = (\<lambda>k v s. snd (on_world (\<lambda>w. ((), fe_AddHeader front k v w)) s)),
      fe_WriteHeader = (\<lambda>n s. snd (on_world (\<lambda>w. ((), fe_WriteHeader front n w)) s)),
      fe_Flush = map_option (\<lambda>f s. snd (on_world (\<lambda>w. ((), f w)) s)) (fe_Flush front),
      fe_Write = (\<lambda>bs. on_world (fe_Write front bs))\<rparr>"

text \<open>
  Messages through Kafka, direct invocations and rounds of the pool's goroutines; the workers
  take one message after the other.
\<close>

datatype invoker_event =
  EvKafka KafkaRunner ActivationMessage | EvInvoke ActivationMessage | EvReap Time | EvDeleter | EvPrewarm

definition returned :: "('w, 's) System \<times> bool \<Rightarrow> ('w, 's) System outcome" where
  "returned s = (if snd s then Returns (fst s) else Blocks)"

fun invoker_call ::
  "('w, 's) PoolEnv \<Rightarrow> (WarmContainerKey \<Rightarrow> ByteSize) \<Rightarrow> 'w RunnerEnv \<Rightarrow> 'w FrontendEnv \<Rightarrow> invoker_event
   \<Rightarrow> ('w, 's) System \<Rightarrow> ('w, 's) System outcome" where
  "invoker_call env limit base front (EvKafka kafkaRunner msg) s =
     returned (kafka_Invoke (pool_frontend env limit base front) kafkaRunner msg (s, True))"
| "invoker_call env limit base front (EvInvoke msg) s =
     returned (snd (Invoke (pool_runner env limit base) msg (s, True)))"
| "invoker_call env limit base front (EvReap t) s = sys_call env limit (CallReap t) s"
| "invoker_call env limit base front EvDeleter s = sys_call env limit CallDeleter s"
| "invoker_call env limit base front EvPrewarm s = sys_call env limit CallPrewarm s"

text \<open>Between two events no container is handed out.\<close>

definition all_returned ::
  "('w, 's) PoolEnv \<Rightarrow> 'w RunnerEnv \<Rightarrow> (string \<Rightarrow> string \<Rightarrow> ByteSize) \<Rightarrow> ByteSize \<Rightarrow> ('s \<Rightarrow> int) \<Rightarrow> ('w, 's) System \<Rightarrow> bool" where
  "all_returned env base mem userMemory held s =
     (docs_ok base mem \<and> sys_inv env (limit_of mem) userMemory held s \<and> sys_out s = [])"

lemma background_out:
  "sys_call env limit (CallReap t) s = Returns s' \<Longrightarrow> sys_out s' = sys_out s"
  "sys_call env limit CallDeleter s = Returns s' \<Longrightarrow> sys_out s' = sys_out s"
  "sys_call env limit CallPrewarm s = Returns s' \<Longrightarrow> sys_out s' = sys_out s"
  by (auto split: outcome.splits prod.splits)

lemma background_returned:
  assumes "all_returned env base mem userMemory held s"
    and "\<And>s'. sys_call env (limit_of mem) c s = Returns s' \<Longrightarrow> sys_out s' = sys_out s"
  shows "\<exists>s'. sys_call env (limit_of mem) c s = Returns s' \<and> all_returned env base mem userMemory held s'"
proof -
  have "sys_inv env (limit_of mem) userMemory held s" using assms(1) by (simp add: all_returned_def)
  then obtain s' where "sys_call env (limit_of mem) c s = Returns s'" "sys_inv env (limit_of mem) userMemory held s'"
    by (rule sys_call_kept)
  with assms show ?thesis by (auto simp: all_returned_def)
qed

lemma returned_kept:
  assumes "all_returned env base mem userMemory held s"
    and "lend_ok env base mem userMemory held (s, True) \<Longrightarrow> lend_ok env base mem userMemory held t \<and> lent t = lent (s, True)"
  shows "\<exists>s'. returned t = Returns s' \<and> all_returned env base mem userMemory held s'"
  using assms by (cases t) (simp add: all_returned_def lend_ok_def lent_def returned_def)

lemma Invoke_kept:
  assumes "lend_ok env base mem userMemory held w"
  shows "lend_ok env base mem userMemory held (snd (Invoke (pool_runner env (limit_of mem) base) msg w)) \<and>
    lent (snd (Invoke (pool_runner env (limit_of mem) base) msg w)) = lent w"
  using lender.Invoke_balanced [OF assms prod.collapse [symmetric]] by simp

lemma lend_on_world:
  "lend_ok env base mem userMemory held (snd (on_world f v)) = lend_ok env base mem userMemory held v"
  "lent (snd (on_world f v)) = lent v"
  by (simp_all add: on_world_def lend_ok_def lent_def split: prod.splits)

lemma kafka_Invoke_kept:
  assumes "lend_ok env base mem userMemory held w"
  shows "lend_ok env base mem userMemory held (kafka_Invoke (pool_frontend env (limit_of mem) base front) r msg w) \<and>
    lent (kafka_Invoke (pool_frontend env (limit_of mem) base front) r msg w) = lent w"
proof -
  have inv: "lend_ok env base mem userMemory held (snd (Invoke (pool_runner env (limit_of mem) base) msg v)) \<and>
      lent (snd (Invoke (pool_runner env (limit_of mem) base) msg v)) = lent v"
    if "lend_ok env base mem userMemory held v" for v by (rule Invoke_kept [OF that])
  show ?thesis
    using assms by (simp add: kafka_Invoke_def skip_invocation_def pool_frontend_def Let_def split_beta lend_on_world inv)
qed

interpretation invoker: call_system "invoker_call env (limit_of mem) base front" "all_returned env base mem userMemory held"
  for env :: "('w, 's) PoolEnv" and mem base front userMemory held
proof unfold_locales
  fix s c
  assume a: "all_returned env base mem userMemory held s"
  show "\<exists>s'. invoker_call env (limit_of mem) base front c s = Returns s' \<and> all_returned env base mem userMemory held s'"
  proof (cases c)
    case (EvKafka r msg)
    show ?thesis unfolding EvKafka invoker_call.simps by (rule returned_kept [OF a kafka_Invoke_kept])
  next
    case (EvInvoke msg)
    show ?thesis unfolding EvInvoke invoker_call.simps by (rule returned_kept [OF a Invoke_kept])
  qed (use a in \<open>simp_all only: invoker_call.simps background_returned background_out\<close>)
qed

text \<open>
  C25. The runner on top of the pool leaks nothing. From a new pool, after every sequence of
  messages through Kafka, invocations and of rounds of the background goroutines, whatever the daemon, the database,
  the containers and the functions in them do: every call has returned, no container is still
  handed out, the memory in flight is 0, the semaphore is completely free, and the idle
  containers, counted exactly, fit into the configured memory.
\<close>

theorem invoker_leaks_nothing:
  assumes "env_ok env (limit_of mem) userMemory held" and "docs_ok base mem"
    and "unat userMemory < 2 ^ 63" and "held sem = 0"
  shows "\<exists>s. run_calls (invoker_call env (limit_of mem) base front) events (new_system sem userMemory manifests w) = Returns s \<and>
    sys_out s = [] \<and> inFlightMemory (sys_pool s) = 0 \<and> held (inFlight (sys_pool s)) = 0 \<and>
    unat (idlesMemory (sys_pool s)) = mem_sum (flat (idles (sys_pool s))) \<and>
    mem_sum (flat (idles (sys_pool s))) \<le> unat userMemory"
proof -
  have "all_returned env base mem userMemory held (new_system sem userMemory manifests w)"
    using new_system_inv [OF assms(1,3,4)] assms(2) by (simp add: all_returned_def new_system_def)
  from invoker.run_returns [OF this, of front events] obtain s
    where "run_calls (invoker_call env (limit_of mem) base front) events (new_system sem userMemory manifests w) = Returns s"
      and "all_returned env base mem userMemory held s" by blast
  then show ?thesis
    by (auto simp: all_returned_def sys_inv_def pool_inv_def acct_ok_def unat_eq_zero)
qed

definition example_writers :: "nat FrontendEnv" where
  "example_writers =
     \<lparr>fe_Now = \<lambda>w. (0, w), fe_Invoke = \<lambda>msg w. (example_activation, w),
      fe_Marshal = \<lambda>a. Inr ''{}'', fe_WriteMessages = \<lambda>m w. (None, w), fe_AddHeader = \<lambda>k v w. w,
      fe_WriteHeader = \<lambda>n w. w, fe_Flush = None, fe_Write = \<lambda>bs w. (None, w)\<rparr>"

definition example_events :: "invoker_event list" where
  "example_events = [EvKafka \<lparr>kr_InstanceID = 1, kr_BlockedNamespaces = {}\<rparr> example_msg, EvReap 0, EvInvoke example_msg]"

theorem invoker_leaks_nothing_witness:
  "\<exists>s. run_calls (invoker_call (example_env 20) (limit_of (\<lambda>_ _. 5)) example_runner example_writers) example_events
      (new_system 0 20 [] 0) = Returns s \<and>
    map (pc_memory \<circ> hd \<circ> snd) (idles (sys_pool s)) = [5] \<and> sys_out s = []"
proof -
  let ?run = "run_calls (invoker_call (example_env 20) (limit_of (\<lambda>_ _. 5)) example_runner example_writers)
    example_events (new_system 0 20 [] 0)"
  have "docs_ok example_runner (\<lambda>_ _. 5)" by (auto simp: docs_ok_def example_runner_def)
  moreover have "env_ok (example_env 20) (limit_of (\<lambda>_ _. 5)) 20 id"
    by (rule example_env_ok) (simp add: limit_of_def)
  ultimately obtain s where s: "?run = Returns s" "sys_out s = []"
    using invoker_leaks_nothing [of "example_env 20" "\<lambda>_ _. 5" 20 id example_runner 0
        example_writers example_events "[]" 0] by auto
  have "(case ?run of Returns s \<Rightarrow> map (pc_memory \<circ> hd \<circ> snd) (idles (sys_pool s)) | _ \<Rightarrow> []) = [5]"
    by code_simp
  with s show ?thesis by simp
qed

end
