(* ===== verification/Function_Cache.thy ===== *)
theory Function_Cache
  imports Entities Transition
begin

text \<open>
  \<open>pkg/entities/function_cache.go\<close>: the cache in front of the database, with any number of
  concurrent calls of \<open>GetFunction\<close>.

  An entry of the cache is a \<open>sync.OnceValues\<close> function: the first caller runs it, the others
  wait for its result. Entries live in a store and are referenced by their position. The LRU
  cache (\<open>hashicorp/golang-lru\<close>) is the parameter \<open>LruOps\<close>; it may evict a key whenever one
  is added, and \<open>Add\<close> returns whether it did. \<open>db k r\<close> says that the underlying reader may answer \<open>r\<close> for the key \<open>k\<close>.
\<close>

record cacheKey =
  ck_name :: string
  ck_revision :: string

record 'c LruOps =
  lru_Get :: "cacheKey \<Rightarrow> 'c \<Rightarrow> nat option \<times> 'c"
  lru_Add :: "cacheKey \<Rightarrow> nat \<Rightarrow> 'c \<Rightarrow> bool \<times> 'c"
  lru_Remove :: "cacheKey \<Rightarrow> 'c \<Rightarrow> 'c"

text \<open>What is documented of the LRU cache; \<open>contents\<close> are the keys it holds.\<close>

definition lru_ok :: "'c LruOps \<Rightarrow> ('c \<Rightarrow> cacheKey \<Rightarrow> nat option) \<Rightarrow> bool" where
  "lru_ok ops contents =
     ((\<forall>k c. fst (lru_Get ops k c) = contents c k \<and> contents (snd (lru_Get ops k c)) = contents c) \<and>
      (\<forall>k e c. let (evicted, c') = lru_Add ops k e c; added = (contents c)(k \<mapsto> e)
         in if evicted then \<exists>k'. contents c' = added(k' := None) else contents c' = added) \<and>
      (\<forall>k c. contents (lru_Remove ops k c) = (contents c)(k := None)))"

datatype once = OnceFresh | OnceRunning | OnceDone "Function result"

text \<open>Where a call of \<open>GetFunction\<close> is.\<close>

datatype call_phase =
    CStart
  | CMissed
  | CLocked
  | CAdding
  | CAttached nat
  | CReturned "Function result"

text \<open>
  The cache and its mutex, with the store of entries and the calls under way. The last two fields are what has happened so far:
  the entries that have read the database, and how often \<open>Add\<close> has evicted a key.
\<close>

record 'c CachedFunctionReader =
  cfr_cache :: 'c
  cfr_entries :: "(cacheKey \<times> once) list"
  cfr_mux :: "nat option"
  cfr_calls :: "(cacheKey \<times> call_phase) list"
  cfr_reads :: "nat list"
  cfr_evictions :: nat

definition new_reader :: "'c \<Rightarrow> cacheKey list \<Rightarrow> 'c CachedFunctionReader" where
  "new_reader cache keys =
     \<lparr>cfr_cache = cache, cfr_entries = [], cfr_mux = None, cfr_calls = map (\<lambda>k. (k, CStart)) keys, cfr_reads = [], cfr_evictions = 0\<rparr>"

text \<open>The constructor: \<open>lru.New\<close> refuses a size that is not positive. The keys are those of the calls to come.\<close>

definition NewCachedFunctionReader :: "'c result \<Rightarrow> cacheKey list \<Rightarrow> 'c CachedFunctionReader result" where
  "NewCachedFunctionReader lru_New keys =
     (case lru_New of
        Inl err \<Rightarrow> Inl (Errorf ''failed to create LRU cache: %w'' [err])
      | Inr cache \<Rightarrow> Inr (new_reader cache keys))"

definition goto :: "nat \<Rightarrow> cacheKey \<Rightarrow> call_phase \<Rightarrow> 'c CachedFunctionReader \<Rightarrow> 'c CachedFunctionReader" where
  "goto i k p s = s\<lparr>cfr_calls := (cfr_calls s)[i := (k, p)]\<rparr>"

abbreviation at_phase :: "'c CachedFunctionReader \<Rightarrow> nat \<Rightarrow> cacheKey \<Rightarrow> call_phase \<Rightarrow> bool" where
  "at_phase s i k p \<equiv> i < length (cfr_calls s) \<and> cfr_calls s ! i = (k, p)"

text \<open>
  The steps of a call: the look-up without and with the lock, the new entry, the read of the
  database by the first caller of an entry (which removes the entry if it failed) and the
  return with the entry's result.
\<close>

inductive cache_step ::
  "'c LruOps \<Rightarrow> (cacheKey \<Rightarrow> Function result \<Rightarrow> bool) \<Rightarrow> 'c CachedFunctionReader \<Rightarrow> 'c CachedFunctionReader \<Rightarrow> bool"
  for ops db where
  hit: "at_phase s i k CStart \<Longrightarrow> lru_Get ops k (cfr_cache s) = (Some e, c)
    \<Longrightarrow> cache_step ops db s (goto i k (CAttached e) (s\<lparr>cfr_cache := c\<rparr>))"
| miss: "at_phase s i k CStart \<Longrightarrow> lru_Get ops k (cfr_cache s) = (None, c)
    \<Longrightarrow> cache_step ops db s (goto i k CMissed (s\<lparr>cfr_cache := c\<rparr>))"
| lock: "at_phase s i k CMissed \<Longrightarrow> cfr_mux s = None
    \<Longrightarrow> cache_step ops db s (goto i k CLocked (s\<lparr>cfr_mux := Some i\<rparr>))"
| locked_hit: "at_phase s i k CLocked \<Longrightarrow> lru_Get ops k (cfr_cache s) = (Some e, c)
    \<Longrightarrow> cache_step ops db s (goto i k (CAttached e) (s\<lparr>cfr_cache := c, cfr_mux := None\<rparr>))"
| locked_miss: "at_phase s i k CLocked \<Longrightarrow> lru_Get ops k (cfr_cache s) = (None, c)
    \<Longrightarrow> cache_step ops db s (goto i k CAdding (s\<lparr>cfr_cache := c\<rparr>))"
| add: "at_phase s i k CAdding \<Longrightarrow> e = length (cfr_entries s) \<Longrightarrow> lru_Add ops k e (cfr_cache s) = (evicted, c)
    \<Longrightarrow> cache_step ops db s (goto i k (CAttached e)
          (s\<lparr>cfr_entries := cfr_entries s @ [(k, OnceFresh)], cfr_cache := c, cfr_mux := None,
             cfr_evictions := cfr_evictions s + (if evicted then 1 else 0)\<rparr>))"
| run: "at_phase s i k (CAttached e) \<Longrightarrow> e < length (cfr_entries s) \<Longrightarrow> cfr_entries s ! e = (k', OnceFresh)
    \<Longrightarrow> cache_step ops db s (s\<lparr>cfr_entries := (cfr_entries s)[e := (k', OnceRunning)]\<rparr>)"
| finish: "e < length (cfr_entries s) \<Longrightarrow> cfr_entries s ! e = (k', OnceRunning) \<Longrightarrow> db k' r
    \<Longrightarrow> cache_step ops db s (s\<lparr>cfr_entries := (cfr_entries s)[e := (k', OnceDone r)], cfr_reads := e # cfr_reads s,
          cfr_cache := (case r of Inl _ \<Rightarrow> lru_Remove ops k' (cfr_cache s) | Inr _ \<Rightarrow> cfr_cache s)\<rparr>)"
| return: "at_phase s i k (CAttached e) \<Longrightarrow> e < length (cfr_entries s) \<Longrightarrow> cfr_entries s ! e = (k', OnceDone r)
    \<Longrightarrow> cache_step ops db s (goto i k (CReturned r) s)"

inductive_cases cache_stepE: "cache_step ops db s s'"

section \<open>The invariant\<close>

text \<open>One conjunct per part of the state, so that a step only touches what it changes.\<close>

definition cached_ok :: "('c \<Rightarrow> cacheKey \<Rightarrow> nat option) \<Rightarrow> 'c \<Rightarrow> (cacheKey \<times> once) list \<Rightarrow> bool" where
  "cached_ok contents c entries =
     (\<forall>k e. contents c k = Some e \<longrightarrow> e < length entries \<and> fst (entries ! e) = k \<and> (\<forall>err. snd (entries ! e) \<noteq> OnceDone (Inl err)))"

definition entries_ok :: "(cacheKey \<Rightarrow> Function result \<Rightarrow> bool) \<Rightarrow> (cacheKey \<times> once) list \<Rightarrow> nat list \<Rightarrow> bool" where
  "entries_ok db entries reads =
     (distinct reads \<and> (\<forall>e. e \<in> set reads \<longleftrightarrow> e < length entries \<and> (\<exists>r. snd (entries ! e) = OnceDone r)) \<and>
      (\<forall>e r. e < length entries \<longrightarrow> snd (entries ! e) = OnceDone r \<longrightarrow> db (fst (entries ! e)) r))"

definition call_ok :: "(cacheKey \<Rightarrow> Function result \<Rightarrow> bool) \<Rightarrow> (cacheKey \<times> once) list \<Rightarrow> cacheKey \<times> call_phase \<Rightarrow> bool" where
  "call_ok db entries call =
     (case snd call of
        CAttached e \<Rightarrow> e < length entries \<and> fst (entries ! e) = fst call
      | CReturned r \<Rightarrow> db (fst call) r
      | _ \<Rightarrow> True)"

definition mux_ok :: "nat option \<Rightarrow> (cacheKey \<times> call_phase) list \<Rightarrow> bool" where
  "mux_ok mux calls =
     ((\<forall>i < length calls. mux = Some i \<longleftrightarrow> snd (calls ! i) = CLocked \<or> snd (calls ! i) = CAdding) \<and>
      (\<forall>i. mux = Some i \<longrightarrow> i < length calls))"

text \<open>
  Calls for the same key share one entry: the entries of a key whose read has not failed are at most as many as the cache has
  evicted, and the one that the cache holds. A call that is about to add an entry has looked under the lock.
\<close>

definition live :: "cacheKey \<Rightarrow> cacheKey \<times> once \<Rightarrow> bool" where
  "live k x = (fst x = k \<and> (\<forall>err. snd x \<noteq> OnceDone (Inl err)))"

definition live_entries :: "cacheKey \<Rightarrow> (cacheKey \<times> once) list \<Rightarrow> nat" where
  "live_entries k entries = length (filter (live k) entries)"

definition shared_ok :: "('c \<Rightarrow> cacheKey \<Rightarrow> nat option) \<Rightarrow> 'c \<Rightarrow> (cacheKey \<times> once) list \<Rightarrow> nat \<Rightarrow> bool" where
  "shared_ok contents c entries evictions =
     (\<forall>k. live_entries k entries \<le> evictions + (if contents c k = None then 0 else 1))"

definition adding_ok :: "('c \<Rightarrow> cacheKey \<Rightarrow> nat option) \<Rightarrow> 'c \<Rightarrow> (cacheKey \<times> call_phase) list \<Rightarrow> bool" where
  "adding_ok contents c calls = (\<forall>k. (k, CAdding) \<in> set calls \<longrightarrow> contents c k = None)"

definition cache_inv ::
  "(cacheKey \<Rightarrow> Function result \<Rightarrow> bool) \<Rightarrow> ('c \<Rightarrow> cacheKey \<Rightarrow> nat option) \<Rightarrow> 'c CachedFunctionReader \<Rightarrow> bool" where
  "cache_inv db contents s =
     (cached_ok contents (cfr_cache s) (cfr_entries s) \<and> entries_ok db (cfr_entries s) (cfr_reads s) \<and>
      (\<forall>call \<in> set (cfr_calls s). call_ok db (cfr_entries s) call) \<and> mux_ok (cfr_mux s) (cfr_calls s) \<and>
      shared_ok contents (cfr_cache s) (cfr_entries s) (cfr_evictions s) \<and> adding_ok contents (cfr_cache s) (cfr_calls s))"

lemma goto_sel [simp]:
  "cfr_cache (goto i k p s) = cfr_cache s" "cfr_entries (goto i k p s) = cfr_entries s" "cfr_mux (goto i k p s) = cfr_mux s"
  "cfr_reads (goto i k p s) = cfr_reads s" "cfr_evictions (goto i k p s) = cfr_evictions s" "cfr_calls (goto i k p s) = (cfr_calls s)[i := (k, p)]"
  by (simp_all add: goto_def)

lemma lru_ok_Get:
  "lru_ok ops contents \<Longrightarrow> lru_Get ops k c = (r, c') \<Longrightarrow> r = contents c k \<and> contents c' = contents c"
  by (metis fst_conv lru_ok_def snd_conv)

lemma call_ok_simps [simp]:
  "call_ok db entries (k, CStart)" "call_ok db entries (k, CMissed)" "call_ok db entries (k, CLocked)" "call_ok db entries (k, CAdding)"
  "call_ok db entries (k, CAttached e) = (e < length entries \<and> fst (entries ! e) = k)"
  "call_ok db entries (k, CReturned r) = db k r"
  by (simp_all add: call_ok_def)

text \<open>Entries keep their key, and new ones are added at the end.\<close>

lemma call_ok_entries:
  assumes "call_ok db entries call" and "length entries \<le> length entries'"
    and "\<And>e. e < length entries \<Longrightarrow> fst (entries' ! e) = fst (entries ! e)"
  shows "call_ok db entries' call"
  using assms by (cases call, cases "snd call") (auto simp: call_ok_def)

lemma calls_ok_update:
  "\<forall>call \<in> set calls. call_ok db entries call \<Longrightarrow> call_ok db entries x \<Longrightarrow> \<forall>call \<in> set (calls[i := x]). call_ok db entries call"
  by (auto dest: subsetD [OF set_update_subset_insert])

lemma cached_ok_Get:
  "lru_ok ops contents \<Longrightarrow> lru_Get ops k c = (r, c') \<Longrightarrow> cached_ok contents c entries \<Longrightarrow> cached_ok contents c' entries"
  by (simp add: cached_ok_def lru_ok_Get)

definition holder :: "call_phase \<Rightarrow> bool" where
  "holder p = (p = CLocked \<or> p = CAdding)"

lemma mux_ok_moves:
  assumes "mux_ok mux calls" and "i < length calls" and "calls ! i = (k, q)"
  shows "\<not> holder q \<Longrightarrow> \<not> holder p \<Longrightarrow> mux_ok mux (calls[i := (k, p)])"
    and "holder q \<Longrightarrow> holder p \<Longrightarrow> mux_ok mux (calls[i := (k, p)])"
    and "holder q \<Longrightarrow> \<not> holder p \<Longrightarrow> mux_ok None (calls[i := (k, p)])"
    and "mux = None \<Longrightarrow> holder p \<Longrightarrow> mux_ok (Some i) (calls[i := (k, p)])"
proof -
  have mine: "mux = Some i" if "holder q" using assms that by (auto simp: mux_ok_def holder_def)
  show "\<not> holder q \<Longrightarrow> \<not> holder p \<Longrightarrow> mux_ok mux (calls[i := (k, p)])"
    "holder q \<Longrightarrow> holder p \<Longrightarrow> mux_ok mux (calls[i := (k, p)])"
    "holder q \<Longrightarrow> \<not> holder p \<Longrightarrow> mux_ok None (calls[i := (k, p)])"
    "mux = None \<Longrightarrow> holder p \<Longrightarrow> mux_ok (Some i) (calls[i := (k, p)])"
    using assms mine by (simp_all add: mux_ok_def holder_def nth_list_update)
qed

lemma entries_ok_update:
  assumes "entries_ok db entries reads" and "e < length entries" and "entries ! e = (k, x)" and "\<And>r. x \<noteq> OnceDone r"
  shows "entries_ok db (entries[e := (k, OnceRunning)]) reads"
    and "db k r \<Longrightarrow> entries_ok db (entries[e := (k, OnceDone r)]) (e # reads)"
  using assms by (auto simp: entries_ok_def nth_list_update)

lemma entries_ok_append:
  "entries_ok db entries reads \<Longrightarrow> entries_ok db (entries @ [(k, OnceFresh)]) reads"
  by (auto simp: entries_ok_def nth_append less_Suc_eq)

lemma lru_ok_Add:
  assumes "lru_ok ops contents" and "lru_Add ops k e c = (evicted, c')"
  obtains (kept) "\<not> evicted" and "contents c' = (contents c)(k \<mapsto> e)"
  | (evicts) k' where "evicted" and "contents c' = ((contents c)(k \<mapsto> e))(k' := None)"
proof -
  from assms(1) have "let (evicted, c') = lru_Add ops k e c; added = (contents c)(k \<mapsto> e)
      in if evicted then \<exists>k'. contents c' = added(k' := None) else contents c' = added" unfolding lru_ok_def by blast
  with assms(2) that show thesis by (auto simp: Let_def split: if_splits)
qed

lemma cached_ok_add:
  assumes "lru_ok ops contents" and "cached_ok contents c entries" and "lru_Add ops k (length entries) c = (evicted, c')"
  shows "cached_ok contents c' (entries @ [(k, OnceFresh)])"
proof -
  have "contents c' k' = Some e \<Longrightarrow> contents c k' = Some e \<or> k' = k \<and> e = length entries" for k' e
    using assms(1,3) by (cases rule: lru_ok_Add) (auto split: if_splits)
  with assms(2) show ?thesis by (fastforce simp: cached_ok_def nth_append)
qed

text \<open>Sharing: what a step does to the number of entries, of evictions and of cached keys.\<close>

lemma live_simps [simp]: "live k (k', OnceFresh) = (k' = k)" "live k (k', OnceRunning) = (k' = k)"
  "live k (k', OnceDone r) = (k' = k \<and> \<not> isl r)"
  by (cases r; auto simp: live_def)+

lemma shared_ok_append:
  assumes ops: "lru_ok ops contents" and sh: "shared_ok contents c entries n" and fresh: "contents c k = None"
    and add: "lru_Add ops k e c = (evicted, c')"
  shows "shared_ok contents c' (entries @ [(k, OnceFresh)]) (n + (if evicted then 1 else 0))"
proof -
  have le: "live_entries k' entries \<le> n + (if contents c k' = None then 0 else 1)" for k' using sh by (simp add: shared_ok_def)
  from ops add show ?thesis
  proof (cases rule: lru_ok_Add)
    case kept
    have "live_entries j (entries @ [(k, OnceFresh)]) \<le> n + (if contents c' j = None then 0 else 1)" for j
      using le [of j] fresh unfolding kept(2) by (cases "j = k") (simp_all add: live_entries_def split: if_splits)
    with kept(1) show ?thesis by (simp add: shared_ok_def)
  next
    case (evicts k')
    have "live_entries j (entries @ [(k, OnceFresh)]) \<le> n + 1 + (if contents c' j = None then 0 else 1)" for j
      using le [of j] fresh unfolding evicts(2) by (cases "j = k"; cases "j = k'") (simp_all add: live_entries_def split: if_splits)
    with evicts(1) show ?thesis by (simp add: shared_ok_def)
  qed
qed

lemma live_entries_update:
  "e < length entries \<Longrightarrow> entries ! e = (k, x) \<Longrightarrow> live k (k, x) \<Longrightarrow> live k (k, y)
   \<Longrightarrow> live_entries k' (entries[e := (k, y)]) = live_entries k' entries"
  using filter_update_length [of e entries "live k'" "(k, y)"] by (cases "k' = k") (auto simp: live_entries_def live_def split: if_splits)

lemma shared_ok_update:
  "shared_ok contents c entries n \<Longrightarrow> e < length entries \<Longrightarrow> entries ! e = (k, x) \<Longrightarrow> live k (k, x) \<Longrightarrow> live k (k, y)
   \<Longrightarrow> shared_ok contents c (entries[e := (k, y)]) n"
  by (simp add: shared_ok_def live_entries_update)

lemma shared_ok_fails:
  assumes ops: "lru_ok ops contents" and sh: "shared_ok contents c entries n" and e: "e < length entries" "entries ! e = (k, OnceRunning)"
  shows "shared_ok contents (lru_Remove ops k c) (entries[e := (k, OnceDone (Inl err))]) n"
proof -
  have rm: "contents (lru_Remove ops k c) = (contents c)(k := None)" using ops by (simp add: lru_ok_def)
  have "live_entries k' (entries[e := (k, OnceDone (Inl err))]) \<le> n + (if contents (lru_Remove ops k c) k' = None then 0 else 1)" for k'
    using sh [unfolded shared_ok_def, rule_format, of k'] filter_update_length [OF e(1), of "live k'" "(k, OnceDone (Inl err))"]
    unfolding rm by (auto simp: live_entries_def e(2) split: if_splits)
  then show ?thesis by (simp add: shared_ok_def)
qed

lemma adding_ok_moves:
  "adding_ok contents c calls \<Longrightarrow> p \<noteq> CAdding \<or> contents c k = None \<Longrightarrow> adding_ok contents c (calls[i := (k, p)])"
  by (auto simp: adding_ok_def dest!: subsetD [OF set_update_subset_insert])

lemma adding_ok_unlocked: "mux_ok None calls \<Longrightarrow> adding_ok contents c calls"
  by (auto simp: adding_ok_def mux_ok_def in_set_conv_nth)

lemma shared_ok_Get: "lru_ok ops contents \<Longrightarrow> lru_Get ops k c = (r, c') \<Longrightarrow> shared_ok contents c' entries n = shared_ok contents c entries n"
  by (simp add: shared_ok_def lru_ok_Get)

lemma adding_ok_Get: "lru_ok ops contents \<Longrightarrow> lru_Get ops k c = (r, c') \<Longrightarrow> adding_ok contents c' calls = adding_ok contents c calls"
  by (simp add: adding_ok_def lru_ok_Get)

lemma adding_ok_Remove: "lru_ok ops contents \<Longrightarrow> adding_ok contents c calls \<Longrightarrow> adding_ok contents (lru_Remove ops k c) calls"
  by (auto simp: adding_ok_def lru_ok_def)

lemma cached_ok_running:
  "cached_ok contents c entries \<Longrightarrow> e < length entries \<Longrightarrow> entries ! e = (k, x) \<Longrightarrow> cached_ok contents c (entries[e := (k, OnceRunning)])"
  by (fastforce simp: cached_ok_def nth_list_update)

text \<open>A failed read removes the entry that the key has, so that no failure stays in the cache.\<close>

lemma cached_ok_done:
  assumes "lru_ok ops contents" and "cached_ok contents c entries" and "e < length entries" and "entries ! e = (k, x)"
  shows "cached_ok contents (case r of Inl _ \<Rightarrow> lru_Remove ops k c | Inr _ \<Rightarrow> c) (entries[e := (k, OnceDone r)])"
  using assms by (fastforce simp: cached_ok_def lru_ok_def nth_list_update split: sum.splits if_splits)

lemma cache_step_inv:
  assumes ops: "lru_ok ops contents" and inv: "cache_inv db contents s" and step: "cache_step ops db s s'"
  shows "cache_inv db contents s'"
proof -
  note I = inv [unfolded cache_inv_def]
  from I have cached: "cached_ok contents (cfr_cache s) (cfr_entries s)" and entries: "entries_ok db (cfr_entries s) (cfr_reads s)"
    and calls: "\<forall>call \<in> set (cfr_calls s). call_ok db (cfr_entries s) call" and mux: "mux_ok (cfr_mux s) (cfr_calls s)"
    and shared: "shared_ok contents (cfr_cache s) (cfr_entries s) (cfr_evictions s)"
    and adding: "adding_ok contents (cfr_cache s) (cfr_calls s)" by auto
  have found: "call_ok db (cfr_entries s) (k, CAttached e)" if "lru_Get ops k (cfr_cache s) = (Some e, c)" for k e c
    using lru_ok_Get [OF ops that] cached by (simp add: cached_ok_def)
  note got = cached_ok_Get [OF ops _ cached] and same = shared_ok_Get [OF ops] adding_ok_Get [OF ops] and aim = adding_ok_moves [OF adding]
  note moves = mux_ok_moves [OF mux] and upd = calls_ok_update [OF calls]
  have keyed: "\<forall>call \<in> set (cfr_calls s). call_ok db ((cfr_entries s)[e := (k, x)]) call"
    if "e < length (cfr_entries s)" "cfr_entries s ! e = (k, y)" for e k x y
    using that by (intro ballI call_ok_entries [OF bspec [OF calls]]) (auto simp: nth_list_update)
  from step show ?thesis
  proof cases
    case (hit i k e c)
    then show ?thesis using entries got moves(1) [of i k CStart "CAttached e"] upd [OF found [OF hit(3)]]
        shared same [OF hit(3)] aim [of "CAttached e"]
      by (simp add: cache_inv_def holder_def)
  next
    case (miss i k c)
    then show ?thesis using entries got moves(1) [of i k CStart CMissed] upd [of "(k, CMissed)" i]
        shared same [OF miss(3)] aim [of CMissed] by (simp add: cache_inv_def holder_def)
  next
    case (lock i k)
    then show ?thesis using entries cached moves(4) [of i k CMissed CLocked] upd [of "(k, CLocked)" i] shared aim [of CLocked]
      by (simp add: cache_inv_def holder_def)
  next
    case (locked_hit i k e c)
    then show ?thesis using entries got moves(3) [of i k CLocked "CAttached e"] upd [OF found [OF locked_hit(3)]]
        shared same [OF locked_hit(3)] aim [of "CAttached e"]
      by (simp add: cache_inv_def holder_def)
  next
    case (locked_miss i k c)
    then show ?thesis using entries got moves(2) [of i k CLocked CAdding] upd [of "(k, CAdding)" i]
        shared same [OF locked_miss(3)] aim [of CAdding k] lru_ok_Get [OF ops locked_miss(3)] by (simp add: cache_inv_def holder_def)
  next
    case (add i k e evicted c)
    have "\<forall>call \<in> set (cfr_calls s). call_ok db (cfr_entries s @ [(k, OnceFresh)]) call"
      by (intro ballI call_ok_entries [OF bspec [OF calls]]) (auto simp: nth_append)
    from calls_ok_update [OF this, of "(k, CAttached e)" i]
    have "\<forall>call \<in> set ((cfr_calls s)[i := (k, CAttached e)]). call_ok db (cfr_entries s @ [(k, OnceFresh)]) call"
      using add by simp
    moreover have "contents (cfr_cache s) k = None" using adding add(2) nth_mem unfolding adding_ok_def by metis
    from shared_ok_append [OF ops shared this add(4)]
    have "shared_ok contents c (cfr_entries s @ [(k, OnceFresh)]) (cfr_evictions s + (if evicted then 1 else 0))" .
    moreover have "mux_ok None ((cfr_calls s)[i := (k, CAttached e)])"
      using moves(3) [of i k CAdding "CAttached e"] add by (simp add: holder_def)
    ultimately show ?thesis
      using add entries_ok_append [OF entries] cached_ok_add [OF ops cached add(4) [unfolded add(3)]] adding_ok_unlocked
      by (simp add: cache_inv_def)
  next
    case (run i k e k')
    then show ?thesis
      using entries_ok_update(1) [OF entries] cached_ok_running [OF cached] keyed mux
        shared_ok_update [OF shared] adding by (simp add: cache_inv_def)
  next
    case (finish e k' r)
    have "shared_ok contents (cfr_cache s') (cfr_entries s') (cfr_evictions s')"
      using finish shared_ok_fails [OF ops shared] shared_ok_update [OF shared, of e k' OnceRunning] by (simp split: sum.split)
    moreover have "adding_ok contents (cfr_cache s') (cfr_calls s')"
      using finish adding adding_ok_Remove [OF ops adding] by (simp split: sum.split)
    ultimately show ?thesis
      using finish entries_ok_update(2) [OF entries] cached_ok_done [OF ops cached] keyed mux by (simp add: cache_inv_def)
  next
    case (return i k e k' r)
    have "call_ok db (cfr_entries s) (k, CAttached e)" using calls return nth_mem by metis
    then have "db k r" using entries return by (auto simp: entries_ok_def)
    with return show ?thesis using cached entries moves(1) [of i k "CAttached e" "CReturned r"] upd [of "(k, CReturned r)" i]
        shared aim [of "CReturned r"] by (simp add: cache_inv_def holder_def)
  qed
qed

section \<open>Progress\<close>

definition all_answered :: "'c CachedFunctionReader \<Rightarrow> bool" where
  "all_answered s = (\<forall>call \<in> set (cfr_calls s). \<exists>r. snd call = CReturned r)"

definition cache_progress ::
  "'c LruOps \<Rightarrow> (cacheKey \<Rightarrow> Function result \<Rightarrow> bool) \<Rightarrow> 'c CachedFunctionReader \<Rightarrow> bool" where
  "cache_progress ops db s = (all_answered s \<or> (\<exists>s'. cache_step ops db s s'))"

lemma attached_progress:
  assumes "at_phase s i k (CAttached e)" and "e < length (cfr_entries s)" and "\<And>k. \<exists>r. db k r"
  shows "\<exists>s'. cache_step ops db s s'"
proof -
  obtain k' x where e: "cfr_entries s ! e = (k', x)" by force
  show ?thesis
  proof (cases x)
    case OnceFresh
    with cache_step.run [OF assms(1,2)] e show ?thesis by blast
  next
    case OnceRunning
    with cache_step.finish [OF assms(2)] e assms(3) [of k'] show ?thesis by blast
  next
    case (OnceDone r)
    with cache_step.return [OF assms(1,2)] e show ?thesis by blast
  qed
qed

lemma locked_progress:
  assumes "at_phase s i k p" and "holder p"
  shows "\<exists>s'. cache_step ops db s s'"
proof (cases "p = CAdding")
  case True
  obtain evicted c where "lru_Add ops k (length (cfr_entries s)) (cfr_cache s) = (evicted, c)" by force
  from cache_step.add [OF assms(1) [unfolded True] refl this] show ?thesis by blast
next
  case False
  obtain r c where "lru_Get ops k (cfr_cache s) = (r, c)" by force
  moreover from False assms have at: "at_phase s i k CLocked" by (simp add: holder_def)
  ultimately show ?thesis using cache_step.locked_hit [OF at] cache_step.locked_miss [OF at] by (cases r) blast+
qed

lemma cache_inv_progress:
  assumes "cache_inv db contents s" and "\<And>k. \<exists>r. db k r"
  shows "cache_progress ops db s"
proof (cases "all_answered s")
  case False
  then obtain i k p where at: "at_phase s i k p" and p: "\<And>r. p \<noteq> CReturned r"
    by (auto simp: all_answered_def in_set_conv_nth)
  have "call_ok db (cfr_entries s) (k, p)" using assms(1) at nth_mem by (metis cache_inv_def)
  then have "\<exists>s'. cache_step ops db s s'"
  proof (cases p)
    case CStart
    obtain r c where "lru_Get ops k (cfr_cache s) = (r, c)" by force
    moreover from CStart at have at0: "at_phase s i k CStart" by simp
    ultimately show ?thesis using cache_step.hit [OF at0] cache_step.miss [OF at0] by (cases r) blast+
  next
    case CMissed
    show ?thesis
    proof (cases "cfr_mux s")
      case None
      with CMissed at cache_step.lock show ?thesis by blast
    next
      case (Some j)
      then have "j < length (cfr_calls s)" "holder (snd (cfr_calls s ! j))"
        using assms(1) by (auto simp: cache_inv_def mux_ok_def holder_def)
      then have "at_phase s j (fst (cfr_calls s ! j)) (snd (cfr_calls s ! j))" by simp
      then show ?thesis by (rule locked_progress) fact
    qed
  next
    case (CAttached e)
    with at have "at_phase s i k (CAttached e)" by simp
    moreover have "e < length (cfr_entries s)" using CAttached \<open>call_ok db (cfr_entries s) (k, p)\<close> by simp
    ultimately show ?thesis by (rule attached_progress) (rule assms(2))
  qed (use p locked_progress [OF at] in \<open>auto simp: holder_def\<close>)
  then show ?thesis by (simp add: cache_progress_def)
qed (simp add: cache_progress_def)

interpretation cached_reader: safe_system "cache_step ops db"
    "\<lambda>s. lru_ok ops contents \<and> (\<forall>k. \<exists>r. db k r) \<and> cache_inv db contents s" "cache_progress ops db"
  for ops :: "'c LruOps" and db contents
  by unfold_locales (auto intro: cache_step_inv cache_inv_progress)

text \<open>Every step uses up work, so that all calls are answered in the end.\<close>

primrec call_work :: "call_phase \<Rightarrow> nat" where
  "call_work CStart = 7"
| "call_work CMissed = 6"
| "call_work CLocked = 5"
| "call_work CAdding = 4"
| "call_work (CAttached e) = 1"
| "call_work (CReturned r) = 0"

primrec once_work :: "once \<Rightarrow> nat" where
  "once_work OnceFresh = 2"
| "once_work OnceRunning = 1"
| "once_work (OnceDone r) = 0"

definition cache_work :: "'c CachedFunctionReader \<Rightarrow> nat" where
  "cache_work s = sum_list (map (call_work \<circ> snd) (cfr_calls s)) + sum_list (map (once_work \<circ> snd) (cfr_entries s))"

lemma cache_step_work:
  assumes "cache_step ops db s s'"
  shows "cache_work s' < cache_work s"
proof -
  have call: "sum_list (map (call_work \<circ> snd) ((cfr_calls s)[i := (k, q)])) + call_work p
      = sum_list (map (call_work \<circ> snd) (cfr_calls s)) + call_work q" if "at_phase s i k p" for i k p q
    using sum_list_map_update [of i "cfr_calls s" "call_work \<circ> snd" "(k, q)"] that by simp
  have entry: "sum_list (map (once_work \<circ> snd) ((cfr_entries s)[e := (k, y)])) + once_work x
      = sum_list (map (once_work \<circ> snd) (cfr_entries s)) + once_work y"
    if "e < length (cfr_entries s)" "cfr_entries s ! e = (k, x)" for e k x y
    using sum_list_map_update [of e "cfr_entries s" "once_work \<circ> snd" "(k, y)"] that by simp
  from assms show ?thesis
  proof cases
    case (run i k e k')
    with entry [of e k' OnceFresh OnceRunning] show ?thesis by (simp add: cache_work_def)
  next
    case (finish e k' r)
    with entry [of e k' OnceRunning "OnceDone r"] show ?thesis by (simp add: cache_work_def)
  next
    case (hit i k e c)
    with call [of i k CStart "CAttached e"] show ?thesis by (simp add: cache_work_def)
  next
    case (miss i k c)
    with call [of i k CStart CMissed] show ?thesis by (simp add: cache_work_def)
  next
    case (lock i k)
    with call [of i k CMissed CLocked] show ?thesis by (simp add: cache_work_def)
  next
    case (locked_hit i k e c)
    with call [of i k CLocked "CAttached e"] show ?thesis by (simp add: cache_work_def)
  next
    case (locked_miss i k c)
    with call [of i k CLocked CAdding] show ?thesis by (simp add: cache_work_def)
  next
    case (add i k e evicted c)
    with call [of i k CAdding "CAttached e"] show ?thesis by (simp add: cache_work_def)
  next
    case (return i k e k' r)
    with call [of i k "CAttached e" "CReturned r"] show ?thesis by (simp add: cache_work_def)
  qed
qed

interpretation cached_reader_ends: terminating_system "cache_step ops db" "\<lambda>s. lru_ok ops contents \<and> (\<forall>k. \<exists>r. db k r) \<and> cache_inv db contents s"
    cache_work
  for ops :: "'c LruOps" and db contents
  by unfold_locales (rule cache_step_work)

lemma new_reader_inv:
  "contents cache = Map.empty \<Longrightarrow> cache_inv db contents (new_reader cache keys)"
  by (auto simp: cache_inv_def new_reader_def cached_ok_def entries_ok_def mux_ok_def shared_ok_def live_entries_def adding_ok_def)

text \<open>
  C30. The cached reader refines the database: in every interleaving of concurrent calls of
  GetFunction, whatever the cache evicts, an answer for a name and a revision is one that the
  database gave for them. Concurrent and later calls share reads: the reads for a key that have not failed, whether they are
  finished, under way or still to start, are never more than one and one for every eviction of the cache, so that without
  evictions a second read for the key is started only after the first has failed; every entry reads the database at most once.
  The cache never holds a failure. The calls have no infinite run, whatever their schedule, and a run stops only where
  all of them are answered.
\<close>

theorem cached_reader_refines:
  assumes "lru_ok ops contents" and "\<forall>k. \<exists>r. db k r" and "contents cache = Map.empty"
    and "NewCachedFunctionReader (Inr cache) keys = Inr s0" and "rtranclp (cache_step ops db) s0 s"
  shows "(\<forall>k r. (k, CReturned r) \<in> set (cfr_calls s) \<longrightarrow> db k r) \<and>
    (\<forall>k. length (filter (\<lambda>x. fst x = k \<and> (\<forall>err. snd x \<noteq> OnceDone (Inl err))) (cfr_entries s)) \<le> 1 + cfr_evictions s) \<and>
    distinct (cfr_reads s) \<and> set (cfr_reads s) \<subseteq> {..<length (cfr_entries s)} \<and>
    (\<forall>k e. contents (cfr_cache s) k = Some e \<longrightarrow> fst (cfr_entries s ! e) = k \<and> (\<forall>err. snd (cfr_entries s ! e) \<noteq> OnceDone (Inl err))) \<and>
    (\<nexists>f. f 0 = s \<and> (\<forall>n. cache_step ops db (f n) (f (Suc n)))) \<and>
    (all_answered s \<or> (\<exists>s'. cache_step ops db s s'))"
proof -
  have start: "lru_ok ops contents \<and> (\<forall>k. \<exists>r. db k r) \<and> cache_inv db contents s0"
    using assms(1-4) by (auto simp: new_reader_inv NewCachedFunctionReader_def)
  note here = cached_reader.reachable_inv [OF start assms(5)]
  then have inv: "cache_inv db contents s" by simp
  from cached_reader.always_good [OF start assms(5)] have "cache_progress ops db s" .
  moreover have "db k r" if "(k, CReturned r) \<in> set (cfr_calls s)" for k r
    using inv that by (force simp: cache_inv_def)
  moreover have "length (filter (\<lambda>x. fst x = k \<and> (\<forall>err. snd x \<noteq> OnceDone (Inl err))) (cfr_entries s)) \<le> 1 + cfr_evictions s" for k
    using inv by (auto simp: cache_inv_def shared_ok_def live_entries_def live_def [abs_def] split: if_splits dest!: spec [of _ k])
  moreover have "\<nexists>f. f 0 = s \<and> (\<forall>n. cache_step ops db (f n) (f (Suc n)))"
    using cached_reader_ends.no_infinite_run [where ops = ops and contents = contents and db = db] here by blast
  ultimately show ?thesis
    using inv by (auto simp: cache_inv_def cached_ok_def entries_ok_def cache_progress_def)
qed

text \<open>A cache of size one and two concurrent calls for the same function, up to the shared entry.\<close>

definition example_lru :: "(cacheKey \<times> nat) list LruOps" where
  "example_lru = \<lparr>lru_Get = \<lambda>k c. (map_of c k, c), 
     lru_Add = \<lambda>k e c.
       (let others = filter (\<lambda>p. fst p \<noteq> k) c
        in if others = [] then (False, [(k, e)])
           else (True, (k, e) # filter (\<lambda>p. fst p \<noteq> fst (last others)) others)),
     lru_Remove = \<lambda>k c. filter (\<lambda>p. fst p \<noteq> k) c\<rparr>"

lemma map_of_filter_key: "map_of (filter (\<lambda>p. fst p \<noteq> k) c) = (map_of c)(k := None)"
  by (induction c) auto

lemma example_lru_add:
  assumes "filter (\<lambda>p. fst p \<noteq> k) c \<noteq> []"
  shows "\<exists>k'. (map_of (filter (\<lambda>p. fst p \<noteq> fst (last (filter (\<lambda>p. fst p \<noteq> k) c))) (filter (\<lambda>p. fst p \<noteq> k) c)))(k \<mapsto> e)
    = ((map_of c)(k \<mapsto> e))(k' := None)"
proof -
  let ?l = "fst (last (filter (\<lambda>p. fst p \<noteq> k) c))"
  have "?l \<noteq> k" using last_in_set [OF assms] by simp
  then show ?thesis by (intro exI [of _ ?l]) (simp add: map_of_filter_key fun_upd_twist [of k] del: filter_filter)
qed

lemma example_lru_ok: "lru_ok example_lru map_of"
proof -
  have "(map_of c)(k \<mapsto> e) = [k \<mapsto> e]" if "filter (\<lambda>p. fst p \<noteq> k) c = []" for c :: "(cacheKey \<times> nat) list" and k e
    using arg_cong [OF map_of_filter_key [of k c], of "\<lambda>m. m(k \<mapsto> e)"] that by simp
  then have "if fst (lru_Add example_lru k e c) then \<exists>k'. map_of (snd (lru_Add example_lru k e c)) = ((map_of c)(k \<mapsto> e))(k' := None)
      else map_of (snd (lru_Add example_lru k e c)) = (map_of c)(k \<mapsto> e)" for k e c
    using example_lru_add [of k c e] by (simp add: example_lru_def Let_def del: filter_filter filter_empty_conv)
  then show ?thesis unfolding lru_ok_def by (simp add: case_prod_beta Let_def) (simp add: example_lru_def map_of_filter_key)
qed

definition example_key :: cacheKey where
  "example_key = \<lparr>ck_name = ''ns/f'', ck_revision = ''1''\<rparr>"

theorem cached_reader_refines_witness:
  "\<exists>s. rtranclp (cache_step example_lru (\<lambda>k r. r = Inl ErrFunctionNotFound)) (new_reader [] [example_key, example_key]) s \<and>
     cfr_calls s = [(example_key, CLocked), (example_key, CStart)] \<and>
     (\<exists>s'. cache_step example_lru (\<lambda>k r. r = Inl ErrFunctionNotFound) s s')"
proof -
  let ?db = "\<lambda>k r. r = (Inl ErrFunctionNotFound :: Function result)"
  let ?s0 = "new_reader [] [example_key, example_key]"
  let ?s1 = "goto 0 example_key CMissed (?s0\<lparr>cfr_cache := []\<rparr>)"
  let ?s2 = "goto 0 example_key CLocked (?s1\<lparr>cfr_mux := Some 0\<rparr>)"
  have "cache_step example_lru ?db ?s0 ?s1"
    by (rule cache_step.miss) (simp_all add: new_reader_def example_lru_def)
  moreover have "cache_step example_lru ?db ?s1 ?s2"
    by (rule cache_step.lock) (simp_all add: new_reader_def)
  ultimately have run: "rtranclp (cache_step example_lru ?db) ?s0 ?s2" by (rule converse_rtranclp_into_rtranclp [OF _ r_into_rtranclp])
  have calls: "cfr_calls ?s2 = [(example_key, CLocked), (example_key, CStart)]"
    by (simp add: new_reader_def)
  have "\<not> all_answered ?s2" by (simp add: all_answered_def new_reader_def)
  then have "\<exists>s'. cache_step example_lru ?db ?s2 s'"
    using cached_reader_refines [OF example_lru_ok _ _ _ run, of "[]" "[example_key, example_key]"]
    by (auto simp: NewCachedFunctionReader_def)
  with run calls show ?thesis by blast
qed

end
