(* ===== verification/Couchdb.thy ===== *)
theory Couchdb
  imports Entities
begin

text \<open>
  \<open>pkg/couchdb/client.go\<close>: the client of the database.

  The HTTP client, the clock and the context are the fields of \<open>CouchOps\<close>, functions on a world;
  \<open>co_ctxErr\<close> is \<open>ctx.Err()\<close> of the context with the deadline \<open>maxRetryDuration\<close>. \<open>json.Marshal\<close>
  and \<open>json.Unmarshal\<close> are functions of the record too. A URL is its path, element by element,
  and its query. Metrics are left out.
\<close>

definition functionsDB :: string where "functionsDB = ''whisks''"
definition activationsDB :: string where "activationsDB = ''activations''"

definition baseRetryInterval :: Duration where "baseRetryInterval = 50 * Millisecond"
definition retryIntervalFactor :: int where "retryIntervalFactor = 2"
definition maxRetryInterval :: Duration where "maxRetryInterval = 5 * Second"
definition maxRetryDuration :: Duration where "maxRetryDuration = 2 * Minute"
definition maxConnectionLifetime :: Duration where "maxConnectionLifetime = 15 * Second"

section \<open>URLs\<close>

record url =
  url_path :: "string list"
  url_query :: "(string \<times> string) list"

definition JoinPath :: "url \<Rightarrow> string list \<Rightarrow> url" where
  "JoinPath base elems = base\<lparr>url_path := url_path base @ elems\<rparr>"

text \<open>\<open>url.PathEscape\<close> and \<open>url.QueryEscape\<close>.\<close>

definition alphanumeric :: "char \<Rightarrow> bool" where
  "alphanumeric c = (let n = (of_char c :: nat) in 48 \<le> n \<and> n \<le> 57 \<or> 65 \<le> n \<and> n \<le> 90 \<or> 97 \<le> n \<and> n \<le> 122)"

definition shouldEscape :: "bool \<Rightarrow> char \<Rightarrow> bool" where
  "shouldEscape inQuery c =
     (if alphanumeric c \<or> c \<in> set ''-_.~'' then False
      else if c \<in> set ''$&+:=@'' then inQuery
      else True)"

definition hex_digit :: "nat \<Rightarrow> char" where
  "hex_digit n = ''0123456789ABCDEF'' ! n"

definition escape_char :: "bool \<Rightarrow> char \<Rightarrow> string" where
  "escape_char inQuery c =
     (if c = CHR '' '' \<and> inQuery then ''+''
      else if shouldEscape inQuery c then [CHR ''%'', hex_digit (of_char c div 16), hex_digit (of_char c mod 16)]
      else [c])"

definition PathEscape :: "string \<Rightarrow> string" where "PathEscape s = concat (map (escape_char False) s)"
definition QueryEscape :: "string \<Rightarrow> string" where "QueryEscape s = concat (map (escape_char True) s)"

section \<open>Requests\<close>

text \<open>\<open>cr_Body\<close> is what \<open>io.ReadAll\<close> on the body gives.\<close>

record CouchResponse =
  cr_StatusCode :: int
  cr_Body :: "bytes result"

text \<open>An HTTP client is known by its number.\<close>

record 'w CouchOps =
  co_Now :: "'w \<Rightarrow> Time \<times> 'w"
  co_Sleep :: "Duration \<Rightarrow> 'w \<Rightarrow> 'w"
  co_ctxErr :: "'w \<Rightarrow> go_error option \<times> 'w"
  co_ClientFactory :: "'w \<Rightarrow> nat \<times> 'w"
  co_NewRequest :: "string \<Rightarrow> url \<Rightarrow> go_error option"
  co_Do :: "nat \<Rightarrow> string \<Rightarrow> url \<Rightarrow> bytes option \<Rightarrow> 'w \<Rightarrow> CouchResponse result \<times> 'w"
  co_UnmarshalFunction :: "bytes \<Rightarrow> Function result"
  co_UnmarshalRows :: "bytes \<Rightarrow> string list result"
  co_MarshalDocs :: "bytes list \<Rightarrow> bytes result"

record Client =
  cl_Base :: url
  cl_client :: "nat option"
  cl_createdAt :: Time

text \<open>
  \<open>getClient\<close>: the client in use, or a new one once it has reached its lifetime. The check is made
  without the lock and once more with it.
\<close>

definition client_fresh :: "Client \<Rightarrow> Time \<Rightarrow> bool" where
  "client_fresh c now = (cl_client c \<noteq> None \<and> now - cl_createdAt c < maxConnectionLifetime)"

definition getClient :: "'w CouchOps \<Rightarrow> Client \<times> 'w \<Rightarrow> nat \<times> Client \<times> 'w" where
  "getClient ops s =
     (case s of (c, w) \<Rightarrow>
       let (now, w1) = co_Now ops w in
       if client_fresh c now then (the (cl_client c), c, w1)
       else
         (let (now', w2) = co_Now ops w1 in
          if client_fresh c now' then (the (cl_client c), c, w2)
          else (let (client, w3) = co_ClientFactory ops w2; (created, w4) = co_Now ops w3
                in (client, c\<lparr>cl_client := Some client, cl_createdAt := created\<rparr>, w4))))"

definition singleRequest ::
  "'w CouchOps \<Rightarrow> string \<Rightarrow> url \<Rightarrow> bytes option \<Rightarrow> Client \<times> 'w \<Rightarrow> CouchResponse result \<times> Client \<times> 'w" where
  "singleRequest ops httpMethod u content s =
     (case co_NewRequest ops httpMethod u of
        Some err \<Rightarrow> (Inl (Errorf ''failed to create request: %w'' [err]), s)
      | None \<Rightarrow>
          (let (client, c, w) = getClient ops s; (r, w1) = co_Do ops client httpMethod u content w in
           (case r of
              Inl err \<Rightarrow> Inl (Errorf ''failed to execute request: %w'' [err])
            | Inr resp \<Rightarrow> Inr resp, c, w1)))"

text \<open>
  The loop of \<open>request\<close>. It has no bound of its own besides the context; with the fuel used up
  the result is \<open>None\<close>. A nil \<open>lastErr\<close> wraps nothing.
\<close>

fun retry_request ::
  "nat \<Rightarrow> 'w CouchOps \<Rightarrow> string \<Rightarrow> url \<Rightarrow> bytes option \<Rightarrow> Duration \<Rightarrow> go_error option \<Rightarrow> Client \<times> 'w
   \<Rightarrow> (CouchResponse result \<times> Client \<times> 'w) option" where
  "retry_request 0 ops httpMethod u content retryInterval lastErr s = None"
| "retry_request (Suc fuel) ops httpMethod u content retryInterval lastErr s =
     (let (ctxErr, w) = co_ctxErr ops (snd s) in
      if ctxErr \<noteq> None then
        Some (Inl (Errorf ''failed to successfully reach database after %d retries: %w''
                (case lastErr of None \<Rightarrow> [] | Some e \<Rightarrow> [e])), fst s, w)
      else
        (let (r, c1, w1) = singleRequest ops httpMethod u content (fst s, w) in
         case r of
           Inr resp \<Rightarrow> Some (Inr resp, c1, w1)
         | Inl err \<Rightarrow>
             (if errors_Is err DeadlineExceeded then
                retry_request fuel ops httpMethod u content retryInterval lastErr (c1, w1)
              else
                (let doubled = retryInterval * retryIntervalFactor;
                     next = (if doubled > maxRetryInterval then maxRetryInterval else doubled)
                 in retry_request fuel ops httpMethod u content next (Some err) (c1, co_Sleep ops next w1)))))"

definition couch_request ::
  "nat \<Rightarrow> 'w CouchOps \<Rightarrow> string \<Rightarrow> url \<Rightarrow> string \<Rightarrow> bytes option \<Rightarrow> Client \<times> 'w
   \<Rightarrow> (CouchResponse result \<times> Client \<times> 'w) option" where
  "couch_request fuel ops httpMethod u rv content s =
     (let u' = (if rv \<noteq> '''' then u\<lparr>url_query := url_query u @ [(''rev'', rv)]\<rparr> else u)
      in retry_request fuel ops httpMethod u' content baseRetryInterval None s)"

definition get_result :: "CouchResponse result \<Rightarrow> bytes result" where
  "get_result r =
     (case r of
        Inl err \<Rightarrow> Inl (Errorf ''failed to execute get request: %w'' [err])
      | Inr resp \<Rightarrow>
          (case cr_Body resp of
             Inl err \<Rightarrow> Inl (Errorf ''failed to read body from fetched document(s): %w'' [err])
           | Inr body \<Rightarrow>
               (if cr_StatusCode resp = 404 then Inl ErrDocumentNotFound
                else if cr_StatusCode resp \<noteq> 200 then
                  Inl (ErrorString (''unexpected status code for fetching document(s): '' @ fmt_i (cr_StatusCode resp) @ '', body '' @ go_quote body))
                else Inr body)))"

definition getRequest :: "nat \<Rightarrow> 'w CouchOps \<Rightarrow> url \<Rightarrow> string \<Rightarrow> Client \<times> 'w \<Rightarrow> (bytes result \<times> Client \<times> 'w) option" where
  "getRequest fuel ops u rv s =
     (case couch_request fuel ops ''GET'' u rv None s of
        None \<Rightarrow> None
      | Some (r, s') \<Rightarrow> Some (get_result r, s'))"

section \<open>Functions\<close>

text \<open>A missing document becomes the generic error; the wrapping is the same otherwise.\<close>

definition fetch_error :: "string \<Rightarrow> go_error \<Rightarrow> go_error" where
  "fetch_error msg err = Errorf msg [if errors_Is err ErrDocumentNotFound then ErrFunctionNotFound else err]"

definition resolve_attachment :: "Function \<Rightarrow> bytes \<Rightarrow> Function" where
  "resolve_attachment fn bs =
     (let code = exec_Code (fn_Exec fn);
          resolved = (if \<not> fc_IsBinary code then bs else EncodeToString StdEncoding bs)
      in fn\<lparr>fn_Exec := (fn_Exec fn)\<lparr>exec_Code := code\<lparr>fc_Resolved := resolved\<rparr>\<rparr>\<rparr>)"

definition GetFunction ::
  "nat \<Rightarrow> 'w CouchOps \<Rightarrow> string \<Rightarrow> string \<Rightarrow> Client \<times> 'w \<Rightarrow> (Function result \<times> Client \<times> 'w) option" where
  "GetFunction fuel ops fqdn rv s =
     (case getRequest fuel ops (JoinPath (cl_Base (fst s)) [functionsDB, PathEscape fqdn]) rv s of
        None \<Rightarrow> None
      | Some (Inl err, s1) \<Rightarrow> Some (Inl (fetch_error ''failed to fetch function: %w'' err), s1)
      | Some (Inr bs, s1) \<Rightarrow>
          (case co_UnmarshalFunction ops bs of
             Inl err \<Rightarrow> Some (Inl (Errorf ''failed to parse function: %w'' [err]), s1)
           | Inr fn \<Rightarrow>
               (if fc_AttachmentID (exec_Code (fn_Exec fn)) = '''' then Some (Inr fn, s1)
                else
                  (case getRequest fuel ops (JoinPath (cl_Base (fst s1))
                      [functionsDB, QueryEscape fqdn, fc_AttachmentID (exec_Code (fn_Exec fn))]) rv s1 of
                     None \<Rightarrow> None
                   | Some (Inl err, s2) \<Rightarrow> Some (Inl (fetch_error ''failed to fetch attachment: %w'' err), s2)
                   | Some (Inr attachment, s2) \<Rightarrow> Some (Inr (resolve_attachment fn attachment), s2)))))"

section \<open>Documents and blocked namespaces\<close>

text \<open>The body of a response that was accepted is discarded; an error there counts as a failure.\<close>

definition write_result :: "CouchResponse result \<Rightarrow> go_error option" where
  "write_result r =
     (case r of
        Inl err \<Rightarrow> Some (Errorf ''failed to execute bulk activation request: %w'' [err])
      | Inr resp \<Rightarrow>
          (if cr_StatusCode resp \<noteq> 201 \<and> cr_StatusCode resp \<noteq> 202 then
             (case cr_Body resp of
                Inl err \<Rightarrow> Some (Errorf ''failed to read body from bulk activation request: %w'' [err])
              | Inr body \<Rightarrow> Some (ErrorString (''unexpected status code for bulk activation: '' @ fmt_i (cr_StatusCode resp)
                                  @ '', body '' @ go_quote body)))
           else
             (case cr_Body resp of
                Inl err \<Rightarrow> Some (Errorf ''failed to read body from bulk activation: %w'' [err])
              | Inr _ \<Rightarrow> None)))"

definition WriteDocuments ::
  "nat \<Rightarrow> 'w CouchOps \<Rightarrow> string \<Rightarrow> bytes list \<Rightarrow> Client \<times> 'w \<Rightarrow> (go_error option \<times> Client \<times> 'w) option" where
  "WriteDocuments fuel ops db docs s =
     (case co_MarshalDocs ops docs of
        Inl err \<Rightarrow> Some (Some (Errorf ''failed to marshal bulk request: %w'' [err]), s)
      | Inr bs \<Rightarrow>
          (case couch_request fuel ops ''POST'' (JoinPath (cl_Base (fst s)) [db, ''_bulk_docs'']) '''' (Some bs) s of
             None \<Rightarrow> None
           | Some (r, s') \<Rightarrow> Some (write_result r, s')))"

text \<open>A nil map reads as the empty set.\<close>

definition GetBlockedNamespaces ::
  "nat \<Rightarrow> 'w CouchOps \<Rightarrow> Client \<times> 'w \<Rightarrow> (string set result \<times> Client \<times> 'w) option" where
  "GetBlockedNamespaces fuel ops s =
     (let u = JoinPath (cl_Base (fst s)) [''subjects'', ''_design'', ''namespaceThrottlings'', ''_view'', ''blockedNamespaces''];
          u' = u\<lparr>url_query := url_query u @ [(''reduce'', ''false'')]\<rparr>
      in case getRequest fuel ops u' '''' s of
           None \<Rightarrow> None
         | Some (Inl err, s') \<Rightarrow> Some (Inl (Errorf ''failed to execute request to get blocked namespaces: %w'' [err]), s')
         | Some (Inr resp, s') \<Rightarrow>
             (case co_UnmarshalRows ops resp of
                Inl err \<Rightarrow> Some (Inl (Errorf ''failed to parse blocked namespaces request: %w'' [err]), s')
              | Inr rows \<Rightarrow> Some (Inr (set rows), s')))"

end
