(* ===== verification/Couchdb_Properties.thy ===== *)
theory Couchdb_Properties
  imports Couchdb
begin

text \<open>
  Properties of the database client: how long it waits between its attempts, that it gives up
  once the context has expired, and what it returns for a function.
\<close>

section \<open>Backing off\<close>

text \<open>
  A database that fails with the errors of a script and then answers. The world is the script
  and the list of intervals that were slept.
\<close>

definition failing_db :: "CouchResponse \<Rightarrow> (go_error list \<times> Duration list) CouchOps" where
  "failing_db resp =
     \<lparr>co_Now = \<lambda>w. (0, w), co_Sleep = \<lambda>d w. (fst w, snd w @ [d]), co_ctxErr = \<lambda>w. (None, w),
      co_ClientFactory = \<lambda>w. (0, w), co_NewRequest = \<lambda>m u. None,
      co_Do = \<lambda>client m u content w. (case fst w of [] \<Rightarrow> (Inr resp, w) | e # es \<Rightarrow> (Inl e, es, snd w)),
      co_UnmarshalFunction = \<lambda>bs. Inl (ErrorString ''unexpected end of JSON input''),
      co_UnmarshalRows = \<lambda>bs. Inr [], co_MarshalDocs = \<lambda>docs. Inr ''{}''\<rparr>"

definition backoff :: "nat \<Rightarrow> Duration" where
  "backoff k = min (100 * 2 ^ k * Millisecond) (5 * Second)"

lemma singleRequest_failing_db:
  "\<exists>c'. singleRequest (failing_db resp) m u content (c, es, sl) =
     (case es of [] \<Rightarrow> Inr resp | e # _ \<Rightarrow> Inl (Errorf ''failed to execute request: %w'' [e]), c', tl es, sl)"
  by (cases es) (auto simp: singleRequest_def failing_db_def getClient_def Let_def split: if_splits)

lemma next_interval:
  "iv = min (50 * 2 ^ k * Millisecond) (5 * Second) \<Longrightarrow>
   (if iv * retryIntervalFactor > maxRetryInterval then maxRetryInterval else iv * retryIntervalFactor) = backoff k"
  by (auto simp: backoff_def retryIntervalFactor_def maxRetryInterval_def duration_defs min_def)

lemma retry_request_failing_db:
  assumes "\<forall>e \<in> set es. \<not> errors_Is e DeadlineExceeded" and "length es < fuel"
    and "iv = min (50 * 2 ^ k * Millisecond) (5 * Second)"
  shows "\<exists>c'. retry_request fuel (failing_db resp) m u content iv lastErr (c, es, sl) =
    Some (Inr resp, c', [], sl @ map backoff [k..<k + length es])"
  using assms
proof (induction es arbitrary: fuel iv k lastErr c sl)
  case Nil
  then obtain f where "fuel = Suc f" by (cases fuel) auto
  moreover obtain c' where "singleRequest (failing_db resp) m u content (c, [], sl) = (Inr resp, c', [], sl)"
    using singleRequest_failing_db [of resp m u content c "[]" sl] by auto
  ultimately show ?case by (simp add: failing_db_def)
next
  case (Cons e es)
  then obtain f where f: "fuel = Suc f" "length es < f" by (cases fuel) auto
  let ?err = "Errorf ''failed to execute request: %w'' [e]"
  obtain c1 where sr: "singleRequest (failing_db resp) m u content (c, e # es, sl) = (Inl ?err, c1, es, sl)"
    using singleRequest_failing_db [of resp m u content c "e # es" sl] by auto
  have nd: "\<not> errors_Is ?err DeadlineExceeded" using Cons.prems(1) by (simp add: errors_Is_def)
  have b: "backoff k = min (50 * 2 ^ Suc k * Millisecond) (5 * Second)" by (simp add: backoff_def)
  have "\<forall>e \<in> set es. \<not> errors_Is e DeadlineExceeded" using Cons.prems(1) by simp
  from Cons.IH [OF this f(2) b, of "Some ?err" c1 "sl @ [backoff k]"]
  obtain c' where "retry_request f (failing_db resp) m u content (backoff k) (Some ?err) (c1, es, sl @ [backoff k]) =
      Some (Inr resp, c', [], (sl @ [backoff k]) @ map backoff [Suc k..<Suc k + length es])" by blast
  moreover have "[k..<k + length (e # es)] = k # [Suc k..<Suc k + length es]" by (subst upt_conv_Cons) simp_all
  moreover have "co_ctxErr (failing_db resp) (e # es, sl) = (None, e # es, sl)"
    "co_Sleep (failing_db resp) (backoff k) (es, sl) = (es, sl @ [backoff k])" by (simp_all add: failing_db_def)
  ultimately show ?case
    using sr nd by (simp only: f(1) retry_request.simps Let_def split_beta fst_conv snd_conv sum.simps next_interval [OF Cons.prems(3)]) simp
qed

lemma failing_db_answers:
  assumes "\<forall>e \<in> set es. \<not> errors_Is e DeadlineExceeded" and "length es < fuel"
  shows "\<exists>c'. couch_request fuel (failing_db resp) m u rv content (c, es, []) = Some (Inr resp, c', [], map backoff [0..<length es])"
proof -
  have base: "baseRetryInterval = min (50 * 2 ^ 0 * Millisecond) (5 * Second)"
    by (simp add: baseRetryInterval_def duration_defs)
  have "\<exists>c'. retry_request fuel (failing_db resp) m v content baseRetryInterval None (c, es, []) =
      Some (Inr resp, c', [], map backoff [0..<length es])" for v
    using retry_request_failing_db [OF assms base, of resp m v content None c "[]"] by simp
  then show ?thesis by (simp only: couch_request_def Let_def)
qed

text \<open>
  C33. The client backs off exponentially. When the database fails a number of times, other than by
  the deadline, and then answers, the client returns that answer and has slept 100, 200, 400, ...
  milliseconds between its attempts, never more than 5 seconds. The first interval is 100
  milliseconds, not the base interval of 50, because it is doubled before the first sleep.
\<close>

theorem request_backs_off:
  assumes "\<forall>e \<in> set es. \<not> errors_Is e DeadlineExceeded" and "length es < fuel"
  shows "\<exists>c'. couch_request fuel (failing_db resp) m u rv content (c, es, []) =
    Some (Inr resp, c', [], map (\<lambda>k. min (100 * 2 ^ k * Millisecond) (5 * Second)) [0..<length es])"
  using failing_db_answers [OF assms] unfolding backoff_def .

section \<open>Giving up\<close>

text \<open>
  C34. A request returns. \<open>left\<close> measures the time until the deadline: it never grows, and an attempt
  that fails before the deadline uses some of it up. The loop then ends within that many
  rounds, with a response or with an error that wraps the last failure.
\<close>

theorem couch_request_returns:
  assumes "\<And>w e w'. co_ctxErr ops w = (e, w') \<Longrightarrow> left w' \<le> left w"
    and "\<And>d w. left (co_Sleep ops d w) \<le> left w"
    and "\<And>w w0 u c err c' w'. co_ctxErr ops w0 = (None, w) \<Longrightarrow> singleRequest ops m u content (c, w) = (Inl err, c', w') \<Longrightarrow> left w' < left w"
    and "left w < fuel"
  shows "\<exists>r s'. couch_request fuel ops m u rv content (c, w) = Some (r, s')"
proof -
  have "\<exists>r s'. retry_request fuel ops m v content iv lastErr (c, w) = Some (r, s')"
    if "left w < fuel" for fuel v iv lastErr c w
    using that
  proof (induction fuel arbitrary: iv lastErr c w)
    case (Suc fuel)
    obtain e w1 where ctx: "co_ctxErr ops w = (e, w1)" by force
    obtain r c2 w2 where sr: "singleRequest ops m v content (c, w1) = (r, c2, w2)" by (metis prod_cases3)
    show ?case
    proof (cases "e = None \<and> (\<exists>err. r = Inl err)")
      case True
      then obtain err where err: "r = Inl err" by blast
      have "left w2 < left w1" using assms(3) ctx sr True by blast
      then have small: "left w2 < fuel" using assms(1) [OF ctx] Suc.prems by simp
      then have "left (co_Sleep ops d w2) < fuel" for d using assms(2) [of d w2] by simp
      with small Suc.IH ctx sr True err show ?thesis by (simp add: Let_def)
    next
      case False
      with ctx sr show ?thesis by (cases r) auto
    qed
  qed simp
  with assms(4) show ?thesis by (simp add: couch_request_def Let_def)
qed

section \<open>Functions\<close>

abbreviation document_url :: "Client \<times> 'w \<Rightarrow> string \<Rightarrow> url" where
  "document_url s fqdn \<equiv> JoinPath (cl_Base (fst s)) [functionsDB, PathEscape fqdn]"

abbreviation attachment_url :: "Client \<times> 'w \<Rightarrow> string \<Rightarrow> Function \<Rightarrow> url" where
  "attachment_url s fqdn doc \<equiv> JoinPath (cl_Base (fst s)) [functionsDB, QueryEscape fqdn, fc_AttachmentID (exec_Code (fn_Exec doc))]"

text \<open>A function \<open>fn\<close> is the document \<open>doc\<close> with nothing replaced but its code, by an attachment.\<close>

definition attachment_resolved :: "Function \<Rightarrow> bytes \<Rightarrow> Function \<Rightarrow> bool" where
  "attachment_resolved doc attachment fn =
     (\<exists>code. fn = doc\<lparr>fn_Exec := (fn_Exec doc)\<lparr>exec_Code := (exec_Code (fn_Exec doc))\<lparr>fc_Resolved := code\<rparr>\<rparr>\<rparr> \<and>
        (if fc_IsBinary (exec_Code (fn_Exec doc)) then DecodeString StdEncoding code = Inr attachment else code = attachment))"

lemma resolve_attachment_resolved: "attachment_resolved doc att (resolve_attachment doc att)"
  by (auto simp: attachment_resolved_def resolve_attachment_def Let_def std.DecodeString_EncodeToString)

text \<open>What the database answered: the body of a response with status 200.\<close>

definition database_gives :: "nat \<Rightarrow> 'w CouchOps \<Rightarrow> url \<Rightarrow> string \<Rightarrow> Client \<times> 'w \<Rightarrow> bytes \<Rightarrow> Client \<times> 'w \<Rightarrow> bool" where
  "database_gives fuel ops u rv s bs s1 =
     (\<exists>resp. couch_request fuel ops ''GET'' u rv None s = Some (Inr resp, s1) \<and> cr_StatusCode resp = 200 \<and> cr_Body resp = Inr bs)"

lemma getRequest_gives: "getRequest fuel ops u rv s = Some (Inr bs, s1) \<longleftrightarrow> database_gives fuel ops u rv s bs s1"
  by (auto simp: getRequest_def get_result_def database_gives_def split: option.splits sum.splits if_splits)

lemma getRequest_missing:
  "couch_request fuel ops ''GET'' u rv None s = Some (Inr resp, s1) \<Longrightarrow> cr_StatusCode resp = 404 \<Longrightarrow> cr_Body resp = Inr body
   \<Longrightarrow> getRequest fuel ops u rv s = Some (Inl ErrDocumentNotFound, s1)"
  by (simp add: getRequest_def get_result_def)

text \<open>How an error of the two requests shows in the error of \<open>GetFunction\<close>: only a missing document becomes the generic error.\<close>

definition reported :: "go_error \<Rightarrow> go_error \<Rightarrow> bool" where
  "reported e err =
     ((errors_Is err ErrFunctionNotFound \<longleftrightarrow> errors_Is e ErrDocumentNotFound \<or> errors_Is e ErrFunctionNotFound) \<and>
      (errors_Is e ErrDocumentNotFound \<or> errors_Is err e))"

lemma fetch_error_reported: "reported e (fetch_error msg e)"
  by (auto simp: reported_def fetch_error_def errors_Is_def)

lemma GetFunction_cases:
  assumes "GetFunction fuel ops fqdn rv s = Some (Inr fn, s')"
  obtains bs s1 doc where "getRequest fuel ops (document_url s fqdn) rv s = Some (Inr bs, s1)"
      and "co_UnmarshalFunction ops bs = Inr doc" and "fc_AttachmentID (exec_Code (fn_Exec doc)) = ''''" and "fn = doc" and "s' = s1"
  | bs s1 doc att where "getRequest fuel ops (document_url s fqdn) rv s = Some (Inr bs, s1)"
      and "co_UnmarshalFunction ops bs = Inr doc" and "fc_AttachmentID (exec_Code (fn_Exec doc)) \<noteq> ''''"
      and "getRequest fuel ops (attachment_url s1 fqdn doc) rv s1 = Some (Inr att, s')" and "fn = resolve_attachment doc att"
  using assms by (auto simp: GetFunction_def split: option.splits sum.splits if_splits)


section \<open>Witnesses\<close>

definition example_client :: Client where
  "example_client = \<lparr>cl_Base = \<lparr>url_path = [], url_query = []\<rparr>, cl_client = None, cl_createdAt = 0\<rparr>"

definition example_response :: CouchResponse where
  "example_response = \<lparr>cr_StatusCode = 404, cr_Body = Inr ''{}''\<rparr>"

theorem request_backs_off_witness:
  "\<exists>c'. couch_request 4 (failing_db example_response) ''GET'' \<lparr>url_path = [], url_query = []\<rparr> ''1'' None
     (example_client, [Canceled, Canceled, Canceled], []) =
     Some (Inr example_response, c', [], [100 * Millisecond, 200 * Millisecond, 400 * Millisecond])"
  using request_backs_off [of "[Canceled, Canceled, Canceled]" 4 example_response "''GET''" "\<lparr>url_path = [], url_query = []\<rparr>" "''1''" None example_client]
  by (simp add: errors_Is_def duration_defs upt_rec numeral_eq_Suc)

text \<open>A database that is never reached; the world counts the time until the deadline.\<close>

definition dead_db :: "nat CouchOps" where
  "dead_db = \<lparr>co_Now = \<lambda>w. (0, w), co_Sleep = \<lambda>d w. w - 1, co_ctxErr = \<lambda>w. (if w = 0 then Some DeadlineExceeded else None, w),
     co_ClientFactory = \<lambda>w. (0, w), co_NewRequest = \<lambda>m u. None, co_Do = \<lambda>client m u content w. (Inl Canceled, w - 1),
     co_UnmarshalFunction = \<lambda>bs. Inl Canceled, co_UnmarshalRows = \<lambda>bs. Inr [], co_MarshalDocs = \<lambda>docs. Inr ''{}''\<rparr>"

theorem couch_request_returns_witness:
  "\<exists>r s'. couch_request 9 dead_db ''GET'' \<lparr>url_path = [], url_query = []\<rparr> '''' None (example_client, 8) = Some (r, s')"
proof (rule couch_request_returns [where left = id])
  fix w w0 u c err c' w'
  assume "co_ctxErr dead_db w0 = (None, w)" and "singleRequest dead_db ''GET'' u None (c, w) = (Inl err, c', w')"
  then show "id w' < id w"
    by (auto simp: dead_db_def singleRequest_def getClient_def Let_def split: if_splits)
qed (auto simp: dead_db_def split: if_splits)


end
