(* ===== verification/Firewall.thy ===== *)
theory Firewall
  imports Go_Errors
begin

text \<open>
  \<open>pkg/firewall\<close>: the reconciliation of the iptables state (\<open>firewall.go\<close>), the filter of the
  Kubernetes events that trigger it (\<open>events.go\<close>) and the execution of iptables in a container
  (\<open>docker_exec.go\<close>).

  The Kubernetes objects keep the fields that the code reads. The listers, the docker client and
  \<open>stdcopy\<close> are parameters.
\<close>

section \<open>Data\<close>

definition firewallChain :: string where "firewallChain = '':WHISK-FIREWALL - [0:0]''"
definition perContainerChain :: string where "perContainerChain = '':PER-CONTAINER-FIREWALL - [0:0]''"
definition perContainerForwardRule :: string where "perContainerForwardRule = ''-A FORWARD -j PER-CONTAINER-FIREWALL''"
definition firewallForwardRule :: string where "firewallForwardRule = ''-A FORWARD -j WHISK-FIREWALL''"
definition firewallInputRule :: string where "firewallInputRule = ''-A INPUT -j WHISK-FIREWALL''"

record NamespacedName =
  nn_Namespace :: string
  nn_Name :: string

definition coreDNSService :: NamespacedName where
  "coreDNSService = \<lparr>nn_Namespace = ''serverless-coredns'', nn_Name = ''serverless-coredns''\<rparr>"

definition kubeAPIService :: NamespacedName where
  "kubeAPIService = \<lparr>nn_Namespace = ''default'', nn_Name = ''kubernetes''\<rparr>"

record NodeAddress =
  na_Type :: string
  na_Address :: string

record Node =
  node_Name :: string
  node_Addresses :: "NodeAddress list"

record Service =
  svc_Name :: NamespacedName
  svc_ClusterIP :: string

text \<open>The subsets of an \<open>Endpoints\<close> object are the lists of their addresses' IPs.\<close>

record Endpoints =
  eps_Name :: NamespacedName
  eps_Subsets :: "string list list"

record Reconciler =
  rc_ContainerSubnet :: string
  rc_ContainerBridge :: string

definition NodeExternalIP :: string where "NodeExternalIP = ''ExternalIP''"

section \<open>Reading the current state\<close>

text \<open>
  \<open>bufio.Scanner\<close> with its default buffer: the lines without their line ends; a line that does not
  fit the buffer of 64 KiB ends the scan without a trace, as the code does not ask for the error.
\<close>

definition maxLine :: nat where "maxLine = 65535"

definition drop_cr :: "string \<Rightarrow> string" where
  "drop_cr s = (if s \<noteq> [] \<and> last s = CHR 0x0D then butlast s else s)"

fun scan_lines :: "string \<Rightarrow> bytes \<Rightarrow> string list" where
  "scan_lines acc [] = (if acc = [] \<or> maxLine < length acc then [] else [drop_cr acc])"
| "scan_lines acc (c # cs) =
     (if c = CHR 0x0A then (if maxLine < length acc then [] else drop_cr acc # scan_lines [] cs)
      else scan_lines (acc @ [c]) cs)"

text \<open>\<open>strings.SplitN(line, " ", 3)\<close>.\<close>

fun split_space :: "nat \<Rightarrow> string \<Rightarrow> string \<Rightarrow> string list" where
  "split_space n acc [] = [acc]"
| "split_space n acc (c # cs) =
     (if c = CHR '' '' \<and> 1 < n then acc # split_space (n - 1) [] cs else split_space n (acc @ [c]) cs)"

definition SplitN :: "string \<Rightarrow> nat \<Rightarrow> string list" where
  "SplitN s n = split_space n [] s"

record ScanState =
  ss_rules :: "string list"
  ss_currentChain :: string
  ss_ruleIndexInChain :: nat
  ss_containsPerContainerChain :: bool
  ss_containsFirewallChain :: bool
  ss_warnings :: "string list"

text \<open>The check of the positions of our rules only writes warnings.\<close>

definition position_warning :: "string \<Rightarrow> nat \<Rightarrow> string \<Rightarrow> string list" where
  "position_warning chain i line =
     (if chain = ''FORWARD'' then
        (if i = 0 \<and> \<not> HasPrefix line perContainerForwardRule then
           [''PER-CONTAINER-FIREWALL is not the first rule in the FORWARD chain'']
         else if i = 1 \<and> \<not> HasPrefix line firewallForwardRule then
           [''WHISK-FIREWALL is not the second rule in the FORWARD chain'']
         else [])
      else if chain = ''INPUT'' then
        (if i = 0 \<and> \<not> HasPrefix line firewallInputRule then
           [''WHISK-FIREWALL is not the first rule in the INPUT chain'']
         else [])
      else [])"

definition check_position :: "string \<Rightarrow> ScanState \<Rightarrow> ScanState" where
  "check_position line s =
     (let ruleParts = SplitN line 3 in
      if length ruleParts > 1 then
        (let chain = ruleParts ! 1;
             i = (if ss_currentChain s \<noteq> chain then 0 else Suc (ss_ruleIndexInChain s))
         in s\<lparr>ss_currentChain := chain, ss_ruleIndexInChain := i, ss_warnings := ss_warnings s @ position_warning chain i line\<rparr>)
      else s\<lparr>ss_warnings := ss_warnings s @ [''Unexpected malformed rule'']\<rparr>)"

definition own_rule :: "string \<Rightarrow> bool" where
  "own_rule line =
     (HasPrefix line ''-A WHISK-FIREWALL'' \<or> HasPrefix line firewallForwardRule \<or>
      HasPrefix line perContainerForwardRule \<or> HasPrefix line firewallInputRule)"

definition scan_line :: "string \<Rightarrow> ScanState \<Rightarrow> ScanState" where
  "scan_line line s =
     (if \<not> HasPrefix line ''*'' \<and> \<not> HasPrefix line '':'' \<and> \<not> HasPrefix line ''-'' then s
      else if line = firewallChain then
        s\<lparr>ss_containsFirewallChain := True, ss_rules := ss_rules s @ [line]\<rparr>
      else if line = perContainerChain then
        s\<lparr>ss_containsPerContainerChain := True, ss_rules := ss_rules s @ [line]\<rparr>
      else if HasPrefix line ''-A'' then
        (let s1 = check_position line s in
         if own_rule line then s1 else s1\<lparr>ss_rules := ss_rules s1 @ [line]\<rparr>)
      else s\<lparr>ss_rules := ss_rules s @ [line]\<rparr>)"

section \<open>The desired state\<close>

definition serviceRule :: "Reconciler \<Rightarrow> string \<Rightarrow> string \<Rightarrow> string \<Rightarrow> string" where
  "serviceRule r destination action comment =
     ''-A WHISK-FIREWALL -i '' @ rc_ContainerBridge r @ '' ! -o '' @ rc_ContainerBridge r @ '' -d '' @ destination
     @ '' -j '' @ action @ '' -m comment --comment \"'' @ comment @ ''\"''"

definition node_rules :: "Reconciler \<Rightarrow> Node \<Rightarrow> string list" where
  "node_rules r node =
     map (\<lambda>address. serviceRule r (na_Address address) ''REJECT'' (''node: '' @ node_Name node))
       (filter (\<lambda>address. na_Type address = NodeExternalIP) (node_Addresses node))"

definition endpoint_rules :: "Reconciler \<Rightarrow> string \<Rightarrow> string \<Rightarrow> Endpoints \<Rightarrow> string list" where
  "endpoint_rules r action comment eps =
     concat (map (map (\<lambda>ip. serviceRule r ip action comment)) (eps_Subsets eps))"

definition linkLocalRule :: "Reconciler \<Rightarrow> string" where
  "linkLocalRule r =
     ''-A WHISK-FIREWALL -i '' @ rc_ContainerBridge r @ '' ! -o '' @ rc_ContainerBridge r @ '' -s '' @ rc_ContainerSubnet r
     @ '' -d 169.254.0.0/16 -j REJECT -m comment --comment \"link local subnet\"''"

definition whisk_rules :: "Reconciler \<Rightarrow> Node list \<Rightarrow> Endpoints \<Rightarrow> Service \<Rightarrow> Endpoints \<Rightarrow> string list" where
  "whisk_rules r nodes kubeAPIEndpoints dnsService dnsEndpoints =
     [''-A WHISK-FIREWALL -m conntrack --ctstate ESTABLISHED -j ACCEPT'']
     @ concat (map (node_rules r) nodes)
     @ endpoint_rules r ''REJECT'' ''kube api service'' kubeAPIEndpoints
     @ [serviceRule r (svc_ClusterIP dnsService) ''ACCEPT'' ''CoreDNS service'']
     @ endpoint_rules r ''ACCEPT'' ''CoreDNS pod'' dnsEndpoints
     @ [serviceRule r ''10.0.0.0/8'' ''REJECT'' ''cluster services'',
        serviceRule r (rc_ContainerSubnet r) ''REJECT'' ''bridge gateway'',
        linkLocalRule r,
        ''-A WHISK-FIREWALL -j RETURN'']"

definition scan :: "bytes \<Rightarrow> ScanState" where
  "scan current =
     fold scan_line (scan_lines [] current)
       \<lparr>ss_rules = [], ss_currentChain = '''', ss_ruleIndexInChain = 0, ss_containsPerContainerChain = False,
        ss_containsFirewallChain = False, ss_warnings = []\<rparr>"

definition reconciled_rules ::
  "Reconciler \<Rightarrow> bytes \<Rightarrow> Node list \<Rightarrow> Endpoints \<Rightarrow> Service \<Rightarrow> Endpoints \<Rightarrow> string list" where
  "reconciled_rules r current nodes kubeAPIEndpoints dnsService dnsEndpoints =
     (let s = scan current in
      ss_rules s
      @ (if \<not> ss_containsFirewallChain s then ['':WHISK-FIREWALL - [0:0]''] else [])
      @ (if \<not> ss_containsPerContainerChain s then ['':PER-CONTAINER-FIREWALL - [0:0]''] else [])
      @ [''-I FORWARD -j WHISK-FIREWALL'', ''-I FORWARD -j PER-CONTAINER-FIREWALL'', ''-I INPUT -j WHISK-FIREWALL'']
      @ whisk_rules r nodes kubeAPIEndpoints dnsService dnsEndpoints
      @ [''COMMIT''])"

text \<open>\<open>strings.Join(rules, "\n") + "\n"\<close>, for a list that is not empty.\<close>

definition terminated_lines :: "string list \<Rightarrow> bytes" where
  "terminated_lines rules = concat (map (\<lambda>rule. rule @ [CHR 0x0A]) rules)"

definition reconcile ::
  "Reconciler \<Rightarrow> bytes \<Rightarrow> Node list \<Rightarrow> Endpoints \<Rightarrow> Service \<Rightarrow> Endpoints \<Rightarrow> bytes" where
  "reconcile r current nodes kubeAPIEndpoints dnsService dnsEndpoints =
     terminated_lines (reconciled_rules r current nodes kubeAPIEndpoints dnsService dnsEndpoints)"

section \<open>Reconcile\<close>

record 'w IPTables =
  it_GetState :: "'w \<Rightarrow> bytes result \<times> 'w"
  it_WriteState :: "bytes \<Rightarrow> 'w \<Rightarrow> go_error option \<times> 'w"
  it_Exec :: "string list \<Rightarrow> 'w \<Rightarrow> go_error option \<times> 'w"

record Listers =
  ls_Nodes :: "Node list result"
  ls_Endpoints :: "NamespacedName \<Rightarrow> Endpoints result"
  ls_Services :: "NamespacedName \<Rightarrow> Service result"

definition Reconcile :: "'w IPTables \<Rightarrow> Listers \<Rightarrow> Reconciler \<Rightarrow> 'w \<Rightarrow> go_error option \<times> 'w" where
  "Reconcile it ls r w =
     (case ls_Nodes ls of
        Inl err \<Rightarrow> (Some (Errorf ''failed to get nodes: %w'' [err]), w)
      | Inr nodes \<Rightarrow>
     (case ls_Endpoints ls kubeAPIService of
        Inl err \<Rightarrow> (Some (Errorf ''failed to get default service endpoints: %w'' [err]), w)
      | Inr kubeAPIEndpoints \<Rightarrow>
     (case ls_Services ls coreDNSService of
        Inl err \<Rightarrow> (Some (Errorf ''failed to get CoreDNS service: %w'' [err]), w)
      | Inr dnsService \<Rightarrow>
     (case ls_Endpoints ls (svc_Name dnsService) of
        Inl err \<Rightarrow> (Some (Errorf ''failed to get CoreDNS service endpoints: %w'' [err]), w)
      | Inr dnsEndpoints \<Rightarrow>
          (let (state, w1) = it_GetState it w in
           case state of
             Inl err \<Rightarrow> (Some (Errorf ''failed to get current iptables: %w'' [err]), w1)
           | Inr current \<Rightarrow>
               (let (werr, w2) = it_WriteState it (reconcile r current nodes kubeAPIEndpoints dnsService dnsEndpoints) w1 in
                (map_option (\<lambda>err. Errorf ''failed to write iptables: %w'' [err]) werr, w2)))))))"

text \<open>The firewall per container is a stub in this repository.\<close>

definition NeedsPerContainerFirewallSetup :: "string \<Rightarrow> bool" where
  "NeedsPerContainerFirewallSetup namespace = False"

definition SetupPerContainerFirewall :: "string \<Rightarrow> string \<Rightarrow> ('w \<Rightarrow> go_error option \<times> 'w) result" where
  "SetupPerContainerFirewall namespace ip = Inr (\<lambda>w. (None, w))"

section \<open>Executing iptables\<close>

definition containerName :: string where "containerName = ''firewall''"

text \<open>The docker client; \<open>ex_StdCopy\<close> gives the two streams of the attached command.\<close>

record 'w ExecOps =
  ex_Create :: "string \<Rightarrow> string list \<Rightarrow> bool \<Rightarrow> 'w \<Rightarrow> string result \<times> 'w"
  ex_Attach :: "string \<Rightarrow> 'w \<Rightarrow> go_error option \<times> 'w"
  ex_Write :: "bytes \<Rightarrow> 'w \<Rightarrow> go_error option \<times> 'w"
  ex_CloseWrite :: "'w \<Rightarrow> go_error option \<times> 'w"
  ex_StdCopy :: "'w \<Rightarrow> (bytes \<times> bytes) result \<times> 'w"
  ex_Inspect :: "string \<Rightarrow> 'w \<Rightarrow> int result \<times> 'w"
  ex_Close :: "'w \<Rightarrow> 'w"

definition exec_stdin :: "'w ExecOps \<Rightarrow> bytes \<Rightarrow> 'w \<Rightarrow> go_error option \<times> 'w" where
  "exec_stdin ops input w =
     (if length input > 0 then
        (let (err, w1) = ex_Write ops input w in
         case err of
           Some e \<Rightarrow> (Some (Errorf ''failed to write exec stdin: %w'' [e]), w1)
         | None \<Rightarrow>
             (let (err', w2) = ex_CloseWrite ops w1 in
              (map_option (\<lambda>e. Errorf ''failed to close stdin: %w'' [e]) err', w2)))
      else (None, w))"

definition exec_output :: "'w ExecOps \<Rightarrow> string \<Rightarrow> 'w \<Rightarrow> bytes result \<times> 'w" where
  "exec_output ops execID w =
     (let (copied, w1) = ex_StdCopy ops w in
      case copied of
        Inl err \<Rightarrow> (Inl (Errorf ''failed to read exec output: %w'' [err]), w1)
      | Inr (stdout, stderr) \<Rightarrow>
          (let (inspected, w2) = ex_Inspect ops execID w1 in
           case inspected of
             Inl err \<Rightarrow> (Inl (Errorf ''failed to inspect exec for status code: %w'' [err]), w2)
           | Inr exitCode \<Rightarrow>
               ((if exitCode \<noteq> 0 then
                   Inl (ErrorString (''failed to execute command, exitCode: '' @ fmt_i exitCode @ '', stdout: '' @ stdout @ '', stderr: '' @ stderr))
                 else Inr stdout), w2)))"

text \<open>\<open>exec\<close>; the connection is closed on every path once it was opened.\<close>

definition docker_exec :: "'w ExecOps \<Rightarrow> string \<Rightarrow> string list \<Rightarrow> bytes \<Rightarrow> 'w \<Rightarrow> bytes result \<times> 'w" where
  "docker_exec ops container args input w =
     (let (created, w1) = ex_Create ops container args (length input > 0) w in
      case created of
        Inl err \<Rightarrow> (Inl (Errorf ''failed to create exec: %w'' [err]), w1)
      | Inr execID \<Rightarrow>
          (let (attached, w2) = ex_Attach ops execID w1 in
           case attached of
             Some err \<Rightarrow> (Inl (Errorf ''failed to attach to exec: %w'' [err]), w2)
           | None \<Rightarrow>
               (let (err, w3) = exec_stdin ops input w2;
                    (res, w4) = (case err of Some e \<Rightarrow> (Inl e, w3) | None \<Rightarrow> exec_output ops execID w3)
                in (res, ex_Close ops w4))))"

definition error_of :: "'a result \<times> 'w \<Rightarrow> go_error option \<times> 'w" where
  "error_of r = ((case fst r of Inl e \<Rightarrow> Some e | Inr _ \<Rightarrow> None), snd r)"

definition DockerContainerBasedIPTables :: "'w ExecOps \<Rightarrow> 'w IPTables" where
  "DockerContainerBasedIPTables ops =
     \<lparr>it_GetState = docker_exec ops containerName [''iptables-save'', ''--table'', ''filter''] [],
      it_WriteState = (\<lambda>state w. error_of (docker_exec ops containerName [''iptables-restore'', ''--table'', ''filter''] state w)),
      it_Exec = (\<lambda>args w. error_of (docker_exec ops containerName (''iptables'' # args) [] w))\<rparr>"

section \<open>Events\<close>

datatype kube_object = ONode Node | OService Service | OEndpoints Endpoints | OOther

definition isRelevantService :: "Service \<Rightarrow> bool" where
  "isRelevantService svc =
     (nn_Namespace (svc_Name svc) = nn_Namespace coreDNSService \<and> nn_Name (svc_Name svc) = nn_Name coreDNSService)"

definition isRelevantEndpoints :: "Endpoints \<Rightarrow> bool" where
  "isRelevantEndpoints eps =
     (nn_Namespace (eps_Name eps) = nn_Namespace coreDNSService \<and> nn_Name (eps_Name eps) = nn_Name coreDNSService \<or>
      nn_Namespace (eps_Name eps) = nn_Namespace kubeAPIService \<and> nn_Name (eps_Name eps) = nn_Name kubeAPIService)"

text \<open>Whether the handlers call their function. \<open>relevant_object\<close> is the switch that two of them share.\<close>

fun relevant_object :: "kube_object \<Rightarrow> bool" where
  "relevant_object (OService svc) = isRelevantService svc"
| "relevant_object (OEndpoints eps) = isRelevantEndpoints eps"
| "relevant_object _ = True"

definition AddFunc :: "kube_object \<Rightarrow> bool \<Rightarrow> bool" where
  "AddFunc obj isInInitialList = (if isInInitialList then False else relevant_object obj)"

fun UpdateFunc :: "kube_object \<Rightarrow> kube_object \<Rightarrow> bool" where
  "UpdateFunc (ONode oldObj) (ONode newObj) = (node_Addresses oldObj \<noteq> node_Addresses newObj)"
| "UpdateFunc (OService oldObj) (OService newObj) = (isRelevantService newObj \<and> svc_ClusterIP oldObj \<noteq> svc_ClusterIP newObj)"
| "UpdateFunc (OEndpoints oldObj) (OEndpoints newObj) = (isRelevantEndpoints newObj \<and> eps_Subsets oldObj \<noteq> eps_Subsets newObj)"
| "UpdateFunc _ _ = False"

definition DeleteFunc :: "kube_object \<Rightarrow> bool" where
  "DeleteFunc obj = relevant_object obj"

end
