(* ===== verification/Firewall_Properties.thy ===== *)
theory Firewall_Properties
  imports Firewall
begin

text \<open>
  What the reconciliation means for the packet filter. The specification is a table that maps a
  chain to its rules, as \<open>iptables-restore\<close> builds it from lines: \<open>-A\<close> appends a rule to a chain
  and \<open>-I\<close> inserts one in front. The text that \<open>reconcile\<close> writes is shown to build exactly the
  desired table.
\<close>

type_synonym table = "string \<Rightarrow> string list"

definition append_rule :: "string \<Rightarrow> string \<Rightarrow> table \<Rightarrow> table" where
  "append_rule chain rule t = t(chain := t chain @ [rule])"

definition insert_rule :: "string \<Rightarrow> string \<Rightarrow> table \<Rightarrow> table" where
  "insert_rule chain rule t = t(chain := rule # t chain)"

definition apply_line :: "string \<Rightarrow> table \<Rightarrow> table" where
  "apply_line line t =
     (case SplitN line 3 of
        [oper, chain, rule] \<Rightarrow>
          (if oper = ''-A'' then append_rule chain rule t
           else if oper = ''-I'' then insert_rule chain rule t
           else t)
      | _ \<Rightarrow> t)"

definition table_of :: "string list \<Rightarrow> table" where
  "table_of ls = fold apply_line ls (\<lambda>_. [])"

text \<open>A rule of ours, by its chain and text.\<close>

definition own :: "string \<Rightarrow> string \<Rightarrow> bool" where
  "own chain rule =
     (HasPrefix chain ''WHISK-FIREWALL'' \<or>
      chain = ''FORWARD'' \<and> (HasPrefix rule ''-j WHISK-FIREWALL'' \<or> HasPrefix rule ''-j PER-CONTAINER-FIREWALL'') \<or>
      chain = ''INPUT'' \<and> HasPrefix rule ''-j WHISK-FIREWALL'')"

definition unowned :: "table \<Rightarrow> table" where
  "unowned t chain = filter (\<lambda>rule. \<not> own chain rule) (t chain)"

definition desired_table :: "string list \<Rightarrow> table \<Rightarrow> table" where
  "desired_table whisk t chain =
     (if chain = ''FORWARD'' then [''-j PER-CONTAINER-FIREWALL'', ''-j WHISK-FIREWALL'']
      else if chain = ''INPUT'' then [''-j WHISK-FIREWALL'']
      else if chain = ''WHISK-FIREWALL'' then whisk
      else [])
     @ unowned t chain"

section \<open>Lines\<close>

lemma split_space_found:
  "CHR '' '' \<notin> set a \<Longrightarrow> 1 < n \<Longrightarrow> split_space n acc (a @ CHR '' '' # s) = (acc @ a) # split_space (n - 1) [] s"
  by (induction a arbitrary: acc) auto

lemma split_space_last: "n \<le> 1 \<Longrightarrow> split_space n acc s = [acc @ s]"
  by (induction s arbitrary: acc) auto

lemma SplitN_three:
  "CHR '' '' \<notin> set a \<Longrightarrow> CHR '' '' \<notin> set b \<Longrightarrow> SplitN (a @ CHR '' '' # b @ CHR '' '' # s) 3 = [a, b, s]"
  by (simp add: SplitN_def split_space_found split_space_last)

lemma split_space_hd: "hd (split_space n acc s) = (if 1 < n then acc @ takeWhile (\<lambda>c. c \<noteq> CHR '' '') s else acc @ s)"
  by (induction n acc s rule: split_space.induct) auto

lemma HasPrefix_Nil [simp]: "HasPrefix s []"
  by (simp add: HasPrefix_def)

lemma HasPrefix_Cons [simp]: "HasPrefix (c # s) (d # p) \<longleftrightarrow> c = d \<and> HasPrefix s p" "\<not> HasPrefix [] (d # p)"
  by (auto simp: HasPrefix_def)

lemma HasPrefix_word:
  "x \<notin> set p \<Longrightarrow> HasPrefix (c @ x # r) p \<longleftrightarrow> HasPrefix c p"
proof (induction p arbitrary: c)
  case (Cons y p)
  then show ?case by (cases c) auto
qed simp

lemma HasPrefix_two_words:
  "x \<notin> set a \<Longrightarrow> x \<notin> set c \<Longrightarrow> HasPrefix (c @ x # r) (a @ x # q) \<longleftrightarrow> c = a \<and> HasPrefix r q"
proof (induction a arbitrary: c)
  case Nil
  then show ?case by (cases c) auto
next
  case (Cons y a)
  then show ?case by (cases c) auto
qed

definition rule_line :: "string \<Rightarrow> string \<Rightarrow> string" where
  "rule_line chain rule = ''-A '' @ chain @ '' '' @ rule"

lemma apply_rule_line [simp]:
  assumes "CHR '' '' \<notin> set chain"
  shows "apply_line (rule_line chain rule) t = append_rule chain rule t"
proof -
  have "SplitN (rule_line chain rule) 3 = [''-A'', chain, rule]"
    using SplitN_three [of "''-A''" chain rule] assms by (simp add: rule_line_def)
  then show ?thesis by (simp add: apply_line_def)
qed

lemma own_rule_line:
  assumes "CHR '' '' \<notin> set chain"
  shows "own_rule (rule_line chain rule) \<longleftrightarrow> own chain rule"
  using assms HasPrefix_word [of "CHR '' ''" "''WHISK-FIREWALL''" chain rule]
    HasPrefix_two_words [of "CHR '' ''" "''FORWARD''" chain rule] HasPrefix_two_words [of "CHR '' ''" "''INPUT''" chain rule]
  by (auto simp: own_rule_def own_def rule_line_def firewallForwardRule_def perContainerForwardRule_def firewallInputRule_def)

text \<open>A line that does not begin with a dash changes no rule.\<close>

lemma apply_other_line:
  assumes "\<not> HasPrefix line ''-''"
  shows "apply_line line t = t"
proof -
  have "hd (SplitN line 3) \<noteq> ''-A''" "hd (SplitN line 3) \<noteq> ''-I''"
    using assms by (cases line; auto simp: SplitN_def split_space_hd)+
  then show ?thesis by (auto simp: apply_line_def split: list.splits)
qed

section \<open>The scan\<close>

definition structural :: "string \<Rightarrow> bool" where
  "structural line = (HasPrefix line ''*'' \<or> HasPrefix line '':'' \<or> HasPrefix line ''-'')"

lemma chain_lines:
  "\<not> own_rule firewallChain" "\<not> own_rule perContainerChain" "structural firewallChain" "structural perContainerChain"
  "firewallChain \<noteq> perContainerChain" "\<not> HasPrefix firewallChain ''-''" "\<not> HasPrefix perContainerChain ''-''"
  by (simp_all add: own_rule_def structural_def firewallChain_def perContainerChain_def firewallForwardRule_def
      perContainerForwardRule_def firewallInputRule_def)

lemma own_rule_append: "own_rule line \<Longrightarrow> HasPrefix line ''-A''"
  by (cases line; cases "tl line")
    (auto simp: own_rule_def firewallForwardRule_def perContainerForwardRule_def firewallInputRule_def)

lemma check_position_sel [simp]:
  "ss_rules (check_position line s) = ss_rules s"
  "ss_containsFirewallChain (check_position line s) = ss_containsFirewallChain s"
  "ss_containsPerContainerChain (check_position line s) = ss_containsPerContainerChain s"
  by (simp_all add: check_position_def Let_def)

lemma scan_line_sel:
  "ss_rules (scan_line line s) = ss_rules s @ (if structural line \<and> \<not> own_rule line then [line] else [])"
  "ss_containsFirewallChain (scan_line line s) \<longleftrightarrow> ss_containsFirewallChain s \<or> line = firewallChain"
  "ss_containsPerContainerChain (scan_line line s) \<longleftrightarrow> ss_containsPerContainerChain s \<or> line = perContainerChain"
  using own_rule_append [of line] chain_lines by (auto simp: scan_line_def structural_def Let_def)

lemma fold_scan_line:
  "ss_rules (fold scan_line ls s) = ss_rules s @ filter (\<lambda>line. structural line \<and> \<not> own_rule line) ls"
  "ss_containsFirewallChain (fold scan_line ls s) \<longleftrightarrow> ss_containsFirewallChain s \<or> firewallChain \<in> set ls"
  "ss_containsPerContainerChain (fold scan_line ls s) \<longleftrightarrow> ss_containsPerContainerChain s \<or> perContainerChain \<in> set ls"
  by (induction ls arbitrary: s) (auto simp: scan_line_sel)

lemma scan_spec:
  "ss_rules (scan current) = filter (\<lambda>line. structural line \<and> \<not> own_rule line) (scan_lines [] current)"
  "ss_containsFirewallChain (scan current) \<longleftrightarrow> firewallChain \<in> set (scan_lines [] current)"
  "ss_containsPerContainerChain (scan current) \<longleftrightarrow> perContainerChain \<in> set (scan_lines [] current)"
  by (simp_all add: scan_def fold_scan_line)

text \<open>What \<open>iptables-save\<close> writes: a line that begins with a dash appends a rule to a chain.\<close>

definition saved_line :: "string \<Rightarrow> bool" where
  "saved_line line = (HasPrefix line ''-'' \<longrightarrow> (\<exists>chain rule. CHR '' '' \<notin> set chain \<and> line = rule_line chain rule))"

lemma saved_rule_line: "CHR '' '' \<notin> set chain \<Longrightarrow> saved_line (rule_line chain rule)"
  by (auto simp: saved_line_def)

lemma saved_other_line: "\<not> HasPrefix line ''-'' \<Longrightarrow> saved_line line"
  by (simp add: saved_line_def)

lemma rule_line_structural: "structural (rule_line chain rule)"
  by (simp add: structural_def rule_line_def)

lemma unowned_append_rule:
  "unowned (append_rule chain rule t) = (if own chain rule then unowned t else append_rule chain rule (unowned t))"
  by (auto simp: fun_eq_iff unowned_def append_rule_def)

lemma table_kept:
  assumes "\<forall>line \<in> set ls. saved_line line"
  shows "fold apply_line (filter (\<lambda>line. structural line \<and> \<not> own_rule line) ls) (unowned t) = unowned (fold apply_line ls t)"
  using assms
proof (induction ls arbitrary: t)
  case (Cons line ls)
  show ?case
  proof (cases "HasPrefix line ''-''")
    case True
    then obtain chain rule where "CHR '' '' \<notin> set chain" "line = rule_line chain rule"
      using Cons.prems by (auto simp: saved_line_def)
    with Cons.IH [of "append_rule chain rule t"] Cons.prems show ?thesis
      by (simp add: own_rule_line rule_line_structural unowned_append_rule split: if_splits)
  next
    case False
    with Cons show ?thesis by (simp add: apply_other_line)
  qed
qed simp

section \<open>The desired rules\<close>

text \<open>The text of a rule of the form \<open>-A WHISK-FIREWALL\<close>.\<close>

definition bodies :: "string list \<Rightarrow> string list" where
  "bodies rules = map (drop (length ''-A WHISK-FIREWALL '')) rules"

lemma serviceRule_line: "\<exists>body. serviceRule r dest action comment = rule_line ''WHISK-FIREWALL'' body"
  by (auto simp: serviceRule_def rule_line_def)

lemma whisk_rules_lines:
  assumes "line \<in> set (whisk_rules r nodes kube svc eps)"
  shows "\<exists>body. line = rule_line ''WHISK-FIREWALL'' body"
  using assms serviceRule_line
  by (auto simp: whisk_rules_def node_rules_def endpoint_rules_def linkLocalRule_def)
    (simp_all add: rule_line_def)

lemma table_whisk:
  assumes "\<forall>line \<in> set ls. \<exists>body. line = rule_line ''WHISK-FIREWALL'' body"
  shows "fold apply_line ls t = fold (append_rule ''WHISK-FIREWALL'') (bodies ls) t"
  using assms
proof (induction ls arbitrary: t)
  case (Cons line ls)
  then obtain body where line: "line = rule_line ''WHISK-FIREWALL'' body" by auto
  then have "bodies (line # ls) = body # bodies ls" by (simp add: bodies_def rule_line_def)
  with Cons line show ?case by simp
qed (simp add: bodies_def)

lemma fold_append_rule: "fold (append_rule chain) rules t = t(chain := t chain @ rules)"
  by (induction rules arbitrary: t) (simp_all add: append_rule_def)

lemma apply_insert_lines:
  "apply_line ''-I FORWARD -j WHISK-FIREWALL'' = insert_rule ''FORWARD'' ''-j WHISK-FIREWALL''"
  "apply_line ''-I FORWARD -j PER-CONTAINER-FIREWALL'' = insert_rule ''FORWARD'' ''-j PER-CONTAINER-FIREWALL''"
  "apply_line ''-I INPUT -j WHISK-FIREWALL'' = insert_rule ''INPUT'' ''-j WHISK-FIREWALL''"
  by (rule ext, simp add: apply_line_def SplitN_def)+

lemma reconciled_table:
  assumes "\<forall>line \<in> set (scan_lines [] current). saved_line line"
  shows "table_of (reconciled_rules r current nodes kube svc eps) =
    desired_table (bodies (whisk_rules r nodes kube svc eps)) (table_of (scan_lines [] current))"
proof -
  let ?whisk = "bodies (whisk_rules r nodes kube svc eps)"
  define kept where "kept = unowned (table_of (scan_lines [] current))"
  have "unowned (\<lambda>_. []) = (\<lambda>_. [])" by (simp add: fun_eq_iff unowned_def)
  then have k: "fold apply_line (ss_rules (scan current)) (\<lambda>_. []) = kept"
    using table_kept [OF assms, of "\<lambda>_. []"] by (simp add: scan_spec table_of_def kept_def)
  have none: "kept ''WHISK-FIREWALL'' = []" by (simp add: kept_def unowned_def own_def)
  have other: "apply_line '':WHISK-FIREWALL - [0:0]'' t = t" "apply_line '':PER-CONTAINER-FIREWALL - [0:0]'' t = t"
    "apply_line ''COMMIT'' t = t" for t by (rule apply_other_line, simp)+
  have "table_of (reconciled_rules r current nodes kube svc eps) = fold (append_rule ''WHISK-FIREWALL'') ?whisk
      (insert_rule ''INPUT'' ''-j WHISK-FIREWALL'' (insert_rule ''FORWARD'' ''-j PER-CONTAINER-FIREWALL''
        (insert_rule ''FORWARD'' ''-j WHISK-FIREWALL'' kept)))"
    unfolding table_of_def reconciled_rules_def Let_def
    by (simp add: k other apply_insert_lines table_whisk [OF ballI [OF whisk_rules_lines]])
  then show ?thesis
    using none by (auto simp: fun_eq_iff desired_table_def fold_append_rule insert_rule_def kept_def)
qed

lemma desired_table_idem: "desired_table whisk (desired_table whisk t) = desired_table whisk t"
  by (rule ext) (simp add: desired_table_def unowned_def own_def)

section \<open>The text\<close>

text \<open>A line that survives being written and scanned again.\<close>

definition clean_line :: "string \<Rightarrow> bool" where
  "clean_line line = (CHR 0x0A \<notin> set line \<and> CHR 0x0D \<notin> set line \<and> length line \<le> maxLine)"

lemma scan_one_line: "CHR 0x0A \<notin> set line \<Longrightarrow> scan_lines acc (line @ CHR 0x0A # cs) = scan_lines (acc @ line) (CHR 0x0A # cs)"
  by (induction line arbitrary: acc) auto

lemma drop_cr_clean: "CHR 0x0D \<notin> set line \<Longrightarrow> drop_cr line = line"
  by (auto simp: drop_cr_def dest: last_in_set)

lemma scan_terminated_lines: "list_all clean_line rules \<Longrightarrow> scan_lines [] (terminated_lines rules) = rules"
  by (induction rules) (simp_all add: terminated_lines_def clean_line_def scan_one_line drop_cr_clean)

lemma scan_lines_clean:
  "list_all clean_line (scan_lines acc cs)" if "CHR 0x0D \<notin> set acc \<union> set cs" and "CHR 0x0A \<notin> set acc"
  using that by (induction acc cs rule: scan_lines.induct) (auto simp: clean_line_def drop_cr_clean)

lemma reconciled_rules_clean:
  assumes "CHR 0x0D \<notin> set current" and "list_all clean_line (whisk_rules r nodes kube svc eps)"
  shows "list_all clean_line (reconciled_rules r current nodes kube svc eps)"
proof -
  have "list_all clean_line (ss_rules (scan current))"
    using scan_lines_clean [of "[]" current] assms(1) by (auto simp: scan_spec list_all_iff)
  with assms(2) show ?thesis
    by (simp add: reconciled_rules_def Let_def clean_line_def maxLine_def)
qed

section \<open>Theorems\<close>

text \<open>
  C39. Reconciling refines its specification and is idempotent. For a state as \<open>iptables-save\<close> writes
  it, the text that is written builds the desired table: the jumps to our chains come first in
  FORWARD and INPUT, the chain WHISK-FIREWALL holds exactly the rules computed from the nodes,
  the services and the endpoints, and every other rule is kept, in its order. Reconciling a
  state with that table again gives the same table.
\<close>

theorem reconcile_refines:
  assumes "CHR 0x0D \<notin> set current" and "list_all saved_line (scan_lines [] current)"
    and "list_all clean_line (whisk_rules r nodes kube svc eps)"
  shows "table_of (scan_lines [] (reconcile r current nodes kube svc eps)) =
      desired_table (bodies (whisk_rules r nodes kube svc eps)) (table_of (scan_lines [] current)) \<and>
    (\<forall>again. CHR 0x0D \<notin> set again \<and> list_all saved_line (scan_lines [] again) \<and>
        table_of (scan_lines [] again) = table_of (scan_lines [] (reconcile r current nodes kube svc eps)) \<longrightarrow>
      table_of (scan_lines [] (reconcile r again nodes kube svc eps)) = table_of (scan_lines [] again))"
proof -
  have "table_of (scan_lines [] (reconcile r c nodes kube svc eps)) =
      desired_table (bodies (whisk_rules r nodes kube svc eps)) (table_of (scan_lines [] c))"
    if "CHR 0x0D \<notin> set c" "list_all saved_line (scan_lines [] c)" for c
    using reconciled_table [of c r nodes kube svc eps] scan_terminated_lines [OF reconciled_rules_clean [OF that(1) assms(3)]] that(2)
    by (simp add: reconcile_def list_all_iff)
  with assms(1,2) show ?thesis by (simp add: desired_table_idem)
qed

text \<open>
  The events that the handler ignores do not matter: when an update of a node that keeps its
  name is not reported, the rules that follow from the node stay the same, and likewise for the
  service and the endpoints of the name server and for the endpoints of the API server.
\<close>

lemma ignored_node_update:
  "\<not> UpdateFunc (ONode old) (ONode new) \<Longrightarrow> node_Name old = node_Name new \<Longrightarrow> node_rules r old = node_rules r new"
  by (simp add: node_rules_def)

lemma ignored_service_update:
  "\<not> UpdateFunc (OService old) (OService new) \<Longrightarrow> svc_Name new = coreDNSService \<Longrightarrow> svc_ClusterIP old = svc_ClusterIP new"
  by (simp add: isRelevantService_def)

lemma ignored_endpoints_update:
  "\<not> UpdateFunc (OEndpoints old) (OEndpoints new) \<Longrightarrow> eps_Name new \<in> {coreDNSService, kubeAPIService} \<Longrightarrow>
   endpoint_rules r action comment old = endpoint_rules r action comment new"
  by (auto simp: isRelevantEndpoints_def endpoint_rules_def)

section \<open>Witness\<close>

definition example_reconciler :: Reconciler where
  "example_reconciler = \<lparr>rc_ContainerSubnet = ''172.18.0.0/16'', rc_ContainerBridge = ''functions0''\<rparr>"

definition example_node :: Node where
  "example_node = \<lparr>node_Name = ''node1'', node_Addresses =
     [\<lparr>na_Type = ''InternalIP'', na_Address = ''10.1.0.1''\<rparr>, \<lparr>na_Type = ''ExternalIP'', na_Address = ''1.2.3.4''\<rparr>]\<rparr>"

definition example_state :: bytes where
  "example_state = terminated_lines [''*filter'', '':FORWARD ACCEPT [0:0]'', ''-A FORWARD -j DOCKER'', ''-A FORWARD -j WHISK-FIREWALL'', ''COMMIT'']"

definition example_kube :: Endpoints where
  "example_kube = \<lparr>eps_Name = kubeAPIService, eps_Subsets = [[''5.6.7.8'']]\<rparr>"

definition example_dns :: Endpoints where
  "example_dns = \<lparr>eps_Name = coreDNSService, eps_Subsets = []\<rparr>"

definition example_service :: Service where
  "example_service = \<lparr>svc_Name = coreDNSService, svc_ClusterIP = ''10.9.8.7''\<rparr>"

theorem reconcile_refines_witness:
  "table_of (scan_lines [] (reconcile example_reconciler example_state [example_node] example_kube example_service example_dns)) ''FORWARD'' =
     [''-j PER-CONTAINER-FIREWALL'', ''-j WHISK-FIREWALL'', ''-j DOCKER'']"
proof -
  have lines: "scan_lines [] example_state = [''*filter'', '':FORWARD ACCEPT [0:0]'', rule_line ''FORWARD'' ''-j DOCKER'',
      rule_line ''FORWARD'' ''-j WHISK-FIREWALL'', ''COMMIT'']"
    unfolding example_state_def rule_line_def by (subst scan_terminated_lines) (simp_all add: clean_line_def maxLine_def)
  have "CHR 0x0D \<notin> set example_state" by (simp add: example_state_def terminated_lines_def)
  moreover have "list_all saved_line (scan_lines [] example_state)"
    unfolding lines by (simp add: saved_rule_line saved_other_line)
  moreover have "list_all clean_line (whisk_rules example_reconciler [example_node] example_kube example_service example_dns)"
    by (simp add: whisk_rules_def node_rules_def endpoint_rules_def linkLocalRule_def serviceRule_def example_reconciler_def example_node_def
        example_kube_def example_service_def example_dns_def NodeExternalIP_def clean_line_def maxLine_def)
  ultimately have "table_of (scan_lines [] (reconcile example_reconciler example_state [example_node] example_kube example_service example_dns)) =
      desired_table (bodies (whisk_rules example_reconciler [example_node] example_kube example_service example_dns)) (table_of (scan_lines [] example_state))"
    using reconcile_refines by blast
  moreover have "table_of (scan_lines [] example_state) ''FORWARD'' = [''-j DOCKER'', ''-j WHISK-FIREWALL'']"
    unfolding lines by (simp add: table_of_def apply_other_line append_rule_def)
  ultimately show ?thesis by (simp add: desired_table_def unowned_def own_def)
qed

end
