(* ===== verification/Log_Streams.thy ===== *)
theory Log_Streams
  imports Docker
begin

text \<open>
  The goroutines behind the logs of a container (\<open>consumeLogs\<close>, \<open>consumeStream\<close>, \<open>Logs\<close> and the end of
  \<open>Remove\<close> in \<open>pkg/exec/docker/container.go\<close>) as a step relation: the demultiplexer reads frames
  from the attached connection and writes them into two pipes, one goroutine per pipe cuts what it reads
  into lines and sends them over the channel \<open>logs\<close>, an invocation may receive from it, and \<open>Remove\<close>
  drains it until all three have ended. The reference is \<open>consumeStream\<close> on the bytes of the stream.

  What the libraries promise is in the rules: \<open>stdcopy.StdCopy\<close> writes the payloads of the frames in order
  to the pipe of their stream and returns at the end of the connection, on an error of it and when it was closed, a write to an \<open>io.Pipe\<close> returns when it was read
  completely, a read returns some of what is written, and an unbuffered channel needs a receiver. The
  clock readings in the lines are arbitrary.
\<close>

section \<open>State\<close>

datatype std = Stdout | Stderr

primrec stream_name :: "std \<Rightarrow> string" where
  "stream_name Stdout = LogStreamStdout"
| "stream_name Stderr = LogStreamStderr"

text \<open>
  One stream: everything that was written to its pipe so far, the part of the current write that was not
  read yet, whether the pipe is closed, the buffer of the reader, and the lines that its goroutine has still
  to send for the line it read last.
\<close>

record StreamState =
  st_written :: bytes
  st_pipe :: bytes
  st_closed :: bool
  st_buf :: bytes
  st_sending :: "LogLine list"
  st_ended :: bool

text \<open>After \<open>StdCopy\<close> returned, the deferred functions close the pipes.\<close>

datatype demux = DReading | DWriting std | DClosing "go_error option" "std list" | DEnded "go_error option"

text \<open>\<open>Remove\<close> from the moment docker has deleted the container.\<close>

datatype remover = RIdle | RClosing | RWaiting | RDraining "go_error option" | RReturned "go_error option"

text \<open>
  \<open>ls_printed\<close> are all frames that the daemon has sent, \<open>ls_conn\<close> those that were not read yet, and \<open>ls_connEnd\<close> how
  the daemon or the network ended the connection: with its regular end or with an error.
\<close>

record LogState =
  ls_printed :: "(std \<times> bytes) list"
  ls_conn :: "(std \<times> bytes) list"
  ls_connEnd :: "go_error option option"
  ls_connClosed :: bool
  ls_demux :: demux
  ls_stream :: "std \<Rightarrow> StreamState"
  ls_collecting :: bool
  ls_draining :: bool
  ls_chanClosed :: bool
  ls_received :: "LogLine list"
  ls_remover :: remover
  ls_panicked :: bool

definition stream_new :: StreamState where
  "stream_new = \<lparr>st_written = [], st_pipe = [], st_closed = False, st_buf = [], st_sending = [], st_ended = False\<rparr>"

definition log_new :: LogState where
  "log_new =
     \<lparr>ls_printed = [], ls_conn = [], ls_connEnd = None, ls_connClosed = False, ls_demux = DReading, ls_stream = (\<lambda>_. stream_new), ls_collecting = False,
      ls_draining = False, ls_chanClosed = False, ls_received = [], ls_remover = RIdle, ls_panicked = False\<rparr>"

definition set_stream :: "std \<Rightarrow> StreamState \<Rightarrow> LogState \<Rightarrow> LogState" where
  "set_stream st x s = s\<lparr>ls_stream := (ls_stream s)(st := x)\<rparr>"

section \<open>Steps\<close>

text \<open>A line or a full buffer is there.\<close>

definition buffered :: "nat \<Rightarrow> bytes \<Rightarrow> bool" where
  "buffered bufsize buf = (LF \<in> set buf \<or> max 16 bufsize \<le> length buf)"

text \<open>One goroutine that runs \<open>consumeStream\<close>, apart from its sends.\<close>

inductive reader_step :: "nat \<Rightarrow> std \<Rightarrow> StreamState \<Rightarrow> StreamState \<Rightarrow> bool" for bufsize st where
  fill: "\<not> st_ended x \<Longrightarrow> st_sending x = [] \<Longrightarrow> \<not> buffered bufsize (st_buf x)
    \<Longrightarrow> st_pipe x = chunk @ rest \<Longrightarrow> chunk \<noteq> [] \<Longrightarrow> length (st_buf x @ chunk) \<le> max 16 bufsize
    \<Longrightarrow> reader_step bufsize st x (x\<lparr>st_buf := st_buf x @ chunk, st_pipe := rest\<rparr>)"
| line: "\<not> st_ended x \<Longrightarrow> st_sending x = [] \<Longrightarrow> buffered bufsize (st_buf x)
    \<Longrightarrow> ReadLine (max 16 bufsize) (st_buf x) = Some (log, rest)
    \<Longrightarrow> reader_step bufsize st x (x\<lparr>st_buf := rest, st_sending := log_lines (stream_name st) now log\<rparr>)"
| last_line: "\<not> st_ended x \<Longrightarrow> st_sending x = [] \<Longrightarrow> \<not> buffered bufsize (st_buf x) \<Longrightarrow> st_buf x \<noteq> [] \<Longrightarrow> st_closed x
    \<Longrightarrow> reader_step bufsize st x (x\<lparr>st_buf := [], st_sending := log_lines (stream_name st) now (st_buf x)\<rparr>)"
| at_end: "\<not> st_ended x \<Longrightarrow> st_sending x = [] \<Longrightarrow> st_buf x = [] \<Longrightarrow> st_closed x
    \<Longrightarrow> reader_step bufsize st x (x\<lparr>st_ended := True\<rparr>)"

inductive_cases reader_stepE: "reader_step bufsize st x x'"

text \<open>What \<open>Remove\<close> returns for the error of the group of goroutines.\<close>

definition wait_result :: "go_error option \<Rightarrow> go_error option" where
  "wait_result waitErr =
     (case waitErr of
        None \<Rightarrow> None
      | Some e \<Rightarrow> if errors_Is e NetErrClosed then None
                  else Some (Errorf ''failed to wait for log consumption to finish: %w'' [e]))"

text \<open>
  The goroutine with the demultiplexer. Reading the connection gives the frames in order, then its end; an error of the
  connection may come before the frames, and so may the error of a connection that was closed on this side.
\<close>

definition demux_failed :: "go_error \<Rightarrow> demux" where
  "demux_failed e = DClosing (Some (Errorf ''failed to demultiplex stdio stream from container: %w'' [e])) [Stderr, Stdout]"

inductive demux_step :: "LogState \<Rightarrow> LogState \<Rightarrow> bool" where
  frame: "ls_demux s = DReading \<Longrightarrow> ls_conn s = (st, payload) # rest \<Longrightarrow> x = ls_stream s st
    \<Longrightarrow> demux_step s ((set_stream st (x\<lparr>st_written := st_written x @ payload, st_pipe := payload\<rparr>) s)
          \<lparr>ls_demux := DWriting st, ls_conn := rest\<rparr>)"
| written: "ls_demux s = DWriting st \<Longrightarrow> st_pipe (ls_stream s st) = [] \<Longrightarrow> demux_step s (s\<lparr>ls_demux := DReading\<rparr>)"
| copied: "ls_demux s = DReading \<Longrightarrow> ls_conn s = [] \<Longrightarrow> ls_connEnd s = Some None
    \<Longrightarrow> demux_step s (s\<lparr>ls_demux := DClosing None [Stderr, Stdout]\<rparr>)"
| copy_fails: "ls_demux s = DReading \<Longrightarrow> ls_connEnd s = Some (Some e) \<Longrightarrow> demux_step s (s\<lparr>ls_demux := demux_failed e\<rparr>)"
| copy_closed: "ls_demux s = DReading \<Longrightarrow> ls_connClosed s \<Longrightarrow> demux_step s (s\<lparr>ls_demux := demux_failed NetErrClosed\<rparr>)"
| close_pipe: "ls_demux s = DClosing r (st # sts)
    \<Longrightarrow> demux_step s ((set_stream st ((ls_stream s st)\<lparr>st_closed := True\<rparr>) s)\<lparr>ls_demux := DClosing r sts\<rparr>)"
| ended: "ls_demux s = DClosing r [] \<Longrightarrow> demux_step s (s\<lparr>ls_demux := DEnded r\<rparr>)"

text \<open>\<open>Remove\<close> after docker has deleted the container, with the goroutine that drains the channel.\<close>

inductive remove_step :: "LogState \<Rightarrow> LogState \<Rightarrow> bool" where
  begins: "ls_remover s = RIdle \<Longrightarrow> remove_step s (s\<lparr>ls_remover := RClosing, ls_draining := True\<rparr>)"
| conn_closed: "ls_remover s = RClosing \<Longrightarrow> remove_step s (s\<lparr>ls_remover := RWaiting, ls_connClosed := True\<rparr>)"
| conn_fails: "ls_remover s = RClosing
    \<Longrightarrow> remove_step s (s\<lparr>ls_remover := RReturned (Some (Errorf ''failed to close attach connection: %w'' [e]))\<rparr>)"
| waited: "ls_remover s = RWaiting \<Longrightarrow> ls_demux s = DEnded r \<Longrightarrow> st_ended (ls_stream s Stdout) \<Longrightarrow> st_ended (ls_stream s Stderr)
    \<Longrightarrow> remove_step s (s\<lparr>ls_remover := RDraining (wait_result r), ls_chanClosed := True\<rparr>)"
| drained: "ls_remover s = RDraining r \<Longrightarrow> remove_step s (s\<lparr>ls_remover := RReturned r, ls_draining := False\<rparr>)"

text \<open>The goroutines of the container together with \<open>Remove\<close>.\<close>

inductive goroutine_step :: "nat \<Rightarrow> LogState \<Rightarrow> LogState \<Rightarrow> bool" for bufsize where
  demux: "demux_step s s' \<Longrightarrow> goroutine_step bufsize s s'"
| reader: "reader_step bufsize st (ls_stream s st) x \<Longrightarrow> goroutine_step bufsize s (set_stream st x s)"
| send: "st_sending (ls_stream s st) = l # ls \<Longrightarrow> ls_collecting s \<or> ls_draining s \<Longrightarrow> \<not> ls_chanClosed s
    \<Longrightarrow> goroutine_step bufsize s ((set_stream st ((ls_stream s st)\<lparr>st_sending := ls\<rparr>) s)\<lparr>ls_received := ls_received s @ [l]\<rparr>)"
| send_closed: "st_sending (ls_stream s st) \<noteq> [] \<Longrightarrow> ls_chanClosed s \<Longrightarrow> goroutine_step bufsize s (s\<lparr>ls_panicked := True\<rparr>)"
| remove: "remove_step s s' \<Longrightarrow> goroutine_step bufsize s s'"

text \<open>
  The same among the container that prints, the daemon or network that ends the connection, and the invocations that start and
  stop to receive.
\<close>

inductive log_step :: "nat \<Rightarrow> LogState \<Rightarrow> LogState \<Rightarrow> bool" for bufsize where
  printed: "ls_connEnd s = None
    \<Longrightarrow> log_step bufsize s (s\<lparr>ls_conn := ls_conn s @ [(st, payload)], ls_printed := ls_printed s @ [(st, payload)]\<rparr>)"
| conn_ends: "ls_connEnd s = None \<Longrightarrow> log_step bufsize s (s\<lparr>ls_connEnd := Some r\<rparr>)"
| collect: "log_step bufsize s (s\<lparr>ls_collecting := b\<rparr>)"
| goroutine: "goroutine_step bufsize s s' \<Longrightarrow> log_step bufsize s s'"

section \<open>The reference\<close>

text \<open>The lines of a stream, without their times.\<close>

definition stream_lines :: "nat \<Rightarrow> std \<Rightarrow> bytes \<Rightarrow> LogLine list" where
  "stream_lines bufsize st input = fst (consumeStream bufsize (stream_name st) (\<lambda>_. 0) 0 input IOEOF)"

definition untimed :: "LogLine list \<Rightarrow> LogLine list" where
  "untimed ls = map (\<lambda>l. l\<lparr>ll_Time := 0\<rparr>) ls"

definition received_from :: "std \<Rightarrow> LogLine list \<Rightarrow> LogLine list" where
  "received_from st ls = filter (\<lambda>l. ll_Stream l = stream_name st) ls"

text \<open>The bytes of the frames of one stream.\<close>

definition frame_bytes :: "std \<Rightarrow> (std \<times> bytes) list \<Rightarrow> bytes" where
  "frame_bytes st frames = concat (map snd (filter (\<lambda>f. fst f = st) frames))"

lemma frame_bytes_simps [simp]:
  "frame_bytes st [] = []" "frame_bytes st (fs @ gs) = frame_bytes st fs @ frame_bytes st gs"
  "frame_bytes st ((st', payload) # fs) = (if st' = st then payload else []) @ frame_bytes st fs"
  by (simp_all add: frame_bytes_def)

lemma untimed_simps [simp]: "untimed [] = []" "untimed (xs @ ys) = untimed xs @ untimed ys" "untimed (x # xs) = x\<lparr>ll_Time := 0\<rparr> # untimed xs"
  by (simp_all add: untimed_def)

lemma untimed_log_lines: "untimed (log_lines name now log) = log_lines name 0 log"
  by (simp add: log_lines_def Let_def)

lemma stream_name_eq [simp]: "stream_name st = stream_name st' \<longleftrightarrow> st = st'"
  by (cases st; cases st') (simp_all add: LogStreamStdout_def LogStreamStderr_def)

lemma log_lines_stream: "l \<in> set (log_lines name now log) \<Longrightarrow> ll_Stream l = name"
  by (auto simp: log_lines_def Let_def split: if_splits)

lemma length_log_lines: "length (log_lines name now log) \<le> 2"
  by (simp add: log_lines_def Let_def)

lemma consumeStream_untimed_index:
  "consumeStream bufsize name (\<lambda>_. 0) i input e = consumeStream bufsize name (\<lambda>_. 0) j input e"
proof (induction "length input" arbitrary: i j input rule: less_induct)
  case less
  show ?case
  proof (cases "ReadLine (max 16 bufsize) input")
    case (Some r)
    obtain log rest where r: "r = (log, rest)" by force
    from less [OF ReadLine_shorter [OF Some [unfolded r]], of "Suc i" "Suc j"] Some r show ?thesis
      by (subst (1 2) consumeStream.simps) simp
  qed (subst (1 2) consumeStream.simps, simp)
qed

lemma stream_lines_line:
  "ReadLine (max 16 bufsize) input = Some (log, rest)
   \<Longrightarrow> stream_lines bufsize st input = log_lines (stream_name st) 0 log @ stream_lines bufsize st rest"
  using consumeStream_untimed_index [of bufsize "stream_name st" 1 rest IOEOF 0]
  unfolding stream_lines_def by (subst consumeStream.simps) (simp split: prod.splits)

lemma stream_lines_Nil [simp]: "stream_lines bufsize st [] = []"
  unfolding stream_lines_def by (subst consumeStream.simps) (simp add: ReadLine_def)

lemma buffer_shrinks: "ReadLine (max 16 bufsize) buf = Some (log, rest) \<Longrightarrow> length rest < length buf"
  by (erule ReadLine_shorter) simp

lemma ReadLine_some: "buf \<noteq> [] \<Longrightarrow> \<exists>log rest. ReadLine n buf = Some (log, rest)"
  unfolding ReadLine_def Let_def by (simp split: if_split)

text \<open>What is buffered decides the next line, whatever follows.\<close>

lemma ReadLine_buffered:
  assumes "buffered bufsize buf" and "length buf \<le> max 16 bufsize" and "ReadLine (max 16 bufsize) buf = Some (log, rest)"
  shows "ReadLine (max 16 bufsize) (buf @ ahead) = Some (log, rest @ ahead)"
proof (cases "LF \<in> set buf")
  case True
  then have "length (takeWhile (\<lambda>c. c \<noteq> LF) buf) < length buf"
    by (metis (mono_tags, lifting) length_takeWhile_le nat_less_le takeWhile_eq_all_conv takeWhile_eq_take take_all_iff)
  moreover have "takeWhile (\<lambda>c. c \<noteq> LF) (buf @ ahead) = takeWhile (\<lambda>c. c \<noteq> LF) buf" using True by (induction buf) auto
  ultimately show ?thesis using assms(2,3) by (auto simp: ReadLine_def Let_def split: if_splits)
next
  case False
  with assms(1,2) have len: "length buf = max 16 bufsize" by (auto simp: buffered_def)
  have t: "takeWhile (\<lambda>c. c \<noteq> LF) buf = buf" using False by (auto simp: takeWhile_eq_all_conv)
  have t': "takeWhile (\<lambda>c. c \<noteq> LF) (buf @ ahead) = buf @ takeWhile (\<lambda>c. c \<noteq> LF) ahead"
    using False by (subst takeWhile_append2) auto
  from assms(3) len show ?thesis by (auto simp: ReadLine_def Let_def t t' split: if_splits)
qed

lemma ReadLine_last:
  "\<not> buffered bufsize buf \<Longrightarrow> buf \<noteq> [] \<Longrightarrow> ReadLine (max 16 bufsize) buf = Some (buf, [])"
proof -
  assume "\<not> buffered bufsize buf" "buf \<noteq> []"
  moreover from this have t: "takeWhile (\<lambda>c. c \<noteq> LF) buf = buf" by (auto simp: buffered_def takeWhile_eq_all_conv)
  ultimately show ?thesis unfolding ReadLine_def t by (auto simp: buffered_def)
qed

section \<open>The invariant of one stream\<close>

text \<open>
  The lines of everything that was written are those that were received and sent, followed by the lines of what
  is still in the buffer and in the pipe; as long as the pipe is open this holds whatever will be written.
\<close>

definition cut_ok :: "nat \<Rightarrow> std \<Rightarrow> bool \<Rightarrow> bytes \<Rightarrow> LogLine list \<Rightarrow> bytes \<Rightarrow> bool" where
  "cut_ok bufsize st closed written sent rest =
     (\<forall>ahead. (closed \<longrightarrow> ahead = []) \<longrightarrow>
        stream_lines bufsize st (written @ ahead) = untimed sent @ stream_lines bufsize st (rest @ ahead))"

definition stream_inv :: "nat \<Rightarrow> std \<Rightarrow> LogLine list \<Rightarrow> StreamState \<Rightarrow> bool" where
  "stream_inv bufsize st recv x =
     (cut_ok bufsize st (st_closed x) (st_written x) (received_from st recv @ st_sending x) (st_buf x @ st_pipe x) \<and>
      length (st_buf x) \<le> max 16 bufsize \<and>
      list_all (\<lambda>l. ll_Stream l = stream_name st) (st_sending x) \<and>
      (st_closed x \<longrightarrow> st_pipe x = []) \<and>
      (st_ended x \<longrightarrow> st_closed x \<and> st_buf x = [] \<and> st_sending x = []))"

lemma cut_okD: "cut_ok bufsize st closed written sent rest \<Longrightarrow> stream_lines bufsize st written = untimed sent @ stream_lines bufsize st rest"
  unfolding cut_ok_def by (metis append_Nil2)

lemma cut_ok_write: "cut_ok bufsize st False written sent rest \<Longrightarrow> cut_ok bufsize st False (written @ payload) sent (rest @ payload)"
  unfolding cut_ok_def by (metis append_assoc)

lemma cut_ok_close: "cut_ok bufsize st closed written sent rest \<Longrightarrow> cut_ok bufsize st True written sent rest"
  unfolding cut_ok_def by blast

lemma cut_ok_line:
  assumes "cut_ok bufsize st closed written sent rest"
    and "\<And>ahead. (closed \<longrightarrow> ahead = []) \<Longrightarrow> stream_lines bufsize st (rest @ ahead) = untimed ls @ stream_lines bufsize st (rest' @ ahead)"
  shows "cut_ok bufsize st closed written (sent @ ls) rest'"
  using assms unfolding cut_ok_def by simp

lemma stream_new_inv: "stream_inv bufsize st [] stream_new"
  by (simp add: stream_inv_def stream_new_def received_from_def cut_ok_def)

lemma reader_step_inv:
  assumes "reader_step bufsize st x x'" and inv: "stream_inv bufsize st recv x"
  shows "stream_inv bufsize st recv x'"
  using assms(1)
proof cases
  case (fill chunk rest)
  with inv show ?thesis by (auto simp: stream_inv_def)
next
  case (line log rest now)
  let ?ls = "log_lines (stream_name st) now log"
  have len: "length (st_buf x) \<le> max 16 bufsize" using inv by (simp add: stream_inv_def)
  have "cut_ok bufsize st (st_closed x) (st_written x) ((received_from st recv @ st_sending x) @ ?ls) (rest @ st_pipe x)"
  proof (rule cut_ok_line)
    show "cut_ok bufsize st (st_closed x) (st_written x) (received_from st recv @ st_sending x) (st_buf x @ st_pipe x)"
      using inv by (simp add: stream_inv_def)
    show "stream_lines bufsize st ((st_buf x @ st_pipe x) @ ahead) = untimed ?ls @ stream_lines bufsize st ((rest @ st_pipe x) @ ahead)" for ahead
      using stream_lines_line [OF ReadLine_buffered [OF line(4) len line(5)]] by (simp add: untimed_log_lines)
  qed
  moreover have "length rest \<le> max 16 bufsize" using buffer_shrinks [OF line(5)] len by simp
  ultimately show ?thesis using line inv by (auto simp: stream_inv_def list_all_iff log_lines_stream)
next
  case (last_line now)
  let ?ls = "log_lines (stream_name st) now (st_buf x)"
  have p: "st_pipe x = []" using inv last_line by (simp add: stream_inv_def)
  have "cut_ok bufsize st True (st_written x) ((received_from st recv @ st_sending x) @ ?ls) []"
  proof (rule cut_ok_line)
    show "cut_ok bufsize st True (st_written x) (received_from st recv @ st_sending x) (st_buf x)"
      using inv last_line p by (simp add: stream_inv_def)
  qed (simp add: stream_lines_line [OF ReadLine_last [OF last_line(4,5)]] untimed_log_lines)
  with last_line inv p show ?thesis by (auto simp: stream_inv_def list_all_iff log_lines_stream)
next
  case at_end
  with inv show ?thesis by (auto simp: stream_inv_def)
qed

lemma stream_write_inv:
  "stream_inv bufsize st recv x \<Longrightarrow> st_pipe x = [] \<Longrightarrow> \<not> st_closed x
   \<Longrightarrow> stream_inv bufsize st recv (x\<lparr>st_written := st_written x @ payload, st_pipe := payload\<rparr>)"
  using cut_ok_write [of bufsize st "st_written x" _ "st_buf x"] by (simp add: stream_inv_def)

lemma stream_close_inv: "stream_inv bufsize st recv x \<Longrightarrow> st_pipe x = [] \<Longrightarrow> stream_inv bufsize st recv (x\<lparr>st_closed := True\<rparr>)"
  using cut_ok_close [of bufsize st "st_closed x"] by (simp add: stream_inv_def)

lemma stream_send_inv:
  "stream_inv bufsize st recv x \<Longrightarrow> st_sending x = l # ls \<Longrightarrow> stream_inv bufsize st (recv @ [l]) (x\<lparr>st_sending := ls\<rparr>)"
  by (simp add: stream_inv_def received_from_def)

lemma stream_other_inv:
  "stream_inv bufsize st recv x \<Longrightarrow> ll_Stream l = stream_name st' \<Longrightarrow> st \<noteq> st' \<Longrightarrow> stream_inv bufsize st (recv @ [l]) x"
  by (simp add: stream_inv_def received_from_def)

section \<open>The invariant\<close>

primrec demux_ok :: "demux \<Rightarrow> (std \<Rightarrow> StreamState) \<Rightarrow> bool" where
  "demux_ok DReading xs = (\<forall>st. \<not> st_closed (xs st) \<and> st_pipe (xs st) = [])"
| "demux_ok (DWriting st) xs = (\<forall>st'. \<not> st_closed (xs st') \<and> (st' \<noteq> st \<longrightarrow> st_pipe (xs st') = []))"
| "demux_ok (DClosing r sts) xs = (distinct sts \<and> (\<forall>st. (st_closed (xs st) \<longleftrightarrow> st \<notin> set sts) \<and> st_pipe (xs st) = []))"
| "demux_ok (DEnded r) xs = (\<forall>st. st_closed (xs st) \<and> st_pipe (xs st) = [])"

definition all_ended :: "LogState \<Rightarrow> bool" where
  "all_ended s = ((\<exists>r. ls_demux s = DEnded r) \<and> (\<forall>st. st_ended (ls_stream s st)))"

primrec remover_ok :: "remover \<Rightarrow> LogState \<Rightarrow> bool" where
  "remover_ok RIdle s = (\<not> ls_chanClosed s)"
| "remover_ok RClosing s = (\<not> ls_chanClosed s \<and> ls_draining s)"
| "remover_ok RWaiting s = (\<not> ls_chanClosed s \<and> ls_draining s \<and> ls_connClosed s)"
| "remover_ok (RDraining r) s = (ls_chanClosed s \<and> all_ended s \<and> (\<exists>r0. ls_demux s = DEnded r0 \<and> r = wait_result r0))"
| "remover_ok (RReturned r) s = (ls_chanClosed s \<longrightarrow> all_ended s \<and> (\<exists>r0. ls_demux s = DEnded r0 \<and> r = wait_result r0))"

text \<open>The frames are read in order, and a demultiplexer that ended without an error has read them all.\<close>

definition conn_inv :: "LogState \<Rightarrow> bool" where
  "conn_inv s =
     ((\<forall>st. st_written (ls_stream s st) @ frame_bytes st (ls_conn s) = frame_bytes st (ls_printed s)) \<and>
      ((\<exists>sts. ls_demux s = DClosing None sts) \<or> ls_demux s = DEnded None \<longrightarrow> ls_conn s = [] \<and> ls_connEnd s = Some None))"

definition log_inv :: "nat \<Rightarrow> LogState \<Rightarrow> bool" where
  "log_inv bufsize s =
     ((\<forall>st. stream_inv bufsize st (ls_received s) (ls_stream s st)) \<and> demux_ok (ls_demux s) (ls_stream s) \<and>
      remover_ok (ls_remover s) s \<and> conn_inv s \<and> \<not> ls_panicked s)"

lemma log_new_inv: "log_inv bufsize log_new"
  by (simp add: log_inv_def log_new_def stream_new_inv) (simp add: stream_new_def conn_inv_def)

lemma set_stream_simps [simp]:
  "ls_stream (set_stream st x s) = (ls_stream s)(st := x)" "ls_demux (set_stream st x s) = ls_demux s"
  "ls_remover (set_stream st x s) = ls_remover s" "ls_received (set_stream st x s) = ls_received s"
  "ls_chanClosed (set_stream st x s) = ls_chanClosed s" "ls_draining (set_stream st x s) = ls_draining s"
  "ls_panicked (set_stream st x s) = ls_panicked s" "ls_conn (set_stream st x s) = ls_conn s"
  "ls_printed (set_stream st x s) = ls_printed s" "ls_connEnd (set_stream st x s) = ls_connEnd s"
  "ls_connClosed (set_stream st x s) = ls_connClosed s" "ls_collecting (set_stream st x s) = ls_collecting s"
  by (simp_all add: set_stream_def)

text \<open>Once all goroutines have ended only \<open>Remove\<close> goes on.\<close>

lemma remover_ok_active:
  assumes "remover_ok (ls_remover s) s" and "\<not> all_ended s" and "ls_remover s' = ls_remover s"
    and "ls_chanClosed s' = ls_chanClosed s" and "ls_draining s' = ls_draining s" and "ls_connClosed s' = ls_connClosed s"
  shows "remover_ok (ls_remover s') s'"
  using assms by (cases "ls_remover s") auto

lemma demux_ok_reader: "reader_step bufsize st (xs st) x \<Longrightarrow> demux_ok d xs \<Longrightarrow> demux_ok d (xs(st := x))"
  by (erule reader_stepE; cases d) auto

lemma reader_step_active: "reader_step bufsize st (ls_stream s st) x \<Longrightarrow> \<not> all_ended s"
  by (erule reader_stepE) (auto simp: all_ended_def)

lemma sending_active: "stream_inv bufsize st recv (ls_stream s st) \<Longrightarrow> st_sending (ls_stream s st) = l # ls \<Longrightarrow> \<not> all_ended s"
  by (auto simp: stream_inv_def all_ended_def)

lemma all_std: "(\<forall>st. P st) \<longleftrightarrow> P Stdout \<and> P Stderr"
  by (metis std.exhaust)

lemmas log_invD = log_inv_def [THEN iffD1, THEN conjunct1, rule_format]
  log_inv_def [THEN iffD1, THEN conjunct2, THEN conjunct1]
  log_inv_def [THEN iffD1, THEN conjunct2, THEN conjunct2, THEN conjunct1]
  log_inv_def [THEN iffD1, THEN conjunct2, THEN conjunct2, THEN conjunct2, THEN conjunct1]
  log_inv_def [THEN iffD1, THEN conjunct2, THEN conjunct2, THEN conjunct2, THEN conjunct2]

lemma demux_step_conn:
  assumes "demux_step s s'" and inv: "conn_inv s"
  shows "conn_inv s'"
  using assms(1)
proof cases
  case (frame st payload rest x)
  have "st_written (ls_stream s' st') @ frame_bytes st' (ls_conn s') = frame_bytes st' (ls_printed s')" for st'
    using inv [unfolded conn_inv_def, THEN conjunct1, rule_format, of st'] frame by (auto split: if_splits)
  then show ?thesis by (simp add: conn_inv_def frame)
qed (use inv in \<open>auto simp: conn_inv_def demux_failed_def\<close>)

lemma demux_step_inv:
  assumes "demux_step s s'" and inv: "log_inv bufsize s"
  shows "log_inv bufsize s'"
proof -
  note I = log_invD [OF inv]
  have "remover_ok (ls_remover s') s'"
    by (rule remover_ok_active [OF I(3)]) (use assms(1) in \<open>auto simp: all_ended_def elim!: demux_step.cases\<close>)
  moreover have "demux_ok (ls_demux s') (ls_stream s')"
    using assms(1) I(2) by cases (auto simp: all_std fun_upd_def demux_failed_def split: if_splits)
  moreover have "stream_inv bufsize st (ls_received s') (ls_stream s' st)" for st
    using assms(1)
    by cases (use I(1) [of st] I(2) in \<open>auto intro: stream_write_inv stream_close_inv\<close>)
  moreover have "\<not> ls_panicked s'" using assms(1) I(5) by cases auto
  ultimately show ?thesis using demux_step_conn [OF assms(1) I(4)] by (simp add: log_inv_def)
qed

lemma remove_step_inv: "remove_step s s' \<Longrightarrow> log_inv bufsize s \<Longrightarrow> log_inv bufsize s'"
  by (erule remove_step.cases) (auto simp: log_inv_def conn_inv_def all_ended_def all_std)

lemma reader_step_written: "reader_step bufsize st x x' \<Longrightarrow> st_written x' = st_written x"
  by (erule reader_stepE) auto

lemma send_inv:
  assumes inv: "log_inv bufsize s" and x: "st_sending (ls_stream s st') = l # ls"
  shows "log_inv bufsize ((set_stream st' ((ls_stream s st')\<lparr>st_sending := ls\<rparr>) s)\<lparr>ls_received := ls_received s @ [l]\<rparr>)" (is "log_inv _ ?s'")
proof -
  note I = log_invD [OF inv]
  have l: "ll_Stream l = stream_name st'" using I(1) [of st'] x by (simp add: stream_inv_def)
  have "remover_ok (ls_remover ?s') ?s'"
    by (rule remover_ok_active [OF I(3)]) (use sending_active [OF I(1) x] in auto)
  moreover have "demux_ok (ls_demux ?s') (ls_stream ?s')" using I(2) by (cases "ls_demux s") (auto)
  moreover have "stream_inv bufsize st (ls_received ?s') (ls_stream ?s' st)" for st
    using I(1) x by (auto intro: stream_send_inv stream_other_inv [OF _ l])
  moreover have "conn_inv ?s'" using I(4) by (simp add: conn_inv_def)
  ultimately show ?thesis using I(5) by (simp add: log_inv_def)
qed

text \<open>Nothing is left to send when the channel is closed.\<close>

lemma closed_nothing_to_send: "log_inv bufsize s \<Longrightarrow> ls_chanClosed s \<Longrightarrow> st_sending (ls_stream s st) = []"
proof -
  assume inv: "log_inv bufsize s" and "ls_chanClosed s"
  with log_invD(3) [OF inv] have "all_ended s" by (cases "ls_remover s") auto
  with log_invD(1) [OF inv, of st] show ?thesis by (auto simp: stream_inv_def all_ended_def)
qed

lemma goroutine_step_inv:
  assumes inv: "log_inv bufsize s" and step: "goroutine_step bufsize s s'"
  shows "log_inv bufsize s'"
  using step
proof cases
  case (reader st x)
  note I = log_invD [OF inv]
  have "remover_ok (ls_remover s') s'"
    by (rule remover_ok_active [OF I(3) reader_step_active [OF reader(2)]]) (simp_all add: reader)
  moreover have "conn_inv s'" using I(4) reader_step_written [OF reader(2)] reader(1) by (simp add: conn_inv_def)
  moreover have "demux_ok (ls_demux s') (ls_stream s')" using demux_ok_reader [OF reader(2) I(2)] reader(1) by simp
  ultimately show ?thesis using reader(1) I(1,5) reader_step_inv [OF reader(2) I(1)] by (simp add: log_inv_def)
next
  case (send_closed st)
  with closed_nothing_to_send [OF inv] show ?thesis by simp
qed (use demux_step_inv [OF _ inv] remove_step_inv [OF _ inv] send_inv [OF inv] in blast)+

lemma log_step_inv:
  assumes "log_inv bufsize s" and "log_step bufsize s s'"
  shows "log_inv bufsize s'"
  using assms(2)
proof cases
  case goroutine
  with assms(1) show ?thesis by (rule goroutine_step_inv)
qed (use assms(1) in \<open>cases "ls_remover s"; auto simp: log_inv_def conn_inv_def all_ended_def\<close>)+

interpretation log_streams: transition_system "log_step bufsize" "log_inv bufsize" for bufsize
  by unfold_locales (rule log_step_inv)

section \<open>Removing a container ends\<close>

definition stream_work :: "StreamState \<Rightarrow> nat" where
  "stream_work x = 4 * length (st_pipe x) + 3 * length (st_buf x) + length (st_sending x) + (if st_ended x then 0 else 1)"

primrec demux_work :: "demux \<Rightarrow> nat" where
  "demux_work DReading = 4"
| "demux_work (DWriting st) = 5"
| "demux_work (DClosing r sts) = 1 + length sts"
| "demux_work (DEnded r) = 0"

definition frames_work :: "(std \<times> bytes) list \<Rightarrow> nat" where
  "frames_work frames = sum_list (map (\<lambda>(st, payload). 4 * length payload + 2) frames)"

primrec remover_work :: "remover \<Rightarrow> nat" where
  "remover_work RIdle = 4"
| "remover_work RClosing = 3"
| "remover_work RWaiting = 2"
| "remover_work (RDraining r) = 1"
| "remover_work (RReturned r) = 0"

definition log_work :: "LogState \<Rightarrow> nat" where
  "log_work s = demux_work (ls_demux s) + frames_work (ls_conn s) + stream_work (ls_stream s Stdout) + stream_work (ls_stream s Stderr)
     + remover_work (ls_remover s)"

lemma frames_work_simps [simp]: "frames_work [] = 0" "frames_work ((st, payload) # fs) = 4 * length payload + 2 + frames_work fs"
  by (simp_all add: frames_work_def)

lemma log_work_stream:
  assumes "ls_demux s' = ls_demux s" and "ls_conn s' = ls_conn s" and "ls_remover s' = ls_remover s"
    and "ls_stream s' = (ls_stream s)(st := x)" and "stream_work x < stream_work (ls_stream s st)"
  shows "log_work s' < log_work s"
  using assms by (cases st) (simp_all add: log_work_def)

lemma demux_step_work:
  assumes "demux_step s s'" and "demux_ok (ls_demux s) (ls_stream s)"
  shows "log_work s' < log_work s"
  using assms(1)
proof cases
  case (frame st payload rest x)
  then have "st_pipe (ls_stream s st) = []" using assms(2) by simp
  with frame show ?thesis by (cases st) (simp_all add: log_work_def stream_work_def)
next
  case (close_pipe r st sts)
  then show ?thesis by (cases st) (simp_all add: log_work_def stream_work_def)
qed (simp_all add: log_work_def demux_failed_def)

lemma reader_step_work: "reader_step bufsize st x x' \<Longrightarrow> stream_work x' < stream_work x"
proof (erule reader_stepE)
  fix log rest now
  assume "ReadLine (max 16 bufsize) (st_buf x) = Some (log, rest)" and "st_sending x = []"
    and "x' = x\<lparr>st_buf := rest, st_sending := log_lines (stream_name st) now log\<rparr>"
  with buffer_shrinks [of bufsize "st_buf x" log rest] length_log_lines [of "stream_name st" now log]
  show "stream_work x' < stream_work x" by (simp add: stream_work_def)
next
  fix now
  assume "st_buf x \<noteq> []" "st_sending x = []" "x' = x\<lparr>st_buf := [], st_sending := log_lines (stream_name st) now (st_buf x)\<rparr>"
  with length_log_lines [of "stream_name st" now "st_buf x"] show "stream_work x' < stream_work x"
    by (cases "st_buf x") (simp_all add: stream_work_def)
next
  fix chunk rest
  assume "st_pipe x = chunk @ rest" "chunk \<noteq> []" "x' = x\<lparr>st_buf := st_buf x @ chunk, st_pipe := rest\<rparr>"
  then show "stream_work x' < stream_work x" by (cases chunk) (simp_all add: stream_work_def)
qed (simp add: stream_work_def)

lemma remove_step_work: "remove_step s s' \<Longrightarrow> log_work s' < log_work s"
  by (erule remove_step.cases) (simp_all add: log_work_def)

lemma goroutine_step_work:
  assumes inv: "log_inv bufsize s" and step: "goroutine_step bufsize s s'"
  shows "log_work s' < log_work s"
  using step
proof cases
  case demux
  from demux_step_work [OF this log_invD(2) [OF inv]] show ?thesis .
next
  case (reader st x)
  show ?thesis by (rule log_work_stream [OF _ _ _ _ reader_step_work [OF reader(2)]]) (simp_all add: reader(1))
next
  case (send st l ls)
  have "stream_work ((ls_stream s st)\<lparr>st_sending := ls\<rparr>) < stream_work (ls_stream s st)" using send(2) by (simp add: stream_work_def)
  from log_work_stream [OF _ _ _ _ this, of s'] show ?thesis by (simp add: send(1))
next
  case (send_closed st)
  with closed_nothing_to_send [OF inv] show ?thesis by simp
next
  case remove
  then show ?thesis by (rule remove_step_work)
qed

interpretation goroutines: terminating_system "goroutine_step bufsize" "log_inv bufsize" log_work for bufsize
  by unfold_locales (rule goroutine_step_inv goroutine_step_work; assumption)+

text \<open>Where a goroutine can go on.\<close>

lemma reader_can_step:
  assumes "\<not> st_ended x" and "st_sending x = []" and "buffered bufsize (st_buf x) \<or> st_pipe x \<noteq> [] \<or> st_closed x"
  shows "\<exists>x'. reader_step bufsize st x x'"
proof -
  note step = reader_step.intros [OF assms(1,2)]
  consider (full) "buffered bufsize (st_buf x)" | (part) b bs where "\<not> buffered bufsize (st_buf x)" "st_pipe x = b # bs"
    | (last) "\<not> buffered bufsize (st_buf x)" "st_closed x" "st_buf x \<noteq> []" | (empty) "st_closed x" "st_buf x = []"
    using assms(3) by (cases "st_pipe x") auto
  then show ?thesis
  proof cases
    case full
    then have "st_buf x \<noteq> []" by (auto simp: buffered_def)
    then obtain log rest where "ReadLine (max 16 bufsize) (st_buf x) = Some (log, rest)" using ReadLine_some by blast
    from step(2) [OF full this] show ?thesis by blast
  next
    case part
    have "length (st_buf x @ [b]) \<le> max 16 bufsize" using part(1) by (auto simp: buffered_def)
    with step(1) [OF part(1), of "[b]" bs] part(2) show ?thesis by auto
  next
    case last
    from step(3) [OF last(1,3,2)] show ?thesis by blast
  next
    case empty
    from step(4) [OF empty(2,1)] show ?thesis by blast
  qed
qed

lemma demux_can_step:
  assumes "\<And>st. ls_demux s = DWriting st \<Longrightarrow> st_pipe (ls_stream s st) = []" and "\<And>r. ls_demux s \<noteq> DEnded r" and "ls_connClosed s"
  shows "\<exists>s'. demux_step s s'"
proof (cases "ls_demux s")
  case DReading
  from demux_step.copy_closed [OF this assms(3)] show ?thesis by blast
next
  case (DWriting st)
  from demux_step.written [OF this assms(1) [OF this]] show ?thesis by blast
next
  case (DClosing r sts)
  show ?thesis by (cases sts) (use DClosing demux_step.ended demux_step.close_pipe in blast)+
qed (use assms(2) in blast)

text \<open>While \<open>Remove\<close> waits, some goroutine can go on until all have ended; then \<open>Remove\<close> itself can.\<close>

lemma waiting_progress:
  assumes inv: "log_inv bufsize s" and w: "ls_remover s = RWaiting"
  shows "\<exists>s'. goroutine_step bufsize s s'"
proof -
  note I = log_invD [OF inv]
  from I(3) w have r: "\<not> ls_chanClosed s" "ls_draining s" "ls_connClosed s" by simp_all
  consider (sends) st l ls where "st_sending (ls_stream s st) = l # ls"
    | (reads) st where "\<not> st_ended (ls_stream s st)" "st_sending (ls_stream s st) = []"
        "buffered bufsize (st_buf (ls_stream s st)) \<or> st_pipe (ls_stream s st) \<noteq> [] \<or> st_closed (ls_stream s st)"
    | (idle) "\<And>st. st_sending (ls_stream s st) = []"
        "\<And>st. st_ended (ls_stream s st) \<or> st_pipe (ls_stream s st) = [] \<and> \<not> st_closed (ls_stream s st)"
    by (metis list.exhaust)
  then show ?thesis
  proof cases
    case sends
    from goroutine_step.send [where bufsize = bufsize, OF sends disjI2 [OF r(2)] r(1)] show ?thesis by blast
  next
    case reads
    from reader_can_step [OF reads] goroutine_step.reader show ?thesis by blast
  next
    case idle
    show ?thesis
    proof (cases "\<exists>res. ls_demux s = DEnded res")
      case True
      then obtain res where res: "ls_demux s = DEnded res" by blast
      with idle(2) I(2) have "st_ended (ls_stream s st)" for st by auto
      from goroutine_step.remove [OF remove_step.waited [OF w res this this]] show ?thesis by blast
    next
      case False
      have "st_pipe (ls_stream s st') = []" for st'
        using idle(2) [of st'] I(1) [of st'] by (auto simp: stream_inv_def)
      with demux_can_step [of s] False r(3) show ?thesis by (meson goroutine_step.demux)
    qed
  qed
qed

text \<open>From the moment the connection is closed \<open>Remove\<close> only stops where it returns.\<close>

definition removing :: "LogState \<Rightarrow> bool" where
  "removing s = (ls_remover s = RWaiting \<or> (\<exists>r. ls_remover s = RDraining r) \<or> (\<exists>r. ls_remover s = RReturned r \<and> ls_chanClosed s))"

lemma demux_step_remover: "demux_step s s' \<Longrightarrow> ls_remover s' = ls_remover s \<and> ls_chanClosed s' = ls_chanClosed s"
  by (erule demux_step.cases) auto

lemma remove_step_removing: "remove_step s s' \<Longrightarrow> log_inv bufsize s \<Longrightarrow> removing s \<Longrightarrow> removing s'"
  by (erule remove_step.cases) (auto simp: removing_def log_inv_def)

lemma removing_cong: "ls_remover s' = ls_remover s \<Longrightarrow> ls_chanClosed s' = ls_chanClosed s \<Longrightarrow> removing s' = removing s"
  by (simp add: removing_def)

lemma removing_goes_on:
  assumes "goroutine_step bufsize s s'" and "log_inv bufsize s" and "removing s"
  shows "removing s'"
  using assms(1)
proof cases
  case demux
  from removing_cong [of s' s] demux_step_remover [OF demux] assms(3) show ?thesis by simp
next
  case remove
  from remove_step_removing [OF this assms(2,3)] show ?thesis .
qed (use assms(3) in \<open>simp_all add: removing_def\<close>)

lemma removal_stuck:
  assumes inv: "log_inv bufsize s" and "removing s" and stuck: "\<And>t. \<not> goroutine_step bufsize s t"
  shows "all_ended s \<and> (\<exists>r. ls_demux s = DEnded r \<and> ls_remover s = RReturned (wait_result r))"
proof -
  have "ls_remover s \<noteq> RWaiting" using waiting_progress [OF inv] stuck by blast
  moreover have "ls_remover s \<noteq> RDraining r" for r using goroutine_step.remove [OF remove_step.drained] stuck by blast
  ultimately obtain r where "ls_remover s = RReturned r" "ls_chanClosed s" using assms(2) by (auto simp: removing_def)
  with log_invD(3) [OF inv] show ?thesis by auto
qed

section \<open>Theorems\<close>

text \<open>
  C24. The logs of a container, in every interleaving of the demultiplexer, the two readers, the invocations
  that collect lines and \<open>Remove\<close>. What the demultiplexer has written to a stream is the beginning of what the container
  printed there, and all of it when the demultiplexer ended without an error. The lines received from a stream are the first ones of
  its reference, the sequential cut of what was written, in this order and without a loss, and all of them once the reader
  has ended; nothing is sent on the closed channel. From the moment \<open>Remove\<close> has closed the connection and waits for the
  goroutines, it returns whatever their schedule and without help from the container, the daemon or an invocation: they have no
  infinite run, and a run stops only where all of them have ended and \<open>Remove\<close> has returned with the demultiplexer's
  error, unless that is the closed connection.
\<close>

theorem log_streams_delivered:
  assumes "rtranclp (log_step bufsize) log_new s"
  shows "\<not> ls_panicked s
    \<and> (\<forall>st. prefix (st_written (ls_stream s st)) (frame_bytes st (ls_printed s)))
    \<and> (ls_demux s = DEnded None \<longrightarrow> (\<forall>st. st_written (ls_stream s st) = frame_bytes st (ls_printed s)))
    \<and> (\<forall>st. prefix (untimed (received_from st (ls_received s))) (stream_lines bufsize st (st_written (ls_stream s st))))
    \<and> (\<forall>st. st_ended (ls_stream s st) \<longrightarrow>
         untimed (received_from st (ls_received s)) = stream_lines bufsize st (st_written (ls_stream s st)))
    \<and> (ls_remover s = RWaiting \<longrightarrow>
         (\<nexists>f. f 0 = s \<and> (\<forall>n. goroutine_step bufsize (f n) (f (Suc n)))) \<and>
         (\<forall>s'. rtranclp (goroutine_step bufsize) s s' \<and> (\<forall>t. \<not> goroutine_step bufsize s' t) \<longrightarrow>
            all_ended s' \<and> (\<exists>r. ls_demux s' = DEnded r \<and> ls_remover s' = RReturned (wait_result r))))"
proof -
  note inv = log_streams.reachable_inv [OF log_new_inv assms]
  note I = log_invD [OF inv]
  have cut: "stream_lines bufsize st (st_written (ls_stream s st)) =
      untimed (received_from st (ls_received s)) @ untimed (st_sending (ls_stream s st))
        @ stream_lines bufsize st (st_buf (ls_stream s st) @ st_pipe (ls_stream s st))" for st
    using cut_okD I(1) [of st] by (fastforce simp: stream_inv_def)
  have all: "untimed (received_from st (ls_received s)) = stream_lines bufsize st (st_written (ls_stream s st))"
    if "st_ended (ls_stream s st)" for st
    using cut [of st] that I(1) [of st] by (simp add: stream_inv_def)
  have first: "prefix (untimed (received_from st (ls_received s))) (stream_lines bufsize st (st_written (ls_stream s st)))" for st
    unfolding cut by simp
  have bytes: "frame_bytes st (ls_printed s) = st_written (ls_stream s st) @ frame_bytes st (ls_conn s)" for st
    using I(4) by (simp add: conn_inv_def)
  have "ls_demux s = DEnded None \<Longrightarrow> ls_conn s = []" using I(4) by (simp add: conn_inv_def)
  moreover have "all_ended s' \<and> (\<exists>r. ls_demux s' = DEnded r \<and> ls_remover s' = RReturned (wait_result r))"
    if "ls_remover s = RWaiting" "rtranclp (goroutine_step bufsize) s s'" "\<And>t. \<not> goroutine_step bufsize s' t" for s'
  proof -
    have "log_inv bufsize s' \<and> removing s'" using that(2)
      by (induction rule: rtranclp_induct) (use inv that(1) goroutine_step_inv removing_goes_on in \<open>auto simp: removing_def [of s]\<close>)
    with removal_stuck that(3) show ?thesis by blast
  qed
  moreover have "\<nexists>f. f 0 = s \<and> (\<forall>n. goroutine_step bufsize (f n) (f (Suc n)))"
    using goroutines.no_infinite_run [where bufsize = bufsize] inv by blast
  ultimately show ?thesis using I(5) bytes first all by simp
qed

text \<open>A container prints half a line and is removed: \<open>Remove\<close> returns, and the half line was received.\<close>

theorem log_streams_delivered_witness:
  "\<exists>s s' r. rtranclp (log_step 64) log_new s \<and> frame_bytes Stdout (ls_printed s) = ''hel'' \<and> ls_remover s = RWaiting \<and>
     rtranclp (goroutine_step 64) s s' \<and> all_ended s' \<and> ls_remover s' = RReturned r"
proof -
  let ?s1 = "log_new\<lparr>ls_conn := ls_conn log_new @ [(Stdout, ''hel'')], ls_printed := ls_printed log_new @ [(Stdout, ''hel'')]\<rparr>"
  let ?x = "ls_stream ?s1 Stdout"
  let ?s2 = "(set_stream Stdout (?x\<lparr>st_written := st_written ?x @ ''hel'', st_pipe := ''hel''\<rparr>) ?s1)\<lparr>ls_demux := DWriting Stdout, ls_conn := []\<rparr>"
  let ?s3 = "?s2\<lparr>ls_remover := RClosing, ls_draining := True\<rparr>"
  let ?s4 = "?s3\<lparr>ls_remover := RWaiting, ls_connClosed := True\<rparr>"
  note g = log_step.goroutine
  have "log_step 64 log_new ?s1" by (rule log_step.printed) (simp add: log_new_def)
  moreover have "log_step 64 ?s1 ?s2" by (rule g, rule goroutine_step.demux, rule demux_step.frame [OF _ _ refl]) (simp_all add: log_new_def)
  moreover have "log_step 64 ?s2 ?s3" by (rule g, rule goroutine_step.remove, rule remove_step.begins) (simp add: set_stream_def log_new_def)
  moreover have "log_step 64 ?s3 ?s4" by (rule g, rule goroutine_step.remove, rule remove_step.conn_closed) simp
  ultimately have steps: "rtranclp (log_step 64) log_new ?s4" by (meson converse_rtranclp_into_rtranclp rtranclp.rtrancl_refl)
  have w: "ls_remover ?s4 = RWaiting" by simp
  from goroutines.run_ends [OF log_streams.reachable_inv [OF log_new_inv steps]]
  obtain s' where s': "rtranclp (goroutine_step 64) ?s4 s'" "\<And>t. \<not> goroutine_step 64 s' t" by blast
  with log_streams_delivered [OF steps] w obtain r where "all_ended s'" "ls_remover s' = RReturned r" by blast
  moreover have "frame_bytes Stdout (ls_printed ?s4) = ''hel''" by (simp add: log_new_def)
  ultimately show ?thesis using steps w s'(1) by blast
qed

end
