(* ===== verification/Float64.thy ===== *)
theory Float64
  imports Prelude "HOL-Library.Log_Nat"
begin

text \<open>
  Go's \<open>float64\<close> as far as the billing formula needs it: every operation on finite numbers is
  the exact operation followed by a rounding to the nearest number with a mantissa of 53 bits, ties
  to the even mantissa (IEEE 754, \<open>roundTiesToEven\<close>). A finite number is its rational value, so
  that the sign of a zero is not represented, and the numbers of this development stay far below
  the overflow to an infinity. The lemmas are the two that error analysis rests on: the relative
  error of a rounding, and that integers of at most 53 bits are exact.
\<close>

section \<open>Rounding\<close>

text \<open>The exponent of the leading bit of a positive number.\<close>

definition binary_exponent :: "rat \<Rightarrow> int" where
  "binary_exponent x =
     (let (p, q) = quotient_of x; k = bitlen p - bitlen q in
      if 2 powi k \<le> x then k else k - 1)"

text \<open>The distance of neighbouring numbers; below \<open>2 ^ -1022\<close> the numbers are subnormal.\<close>

definition ulp :: "rat \<Rightarrow> rat" where
  "ulp x = 2 powi (max (binary_exponent \<bar>x\<bar>) (- 1022) - 52)"

definition round_even :: "rat \<Rightarrow> int" where
  "round_even x =
     (let f = \<lfloor>x\<rfloor>; d = x - of_int f in
      if d < 1 / 2 \<or> (d = 1 / 2 \<and> even f) then f else f + 1)"

definition float64 :: "rat \<Rightarrow> rat" where
  "float64 x = (if x = 0 then 0 else of_int (round_even (x / ulp x)) * ulp x)"

section \<open>The leading bit\<close>

lemma bitlen_power_bounds:
  assumes "0 < (n :: int)"
  shows "2 powi (bitlen n - 1) \<le> (of_int n :: rat)" and "of_int n < (2 :: rat) powi (bitlen n)"
proof -
  have pos: "1 \<le> bitlen n" using assms bitlen_ge_iff_power [of 1 n] by simp
  have l: "2 ^ nat (bitlen n - 1) \<le> n" and u: "n < 2 ^ nat (bitlen n)"
    using bitlen_bounds [OF assms] by auto
  have "of_int (2 ^ nat (bitlen n - 1)) \<le> (of_int n :: rat)" using l by (simp only: of_int_le_iff)
  then show "2 powi (bitlen n - 1) \<le> (of_int n :: rat)" using pos by (simp add: power_int_def)
  have "of_int n < (of_int (2 ^ nat (bitlen n)) :: rat)" using u by (simp only: of_int_less_iff)
  then show "of_int n < (2 :: rat) powi (bitlen n)" using pos by (simp add: power_int_def)
qed

lemma binary_exponent_bounds:
  assumes "0 < x"
  shows "2 powi (binary_exponent x) \<le> x" and "x < 2 powi (binary_exponent x + 1)"
proof -
  obtain p q where pq: "quotient_of x = (p, q)" by force
  have q: "0 < q" using quotient_of_denom_pos [OF pq] .
  have x: "x = of_int p / of_int q" using quotient_of_div [OF pq] .
  have p: "0 < p" using assms q unfolding x by (simp add: zero_less_divide_iff)
  define k where "k = bitlen p - bitlen q"
  have pow: "(2 :: rat) powi (bitlen p) = 2 powi k * 2 powi (bitlen q)"
    "(2 :: rat) powi (bitlen p - 1) = 2 powi (k - 1) * 2 powi (bitlen q)"
    "(2 :: rat) powi (k + 1) * 2 powi (bitlen q - 1) = 2 powi k * 2 powi (bitlen q)"
    by (simp_all add: k_def flip: power_int_add)
  have "2 powi (k - 1) * (of_int q :: rat) \<le> 2 powi (k - 1) * 2 powi (bitlen q)"
    using bitlen_power_bounds(2) [OF q] by simp
  also have "\<dots> \<le> of_int p" using bitlen_power_bounds(1) [OF p] pow(2) by simp
  finally have lower: "2 powi (k - 1) \<le> x" using q by (simp add: x pos_le_divide_eq)
  have "(of_int p :: rat) < 2 powi (k + 1) * 2 powi (bitlen q - 1)"
    using bitlen_power_bounds(2) [OF p] pow by simp
  also have "\<dots> \<le> 2 powi (k + 1) * of_int q" using bitlen_power_bounds(1) [OF q] by simp
  finally have upper: "x < 2 powi (k + 1)" using q by (simp add: x pos_divide_less_eq)
  have e: "binary_exponent x = (if 2 powi k \<le> x then k else k - 1)"
    by (simp add: binary_exponent_def pq k_def)
  show "2 powi (binary_exponent x) \<le> x" using lower by (simp add: e)
  show "x < 2 powi (binary_exponent x + 1)" using upper by (simp add: e)
qed

lemma binary_exponent_ge: "2 powi n \<le> x \<Longrightarrow> n \<le> binary_exponent x"
proof -
  assume n: "2 powi n \<le> x"
  then have "0 < x" by (rule less_le_trans [rotated]) simp
  then have "(2 :: rat) powi n < 2 powi (binary_exponent x + 1)"
    using n binary_exponent_bounds(2) by fastforce
  then show ?thesis using power_int_increasing [of "binary_exponent x + 1" n "2 :: rat"] by linarith
qed

lemma ulp_pos [simp]: "0 < ulp x"
  by (simp add: ulp_def)

lemma ulp_le:
  assumes "2 powi (- 1022) \<le> \<bar>x\<bar>"
  shows "ulp x * 2 ^ 52 \<le> \<bar>x\<bar>"
proof -
  have "- 1022 \<le> binary_exponent \<bar>x\<bar>" using binary_exponent_ge [OF assms] .
  then have "ulp x * 2 powi 52 = 2 powi (binary_exponent \<bar>x\<bar>)"
    using power_int_add [of "2 :: rat" "binary_exponent \<bar>x\<bar> - 52" 52] by (simp add: ulp_def max_absorb1)
  moreover have "0 < \<bar>x\<bar>" using assms by (rule less_le_trans [rotated]) simp
  ultimately show ?thesis using binary_exponent_bounds(1) [of "\<bar>x\<bar>"] by simp
qed

section \<open>The error of a rounding\<close>

lemma round_even_error: "\<bar>of_int (round_even x) - x\<bar> \<le> 1 / 2"
proof -
  have "of_int \<lfloor>x\<rfloor> \<le> x" "x < of_int \<lfloor>x\<rfloor> + 1" by linarith+
  then show ?thesis by (auto simp: round_even_def Let_def abs_le_iff)
qed

lemma round_even_of_int [simp]: "round_even (of_int n) = n"
  by (simp add: round_even_def)

lemma float64_error:
  assumes "2 powi (- 1022) \<le> \<bar>x\<bar>"
  shows "\<bar>float64 x - x\<bar> \<le> \<bar>x\<bar> / 2 ^ 53"
proof -
  have nz: "x \<noteq> 0" using assms by auto
  have "float64 x - x = (of_int (round_even (x / ulp x)) - x / ulp x) * ulp x"
    using nz ulp_pos [of x] by (simp add: float64_def left_diff_distrib del: ulp_pos)
  then have "\<bar>float64 x - x\<bar> = \<bar>of_int (round_even (x / ulp x)) - x / ulp x\<bar> * ulp x"
    by (simp add: abs_mult less_imp_le)
  also have "\<dots> \<le> 1 / 2 * ulp x"
    by (rule mult_right_mono [OF round_even_error]) (simp add: less_imp_le)
  also have "\<dots> \<le> \<bar>x\<bar> / 2 ^ 53" using ulp_le [OF assms] by simp
  finally show ?thesis .
qed

text \<open>A number that is a multiple of its \<open>ulp\<close> is not changed.\<close>

lemma float64_exact: "x = of_int m * ulp x \<Longrightarrow> float64 x = x"
  by (metis float64_def less_numeral_extra(3) nonzero_mult_div_cancel_right round_even_of_int ulp_pos)

lemma float64_of_int [simp]:
  assumes "\<bar>n\<bar> < 2 ^ 53"
  shows "float64 (of_int n) = of_int n"
proof (cases "n = 0")
  case True
  then show ?thesis by (simp add: float64_def)
next
  case False
  define e where "e = binary_exponent \<bar>of_int n\<bar>"
  have e0: "0 \<le> e" unfolding e_def by (rule binary_exponent_ge) (use False in simp)
  have "(2 :: rat) powi e \<le> \<bar>of_int n\<bar>" unfolding e_def by (rule binary_exponent_bounds) (use False in simp)
  also have "\<dots> < 2 powi 53"
  proof -
    have "\<bar>of_int n\<bar> = (of_int \<bar>n\<bar> :: rat)" by simp
    also have "\<dots> < of_int (2 ^ 53)" using assms by (simp only: of_int_less_iff)
    finally show ?thesis by simp
  qed
  finally have "(2 :: rat) powi e < 2 powi 53" .
  then have e52: "e \<le> 52" using power_int_increasing [of 53 e "2 :: rat"] by linarith
  have ulp: "ulp (of_int n) = 2 powi (e - 52)" using e0 by (simp add: ulp_def e_def)
  have "(of_int (2 ^ nat (52 - e)) :: rat) * 2 powi (e - 52) = 2 powi (52 - e) * 2 powi (e - 52)"
    using e52 by (simp add: power_int_def)
  also have "\<dots> = 1" by (simp flip: power_int_add)
  finally have "of_int n = of_int (n * 2 ^ nat (52 - e)) * ulp (of_int n)"
    unfolding ulp by (simp add: mult.assoc)
  then show ?thesis by (rule float64_exact)
qed

lemma float64_0 [simp]: "float64 0 = 0"
  by (simp add: float64_def)

end
