(* ===== verification/Billing.thy ===== *)
theory Billing
  imports Entities Float64
begin

text \<open>
  The billing formula \<open>GigabyteSeconds\<close> of \<open>pkg/units/units.go\<close> with its floating-point
  operations in the order of the source, and the annotation \<open>gbs\<close> of an activation that carries
  its value. The reference is the formula of the source's comment on exact numbers: megabytes times
  the number of started 100 ms quanta, divided by 10240.
\<close>

section \<open>The formula\<close>

text \<open>\<open>math.Ceil\<close> of a finite number is an integer, which is a \<open>float64\<close> again.\<close>

definition quanta :: "Duration \<Rightarrow> int" where
  "quanta duration =
     \<lceil>float64 (float64 (float64 (of_int duration) / float64 (of_int Millisecond)) / float64 100)\<rceil>"

definition gbs_quotient :: "ByteSize \<Rightarrow> Duration \<Rightarrow> rat" where
  "gbs_quotient memory duration =
     float64 (float64 (of_int (uint (memory div Megabyte))) * of_int (quanta duration)) / float64 10240"

definition GigabyteSeconds :: "ByteSize \<Rightarrow> Duration \<Rightarrow> rat" where
  "GigabyteSeconds memory duration = float64 (gbs_quotient memory duration)"

text \<open>The same number with its mantissa and exponent, as an annotation holds it.\<close>

definition any_float :: "rat \<Rightarrow> any" where
  "any_float x =
     (if x = 0 then AFloat 0 0
      else AFloat (round_even (x / ulp x)) (max (binary_exponent \<bar>x\<bar>) (- 1022) - 52))"

definition GigabyteSeconds_any :: "ByteSize \<Rightarrow> Duration \<Rightarrow> any" where
  "GigabyteSeconds_any memory duration = any_float (gbs_quotient memory duration)"

section \<open>The reference\<close>

definition started_quanta :: "Duration \<Rightarrow> int" where
  "started_quanta duration = \<lceil>of_int duration / of_int (100 * Millisecond) :: rat\<rceil>"

definition exact_gbs :: "ByteSize \<Rightarrow> Duration \<Rightarrow> rat" where
  "exact_gbs memory duration = of_int (uint (memory div Megabyte)) * of_int (started_quanta duration) / 10240"

section \<open>Lemmas\<close>

lemma any_float_value:
  "\<exists>m e. any_float x = AFloat m e \<and> of_int m * 2 powi e = float64 x"
  by (auto simp: any_float_def float64_def ulp_def)

text \<open>A number below the threshold of the subnormal numbers does not occur: it would not be a quotient
  of an integer by a number of that size.\<close>

lemma normal_ge:
  assumes "1 / 10 ^ 9 \<le> (x :: rat)"
  shows "2 powi (- 1022) \<le> x"
proof -
  have "(2 :: rat) powi (- 1022) \<le> 2 powi (- 30)" by (rule power_int_increasing) auto
  also have "\<dots> \<le> 1 / 10 ^ 9" by (simp add: power_int_minus)
  finally show ?thesis using assms by linarith
qed

lemma float64_numerals [simp]: "float64 100 = 100" "float64 10240 = 10240" "float64 1000000 = 1000000"
  using float64_of_int [of 100] float64_of_int [of 10240] float64_of_int [of 1000000] by simp_all

lemma ceiling_unique_near:
  fixes x y :: rat and d m :: int
  assumes m: "0 < m" and x: "x = of_int d / of_int m" and near: "\<bar>y - x\<bar> < 1 / of_int m"
    and exact: "m dvd d \<Longrightarrow> y = x"
  shows "\<lceil>y\<rceil> = \<lceil>x\<rceil>"
proof (cases "m dvd d")
  case True
  then show ?thesis using exact by simp
next
  case False
  define n where "n = d div m"
  define r where "r = d mod m"
  have r: "1 \<le> r" "r \<le> m - 1"
    using False pos_mod_sign [OF m, of d] pos_mod_bound [OF m, of d]
    unfolding r_def dvd_eq_mod_eq_0 by linarith+
  have d: "d = n * m + r" by (simp add: n_def r_def)
  have x': "x = of_int n + of_int r / of_int m" using m by (simp add: x d field_simps)
  have r': "1 / of_int m \<le> (of_int r / of_int m :: rat)" "(of_int r / of_int m :: rat) \<le> 1 - 1 / of_int m"
    using r m by (simp_all add: field_simps flip: of_int_add of_int_diff)
  have "of_int n < y" "y < of_int n + 1" "of_int n < x" "x < of_int n + 1"
    using near r' m r by (auto simp: abs_less_iff x')
  then have "\<lceil>y\<rceil> = n + 1" "\<lceil>x\<rceil> = n + 1" by (simp_all add: ceiling_eq_iff)
  then show ?thesis by simp
qed

lemma quanta_near:
  assumes d: "\<bar>d\<bar> < 2 ^ 52" "d \<noteq> 0"
  shows "\<bar>float64 (float64 (of_int d / 1000000) / 100) - of_int d / of_int (10 ^ 8)\<bar> < 1 / of_int (10 ^ 8)"
proof -
  define D :: rat where "D = \<bar>of_int d\<bar>"
  have "D = of_int \<bar>d\<bar>" by (simp add: D_def)
  moreover have "of_int 1 \<le> (of_int \<bar>d\<bar> :: rat)" "(of_int \<bar>d\<bar> :: rat) \<le> of_int (2 ^ 52 - 1)"
    using d by (simp_all only: of_int_le_iff)
  ultimately have D: "1 \<le> D" "D \<le> 2 ^ 52 - 1" by simp_all
  define a where "a = float64 (of_int d / 1000000)"
  define b where "b = float64 (a / 100)"
  have "\<bar>of_int d / 1000000 :: rat\<bar> = D / 1000000" by (simp add: D_def)
  moreover have "1 / 10 ^ 9 \<le> D / 1000000" using D by simp
  ultimately have a: "\<bar>a - of_int d / 1000000\<bar> \<le> D / 1000000 / 2 ^ 53"
    using float64_error [OF normal_ge] unfolding a_def by metis
  then have a_bounds: "D / 2000000 \<le> \<bar>a\<bar>" "\<bar>a\<bar> \<le> D / 1000000 + D / 1000000 / 2 ^ 53"
    using D(1) unfolding D_def by (auto simp: abs_if split: if_splits)
  have "1 / 10 ^ 9 \<le> \<bar>a / 100\<bar>" using a_bounds D(1) by simp
  then have "\<bar>b - a / 100\<bar> \<le> \<bar>a\<bar> / 100 / 2 ^ 53"
    using float64_error [OF normal_ge] unfolding b_def by fastforce
  then have "\<bar>b - of_int d / 100000000\<bar> \<le> \<bar>a\<bar> / 100 / 2 ^ 53 + D / 100000000 / 2 ^ 53"
    using a by linarith
  also have "\<dots> < 1 / 100000000" using a_bounds(2) D by simp
  finally show ?thesis by (simp add: a_def b_def)
qed

lemma quanta_exact:
  assumes "\<bar>d\<bar> < 2 ^ 52"
  shows "quanta d = started_quanta d"
proof (cases "d = 0")
  case False
  have f: "float64 (of_int d) = of_int d" using assms by (intro float64_of_int) simp
  have q: "quanta d = \<lceil>float64 (float64 (of_int d / 1000000) / 100)\<rceil>"
    by (simp add: quanta_def f Millisecond_def)
  have s: "started_quanta d = \<lceil>of_int d / of_int (10 ^ 8) :: rat\<rceil>"
    by (simp add: started_quanta_def Millisecond_def)
  show ?thesis unfolding q s
  proof (rule ceiling_unique_near [OF _ refl quanta_near [OF assms False]])
    assume "10 ^ 8 dvd d"
    then obtain n where n: "d = 10 ^ 8 * n" ..
    have n1: "float64 (of_int (100 * n)) = of_int (100 * n)" "float64 (of_int n) = of_int n"
      using assms unfolding n by (intro float64_of_int, simp)+
    then show "float64 (float64 (of_int d / 1000000) / 100) = of_int d / of_int (10 ^ 8)"
      by (simp add: n)
  qed simp
qed (simp add: quanta_def started_quanta_def)

text \<open>
  C17. For durations below \<open>2 ^ 52\<close> nanoseconds (52 days) the three roundings before
  \<open>math.Ceil\<close> never change the number of billed quanta: it is the number of started 100 ms
  intervals, not one more or less. As long as megabytes times quanta is below \<open>2 ^ 53\<close>, the
  billed value is the exact value of the formula, rounded once: its relative error is at most
  \<open>2 ^ -53\<close>.
\<close>

theorem GigabyteSeconds_rounded_once:
  assumes d: "\<bar>duration\<bar> < 2 ^ 52"
    and m: "uint (memory div Megabyte) * \<bar>started_quanta duration\<bar> < 2 ^ 53"
  shows "quanta duration = started_quanta duration
    \<and> GigabyteSeconds memory duration = float64 (exact_gbs memory duration)
    \<and> \<bar>GigabyteSeconds memory duration - exact_gbs memory duration\<bar> \<le> \<bar>exact_gbs memory duration\<bar> / 2 ^ 53"
proof -
  define M where "M = uint (memory div Megabyte)"
  define n where "n = M * started_quanta duration"
  have "M \<le> M * \<bar>started_quanta duration\<bar>" if "started_quanta duration \<noteq> 0"
    using that mult_left_mono [of 1 "\<bar>started_quanta duration\<bar>" M] by (simp add: M_def)
  then have prod: "float64 (float64 (of_int M) * of_int (started_quanta duration)) = of_int n"
    using m float64_of_int [of M] float64_of_int [of n]
    by (cases "started_quanta duration = 0") (auto simp: M_def n_def abs_mult)
  have e: "exact_gbs memory duration = of_int n / 10240"
    by (simp add: exact_gbs_def M_def n_def)
  then have g: "GigabyteSeconds memory duration = float64 (exact_gbs memory duration)"
    using prod unfolding e by (simp add: GigabyteSeconds_def gbs_quotient_def quanta_exact [OF d] M_def)
  have "\<bar>float64 (of_int n / 10240) - of_int n / 10240\<bar> \<le> \<bar>of_int n / 10240\<bar> / 2 ^ 53"
  proof (cases "n = 0")
    case False
    then have "1 \<le> \<bar>of_int n :: rat\<bar>" by simp
    then have "1 / 10 ^ 9 \<le> \<bar>of_int n / 10240 :: rat\<bar>" by simp
    then show ?thesis by (intro float64_error normal_ge)
  qed simp
  then show ?thesis using quanta_exact [OF d] unfolding g e by blast
qed

theorem GigabyteSeconds_rounded_once_witness:
  "quanta 123000000 = 2 \<and> GigabyteSeconds (128 * Megabyte) 123000000 = float64 (1 / 40)"
proof -
  have s: "started_quanta 123000000 = 2"
    by (simp add: started_quanta_def Millisecond_def ceiling_eq_iff)
  have m: "uint (128 * Megabyte div Megabyte) = 128" by (simp add: Megabyte_def)
  have e: "exact_gbs (128 * Megabyte) 123000000 = 1 / 40" by (simp add: exact_gbs_def s m)
  show ?thesis using GigabyteSeconds_rounded_once [of 123000000 "128 * Megabyte"] unfolding e by (simp add: s m)
qed

text \<open>What a marshalled activation carries: the annotation \<open>gbs\<close> is the rounded value of the formula.\<close>

theorem gbs_annotation:
  assumes "\<not> HasPrefix (af_Path (act_Function a)) ''fnsystem/builder''"
  shows "\<exists>m e. map_of (schema_annotations GigabyteSeconds_any a) ''gbs'' = Some (AFloat m e)
    \<and> of_int m * 2 powi e = GigabyteSeconds (lim_Memory (af_Limits (act_Function a))) (act_End a - act_Start a)"
  using assms any_float_value [of "gbs_quotient (lim_Memory (af_Limits (act_Function a))) (act_End a - act_Start a)"]
  by (simp add: schema_annotations_def Activation_GigabyteSeconds_def GigabyteSeconds_any_def
      GigabyteSeconds_def update_conv' Let_def)

end
