(* ===== verification/Batcher.thy ===== *)
theory Batcher
  imports Entities Transition
begin

text \<open>
  \<open>pkg/couchdb/batcher.go\<close>: activations are written to the database in batches.

  The state holds the channel of marshalled activations, the workers with their batches and the
  goroutine that flushes them in an interval. \<open>WriteDocuments\<close> only fails with a message in the
  log, so what matters of it is the batch it is called with: \<open>ab_flushed\<close> lists these batches.
  \<open>ab_accepted\<close> lists the documents that were sent to the channel. A worker holds its mutex while
  it adds or flushes, so these are single steps.
\<close>

definition flushInterval :: Duration where "flushInterval = 3 * Second"

definition flushBytes :: ByteSize where "flushBytes = 5 * Megabyte"

record worker =
  wk_batch :: "bytes list"
  wk_batchSize :: ByteSize
  wk_done :: bool

datatype ticker = TkIdle | TkFlushing nat | TkStopped

record ActivationBatcher =
  ab_activations :: "bytes list"
  ab_capacity :: nat
  ab_closed :: bool
  ab_doneCh :: bool
  ab_workers :: "worker list"
  ab_ticker :: ticker
  ab_accepted :: "bytes list"
  ab_flushed :: "bytes list list"

section \<open>Operations\<close>

definition NewActivationBatcher :: "nat \<Rightarrow> ActivationBatcher" where
  "NewActivationBatcher workers =
     \<lparr>ab_activations = [], ab_capacity = workers, ab_closed = False, ab_doneCh = False,
      ab_workers = replicate workers \<lparr>wk_batch = [], wk_batchSize = 0, wk_done = False\<rparr>,
      ab_ticker = TkIdle, ab_accepted = [], ab_flushed = []\<rparr>"

text \<open>
  The document that \<open>WriteActivation\<close> sends: the closing bracket is cut off and the ID added.
  Slicing the empty slice panics.
\<close>

definition document :: "bytes result \<Rightarrow> string \<Rightarrow> string \<Rightarrow> bytes result outcome" where
  "document marshalled ns aid =
     (case marshalled of
        Inl err \<Rightarrow> Returns (Inl (Errorf ''failed to marshal activation: %w'' [err]))
      | Inr bs \<Rightarrow>
          (if bs = [] then Panics ''slice bounds out of range''
           else Returns (Inr (butlast bs @ '',\"_id\":\"'' @ ns @ ''/'' @ aid @ ''\"}''))))"

text \<open>
  \<open>WriteActivation\<close>: a send on the channel blocks while it is full and panics once it is closed.
\<close>

definition send_activation :: "bytes \<Rightarrow> ActivationBatcher \<Rightarrow> ActivationBatcher outcome" where
  "send_activation d s =
     (if ab_closed s then Panics ''send on closed channel''
      else if length (ab_activations s) < ab_capacity s then
        Returns (s\<lparr>ab_activations := ab_activations s @ [d], ab_accepted := ab_accepted s @ [d]\<rparr>)
      else Blocks)"

definition WriteActivation ::
  "bytes result \<Rightarrow> string \<Rightarrow> string \<Rightarrow> ActivationBatcher \<Rightarrow> (go_error option \<times> ActivationBatcher) outcome" where
  "WriteActivation marshalled ns aid s =
     (case document marshalled ns aid of
        Returns (Inl err) \<Rightarrow> Returns (Some err, s)
      | Returns (Inr bs) \<Rightarrow>
          (case send_activation bs s of
             Returns s' \<Rightarrow> Returns (None, s')
           | Panics msg \<Rightarrow> Panics msg
           | Blocks \<Rightarrow> Blocks)
      | Panics msg \<Rightarrow> Panics msg
      | Blocks \<Rightarrow> Blocks)"

text \<open>\<open>flush\<close>: the batch that is written, if any, and the empty worker.\<close>

definition flush :: "worker \<Rightarrow> bytes list list \<times> worker" where
  "flush w =
     (if length (wk_batch w) = 0 then ([], w)
      else ([wk_batch w], w\<lparr>wk_batch := [], wk_batchSize := 0\<rparr>))"

text \<open>One round of the loop in \<open>run\<close>.\<close>

definition worker_add :: "bytes \<Rightarrow> worker \<Rightarrow> bytes list list \<times> worker" where
  "worker_add activation w =
     (let bytesInActivation = of_nat (length activation) :: ByteSize;
          (fl, w1) = (if wk_batchSize w + bytesInActivation > flushBytes then flush w else ([], w))
      in (fl, w1\<lparr>wk_batch := wk_batch w1 @ [activation], wk_batchSize := wk_batchSize w1 + bytesInActivation\<rparr>))"

definition update_worker :: "nat \<Rightarrow> bytes list list \<times> worker \<Rightarrow> ActivationBatcher \<Rightarrow> ActivationBatcher" where
  "update_worker i r s = s\<lparr>ab_workers := (ab_workers s)[i := snd r], ab_flushed := ab_flushed s @ fst r\<rparr>"

text \<open>
  The steps: \<open>WriteActivation\<close> sends a document, a worker receives one, the interval goroutine
  flushes the workers one after the other, \<open>Shutdown\<close> closes the two channels, and a worker ends
  with a last flush once the closed channel is empty.
\<close>

inductive batcher_step :: "ActivationBatcher \<Rightarrow> ActivationBatcher \<Rightarrow> bool" where
  send: "WriteActivation marshalled ns aid s = Returns (err, s') \<Longrightarrow> batcher_step s s'"
| receive: "ab_activations s = d # rest \<Longrightarrow> i < length (ab_workers s) \<Longrightarrow> \<not> wk_done (ab_workers s ! i)
    \<Longrightarrow> batcher_step s (update_worker i (worker_add d (ab_workers s ! i)) (s\<lparr>ab_activations := rest\<rparr>))"
| tick: "ab_ticker s = TkIdle \<Longrightarrow> batcher_step s (s\<lparr>ab_ticker := TkFlushing 0\<rparr>)"
| tick_flush: "ab_ticker s = TkFlushing i \<Longrightarrow> i < length (ab_workers s)
    \<Longrightarrow> batcher_step s (update_worker i (flush (ab_workers s ! i)) (s\<lparr>ab_ticker := TkFlushing (Suc i)\<rparr>))"
| tick_end: "ab_ticker s = TkFlushing i \<Longrightarrow> i = length (ab_workers s) \<Longrightarrow> batcher_step s (s\<lparr>ab_ticker := TkIdle\<rparr>)"
| stop: "ab_ticker s = TkIdle \<Longrightarrow> ab_doneCh s \<Longrightarrow> batcher_step s (s\<lparr>ab_ticker := TkStopped\<rparr>)"
| close_done: "\<not> ab_doneCh s \<Longrightarrow> batcher_step s (s\<lparr>ab_doneCh := True\<rparr>)"
| close_activations: "ab_doneCh s \<Longrightarrow> \<not> ab_closed s \<Longrightarrow> batcher_step s (s\<lparr>ab_closed := True\<rparr>)"
| finish: "ab_activations s = [] \<Longrightarrow> ab_closed s \<Longrightarrow> i < length (ab_workers s) \<Longrightarrow> \<not> wk_done (ab_workers s ! i)
    \<Longrightarrow> batcher_step s (update_worker i (map_prod id (wk_done_update (\<lambda>_. True)) (flush (ab_workers s ! i))) s)"

inductive_cases batcher_stepE: "batcher_step s s'"

text \<open>A call of \<open>WriteActivation\<close> that returns has sent a document or failed to marshal one.\<close>

lemma WriteActivation_cases:
  assumes "WriteActivation marshalled ns aid s = Returns (err, s')"
  obtains "s' = s" | d where "\<not> ab_closed s" "length (ab_activations s) < ab_capacity s"
    "s' = s\<lparr>ab_activations := ab_activations s @ [d], ab_accepted := ab_accepted s @ [d]\<rparr>"
proof (cases "\<exists>d. document marshalled ns aid = Returns (Inr d)")
  case True
  then obtain d where "document marshalled ns aid = Returns (Inr d)" ..
  with assms that(2) [of d] show thesis
    by (simp add: WriteActivation_def send_activation_def split: outcome.splits if_splits)
next
  case False
  with assms that(1) show thesis by (auto simp: WriteActivation_def split: outcome.splits sum.splits)
qed

text \<open>\<open>Shutdown\<close> returns when all goroutines have ended.\<close>

definition shut_down :: "ActivationBatcher \<Rightarrow> bool" where
  "shut_down s = (ab_closed s \<and> ab_ticker s = TkStopped \<and> list_all wk_done (ab_workers s))"

section \<open>Refinement of a bag\<close>

text \<open>
  The specification: a bag of accepted documents that are not written yet, and the documents
  that were written. Documents are accepted one by one and written in batches.
\<close>

record bag =
  bag_pending :: "bytes multiset"
  bag_written :: "bytes multiset"

inductive bag_step :: "bag \<Rightarrow> bag \<Rightarrow> bool" where
  accept: "bag_step b (b\<lparr>bag_pending := add_mset d (bag_pending b)\<rparr>)"
| written: "ds \<noteq> [] \<Longrightarrow> mset ds \<subseteq># bag_pending b
    \<Longrightarrow> bag_step b \<lparr>bag_pending = bag_pending b - mset ds, bag_written = bag_written b + mset ds\<rparr>"

definition batches :: "worker list \<Rightarrow> bytes list" where
  "batches ws = concat (map wk_batch ws)"

definition bag_of :: "ActivationBatcher \<Rightarrow> bag" where
  "bag_of s = \<lparr>bag_pending = mset (ab_activations s) + mset (batches (ab_workers s)), bag_written = mset (concat (ab_flushed s))\<rparr>"

lemma mset_batches_update:
  assumes "i < length ws"
  shows "mset (batches (ws[i := w])) + mset (wk_batch (ws ! i)) = mset (batches ws) + mset (wk_batch w)"
  using mset_concat_map_update [OF assms] by (simp add: batches_def)

lemma flush_mset: "flush w = (fl, w') \<Longrightarrow> mset (concat fl) + mset (wk_batch w') = mset (wk_batch w) \<and> (fl = [] \<or> fl = [wk_batch w] \<and> wk_batch w \<noteq> [])"
  by (auto simp: flush_def split: if_splits)

lemma worker_add_mset:
  "worker_add d w = (fl, w') \<Longrightarrow>
   mset (concat fl) + mset (wk_batch w') = add_mset d (mset (wk_batch w)) \<and> (fl = [] \<or> fl = [wk_batch w] \<and> wk_batch w \<noteq> [])"
  by (auto simp: worker_add_def flush_def Let_def split: if_splits)

lemma update_worker_sel [simp]:
  "ab_activations (update_worker i r s) = ab_activations s" "ab_closed (update_worker i r s) = ab_closed s"
  "ab_doneCh (update_worker i r s) = ab_doneCh s" "ab_ticker (update_worker i r s) = ab_ticker s"
  "ab_accepted (update_worker i r s) = ab_accepted s" "ab_capacity (update_worker i r s) = ab_capacity s"
  "ab_workers (update_worker i r s) = (ab_workers s)[i := snd r]" "ab_flushed (update_worker i r s) = ab_flushed s @ fst r"
  by (simp_all add: update_worker_def)

text \<open>What a worker writes was pending.\<close>

lemma written_step:
  assumes "bag_pending b + mset ds = pend" and "bag_written b = wr + mset ds" and "ds \<noteq> []"
  shows "bag_step \<lparr>bag_pending = pend, bag_written = wr\<rparr> b"
proof -
  have "mset ds \<subseteq># pend" using assms(1) by auto
  from bag_step.written [OF assms(3), of "\<lparr>bag_pending = pend, bag_written = wr\<rparr>"] this
  have "bag_step \<lparr>bag_pending = pend, bag_written = wr\<rparr> \<lparr>bag_pending = pend - mset ds, bag_written = wr + mset ds\<rparr>" by simp
  moreover have "\<lparr>bag_pending = pend - mset ds, bag_written = wr + mset ds\<rparr> = b" using assms(1,2) by auto
  ultimately show ?thesis by simp
qed

lemma worker_moves:
  assumes "i < length (ab_workers s)"
    and "mset (concat fl) + mset (wk_batch w') = mset ds + mset (wk_batch (ab_workers s ! i))"
    and "ab_activations s = ds @ rest"
  shows "mset rest + mset (batches ((ab_workers s)[i := w'])) + mset (concat fl) = mset (ab_activations s) + mset (batches (ab_workers s))"
proof -
  let ?w = "ab_workers s ! i" and ?ws = "(ab_workers s)[i := w']"
  have "mset (batches ?ws) + mset (wk_batch ?w) + mset (concat fl) = mset (batches (ab_workers s)) + (mset ds + mset (wk_batch ?w))"
    using mset_batches_update [OF assms(1), of w'] assms(2) by (simp add: ac_simps)
  then show ?thesis using assms(3) by (simp add: ac_simps)
qed

lemma worker_refines:
  assumes "i < length (ab_workers s)"
    and "mset (concat fl) + mset (wk_batch w') = mset ds + mset (wk_batch (ab_workers s ! i))"
    and "fl = [] \<or> fl = [wk_batch (ab_workers s ! i)] \<and> wk_batch (ab_workers s ! i) \<noteq> []"
    and "ab_activations s = ds @ rest"
  shows "bag_step (bag_of s) (bag_of (update_worker i (fl, w') (s\<lparr>ab_activations := rest\<rparr>))) \<or>
    bag_of s = bag_of (update_worker i (fl, w') (s\<lparr>ab_activations := rest\<rparr>))"
proof -
  note p = worker_moves [OF assms(1,2,4)]
  show ?thesis
  proof (cases "fl = []")
    case True
    with p show ?thesis by (simp add: bag_of_def)
  next
    case False
    with assms(3) have "concat fl \<noteq> []" by auto
    with p have "bag_step (bag_of s) (bag_of (update_worker i (fl, w') (s\<lparr>ab_activations := rest\<rparr>)))"
      unfolding bag_of_def by (intro written_step [of _ "concat fl"]) simp_all
    then show ?thesis ..
  qed
qed

lemma batcher_step_refines:
  assumes "batcher_step s s'"
  shows "bag_step (bag_of s) (bag_of s') \<or> bag_of s = bag_of s'"
  using assms
proof cases
  case (send m ns aid err)
  then show ?thesis
  proof (cases rule: WriteActivation_cases)
    case (2 d)
    then show ?thesis using bag_step.accept [of "bag_of s" d] by (simp add: bag_of_def)
  qed simp
next
  case (receive d rest i)
  then show ?thesis
    using worker_refines [of i s "fst (worker_add d (ab_workers s ! i))" "snd (worker_add d (ab_workers s ! i))" "[d]" rest]
      worker_add_mset [of d "ab_workers s ! i" "fst (worker_add d (ab_workers s ! i))" "snd (worker_add d (ab_workers s ! i))"]
    by simp
next
  case (tick_flush i)
  then show ?thesis
    using worker_refines [of i "s\<lparr>ab_ticker := TkFlushing (Suc i)\<rparr>" "fst (flush (ab_workers s ! i))" "snd (flush (ab_workers s ! i))" "[]" "ab_activations s"]
      flush_mset [of "ab_workers s ! i" "fst (flush (ab_workers s ! i))" "snd (flush (ab_workers s ! i))"]
    by (simp add: bag_of_def)
next
  case (finish i)
  then show ?thesis
    using worker_refines [of i s "fst (flush (ab_workers s ! i))" "wk_done_update (\<lambda>_. True) (snd (flush (ab_workers s ! i)))" "[]" "[]"]
      flush_mset [of "ab_workers s ! i" "fst (flush (ab_workers s ! i))" "snd (flush (ab_workers s ! i))"]
    by (simp add: bag_of_def)
qed (simp_all add: bag_of_def)

interpretation bagged: step_refinement batcher_step bag_step bag_of
  by unfold_locales (rule batcher_step_refines)

section \<open>Invariants\<close>

definition total_length :: "bytes list \<Rightarrow> nat" where
  "total_length ds = sum_list (map length ds)"

definition batch_fits :: "bytes list \<Rightarrow> bool" where
  "batch_fits ds = (total_length ds \<le> 5242880 \<or> length ds = 1)"

definition worker_ok :: "worker \<Rightarrow> bool" where
  "worker_ok w = (unat (wk_batchSize w) = total_length (wk_batch w) \<and> batch_fits (wk_batch w) \<and> list_all (\<lambda>d. length d < 2 ^ 63) (wk_batch w))"

text \<open>The sizes are exact as long as no document has \<open>2 ^ 63\<close> bytes or more.\<close>

definition sizes_ok :: "ActivationBatcher \<Rightarrow> bool" where
  "sizes_ok s =
     (list_all (\<lambda>d. length d < 2 ^ 63) (ab_accepted s) \<longrightarrow>
        list_all (\<lambda>d. length d < 2 ^ 63) (ab_activations s) \<and> list_all worker_ok (ab_workers s) \<and>
        list_all (\<lambda>ds. ds \<noteq> [] \<and> batch_fits ds) (ab_flushed s))"

lemma unat_flushBytes: "unat flushBytes = 5242880"
  by (simp add: flushBytes_def size_defs)

lemma flush_sizes:
  "flush w = (fl, w') \<Longrightarrow> worker_ok w \<Longrightarrow> worker_ok w' \<and> list_all (\<lambda>ds. ds \<noteq> [] \<and> batch_fits ds) fl"
  by (auto simp: flush_def worker_ok_def total_length_def batch_fits_def split: if_splits)

lemma worker_ok_size:
  assumes "worker_ok w"
  shows "total_length (wk_batch w) < 2 ^ 63"
proof (cases "length (wk_batch w) = 1")
  case True
  then obtain d where "wk_batch w = [d]" by (auto simp: length_Suc_conv)
  with assms show ?thesis by (simp add: worker_ok_def total_length_def)
next
  case False
  with assms show ?thesis by (simp add: worker_ok_def batch_fits_def)
qed

lemma worker_add_sizes:
  assumes "worker_add d w = (fl, w')" and "worker_ok w" and "length d < 2 ^ 63"
  shows "worker_ok w' \<and> list_all (\<lambda>ds. ds \<noteq> [] \<and> batch_fits ds) fl"
proof -
  let ?n = "of_nat (length d) :: ByteSize"
  have n: "unat ?n = length d" using assms(3) by (simp add: unsigned_of_nat take_bit_nat_eq_self_iff)
  have sum: "unat (wk_batchSize w + ?n) = total_length (wk_batch w) + length d"
    using worker_ok_size [OF assms(2)] assms(2,3) n by (simp add: worker_ok_def unat_add_lem [THEN iffD1])
  show ?thesis
  proof (cases "wk_batchSize w + ?n > flushBytes")
    case True
    obtain fl1 w1 where f: "flush w = (fl1, w1)" by force
    from flush_sizes [OF f assms(2)] have ok: "worker_ok w1" "list_all (\<lambda>ds. ds \<noteq> [] \<and> batch_fits ds) fl1" by simp_all
    have "wk_batch w1 = []" using f by (auto simp: flush_def split: if_splits)
    moreover from this ok(1) have "wk_batchSize w1 = 0" by (simp add: worker_ok_def total_length_def unat_eq_zero)
    moreover have "(fl, w') = (fl1, w1\<lparr>wk_batch := wk_batch w1 @ [d], wk_batchSize := wk_batchSize w1 + ?n\<rparr>)"
      using assms(1) True f by (simp add: worker_add_def)
    ultimately show ?thesis using ok n assms(3) by (simp add: worker_ok_def total_length_def batch_fits_def)
  next
    case False
    then have "total_length (wk_batch w) + length d \<le> 5242880"
      using sum by (simp add: word_less_nat_alt unat_flushBytes)
    moreover have "(fl, w') = ([], w\<lparr>wk_batch := wk_batch w @ [d], wk_batchSize := wk_batchSize w + ?n\<rparr>)"
      using assms(1) False by (simp add: worker_add_def)
    ultimately show ?thesis using sum assms(2,3) by (simp add: worker_ok_def total_length_def batch_fits_def)
  qed
qed

lemma sizes_ok_worker:
  assumes "sizes_ok s" and "i < length (ab_workers s)" and "ab_activations s = ds @ rest"
    and "worker_ok (ab_workers s ! i) \<Longrightarrow> list_all (\<lambda>d. length d < 2 ^ 63) ds
      \<Longrightarrow> worker_ok (snd r) \<and> list_all (\<lambda>ds. ds \<noteq> [] \<and> batch_fits ds) (fst r)"
  shows "sizes_ok (update_worker i r (s\<lparr>ab_activations := rest\<rparr>))"
  unfolding sizes_ok_def
proof
  assume "list_all (\<lambda>d. length d < 2 ^ 63) (ab_accepted (update_worker i r (s\<lparr>ab_activations := rest\<rparr>)))"
  with assms(1) have S: "list_all (\<lambda>d. length d < 2 ^ 63) (ab_activations s)" "list_all worker_ok (ab_workers s)"
    "list_all (\<lambda>ds. ds \<noteq> [] \<and> batch_fits ds) (ab_flushed s)" by (simp_all add: sizes_ok_def)
  have "worker_ok (ab_workers s ! i)" using S(2) assms(2) by (simp add: list_all_length)
  with assms(3,4) S(1) have "worker_ok (snd r)" "list_all (\<lambda>ds. ds \<noteq> [] \<and> batch_fits ds) (fst r)" by simp_all
  with S assms(3) show "list_all (\<lambda>d. length d < 2 ^ 63) (ab_activations (update_worker i r (s\<lparr>ab_activations := rest\<rparr>))) \<and>
      list_all worker_ok (ab_workers (update_worker i r (s\<lparr>ab_activations := rest\<rparr>))) \<and>
      list_all (\<lambda>ds. ds \<noteq> [] \<and> batch_fits ds) (ab_flushed (update_worker i r (s\<lparr>ab_activations := rest\<rparr>)))"
    by (simp add: list_all_update)
qed

text \<open>The goroutines: who has ended, and that nothing is left behind by a worker that has.\<close>

definition goroutines_ok :: "ActivationBatcher \<Rightarrow> bool" where
  "goroutines_ok s =
     (ab_capacity s = length (ab_workers s) \<and> length (ab_activations s) \<le> ab_capacity s \<and>
      (ab_closed s \<longrightarrow> ab_doneCh s) \<and>
      (\<forall>i. ab_ticker s = TkFlushing i \<longrightarrow> i \<le> length (ab_workers s)) \<and>
      (\<forall>w \<in> set (ab_workers s). wk_done w \<longrightarrow> wk_batch w = [] \<and> ab_closed s \<and> ab_activations s = []))"

definition batcher_inv :: "ActivationBatcher \<Rightarrow> bool" where
  "batcher_inv s =
     (mset (ab_accepted s) = bag_pending (bag_of s) + bag_written (bag_of s) \<and> sizes_ok s \<and> goroutines_ok s)"

lemma accounted_step:
  assumes "batcher_step s s'" and "mset (ab_accepted s) = bag_pending (bag_of s) + bag_written (bag_of s)"
  shows "mset (ab_accepted s') = bag_pending (bag_of s') + bag_written (bag_of s')"
  using assms(1)
proof cases
  case (send m ns aid err)
  then show ?thesis using assms(2) by (cases rule: WriteActivation_cases) (simp_all add: bag_of_def)
next
  case (receive d rest i)
  let ?r = "worker_add d (ab_workers s ! i)"
  show ?thesis
    using receive assms(2) worker_moves [of i s "fst ?r" "snd ?r" "[d]" rest] worker_add_mset [of d "ab_workers s ! i" "fst ?r" "snd ?r"]
    by (simp add: bag_of_def ac_simps)
next
  case (tick_flush i)
  let ?r = "flush (ab_workers s ! i)"
  show ?thesis
    using tick_flush assms(2) worker_moves [of i s "fst ?r" "snd ?r" "[]" "ab_activations s"] flush_mset [of "ab_workers s ! i" "fst ?r" "snd ?r"]
    by (simp add: bag_of_def ac_simps)
next
  case (finish i)
  let ?r = "flush (ab_workers s ! i)"
  show ?thesis
    using finish assms(2) worker_moves [of i s "fst ?r" "wk_done_update (\<lambda>_. True) (snd ?r)" "[]" "[]"] flush_mset [of "ab_workers s ! i" "fst ?r" "snd ?r"]
    by (simp add: bag_of_def ac_simps)
qed (use assms(2) in \<open>simp_all add: bag_of_def\<close>)

lemma sizes_step:
  assumes "batcher_step s s'" and "sizes_ok s"
  shows "sizes_ok s'"
  using assms(1)
proof cases
  case (send m ns aid err)
  then show ?thesis using assms(2) by (cases rule: WriteActivation_cases) (simp_all add: sizes_ok_def)
next
  case (receive d rest i)
  then show ?thesis
    using worker_add_sizes [of d "ab_workers s ! i" "fst (worker_add d (ab_workers s ! i))" "snd (worker_add d (ab_workers s ! i))"]
    by (simp, intro sizes_ok_worker [OF assms(2), of i "[d]"]) simp_all
next
  case (tick_flush i)
  have "sizes_ok (update_worker i (flush (ab_workers s ! i)) (s\<lparr>ab_activations := ab_activations s\<rparr>))"
    using flush_sizes [of "ab_workers s ! i" "fst (flush (ab_workers s ! i))" "snd (flush (ab_workers s ! i))"] tick_flush
    by (intro sizes_ok_worker [OF assms(2), of i "[]"]) simp_all
  with tick_flush show ?thesis by (simp add: sizes_ok_def update_worker_def)
next
  case (finish i)
  have "worker_ok (wk_done_update (\<lambda>_. True) w) = worker_ok w" for w by (simp add: worker_ok_def)
  then have "sizes_ok (update_worker i (map_prod id (wk_done_update (\<lambda>_. True)) (flush (ab_workers s ! i))) (s\<lparr>ab_activations := ab_activations s\<rparr>))"
    using flush_sizes [of "ab_workers s ! i" "fst (flush (ab_workers s ! i))" "snd (flush (ab_workers s ! i))"] finish
    by (intro sizes_ok_worker [OF assms(2), of i "[]"]) simp_all
  with finish show ?thesis by (simp add: sizes_ok_def update_worker_def)
qed (use assms(2) in \<open>simp_all add: sizes_ok_def\<close>)

lemma flush_empties: "flush w = (fl, w') \<Longrightarrow> wk_batch w' = [] \<and> wk_done w' = wk_done w"
  by (auto simp: flush_def split: if_splits)

lemma goroutines_step:
  assumes "batcher_step s s'" and "goroutines_ok s"
  shows "goroutines_ok s'"
  using assms(1)
proof cases
  case (send m ns aid err)
  then show ?thesis using assms(2) by (cases rule: WriteActivation_cases) (auto simp: goroutines_ok_def)
next
  case (receive d rest i)
  have none: "\<forall>w \<in> set (ab_workers s). \<not> wk_done w" using assms(2) receive by (auto simp: goroutines_ok_def)
  have "\<not> wk_done (snd (worker_add d (ab_workers s ! i)))"
    using receive by (auto simp: worker_add_def flush_def Let_def)
  then have "\<forall>w \<in> set ((ab_workers s)[i := snd (worker_add d (ab_workers s ! i))]). \<not> wk_done w"
    using none by (auto dest!: subsetD [OF set_update_subset_insert])
  with receive assms(2) show ?thesis by (auto simp: goroutines_ok_def)
next
  case (tick_flush i)
  obtain fl w where f: "flush (ab_workers s ! i) = (fl, w)" by force
  have "ab_workers s ! i \<in> set (ab_workers s)" using tick_flush by simp
  then have "wk_done w \<longrightarrow> wk_batch w = [] \<and> ab_closed s \<and> ab_activations s = []"
    using flush_empties [OF f] assms(2) by (auto simp: goroutines_ok_def)
  with tick_flush f assms(2) show ?thesis
    by (auto simp: goroutines_ok_def dest!: subsetD [OF set_update_subset_insert])
next
  case (finish i)
  obtain fl w where f: "flush (ab_workers s ! i) = (fl, w)" by force
  with finish flush_empties [OF f] assms(2) show ?thesis
    by (auto simp: goroutines_ok_def dest!: subsetD [OF set_update_subset_insert])
qed (use assms(2) in \<open>auto simp: goroutines_ok_def\<close>)

lemma batcher_step_inv: "batcher_inv s \<Longrightarrow> batcher_step s s' \<Longrightarrow> batcher_inv s'"
  by (simp add: batcher_inv_def accounted_step sizes_step goroutines_step)

subsection \<open>The shutdown ends\<close>

text \<open>The steps of the batcher's own goroutines: no document is accepted and no channel is closed.\<close>

definition batcher_internal :: "ActivationBatcher \<Rightarrow> ActivationBatcher \<Rightarrow> bool" where
  "batcher_internal s s' =
     (batcher_step s s' \<and> ab_accepted s' = ab_accepted s \<and> ab_doneCh s' = ab_doneCh s \<and> ab_closed s' = ab_closed s)"

fun ticker_work :: "nat \<Rightarrow> ticker \<Rightarrow> nat" where
  "ticker_work n TkStopped = 0"
| "ticker_work n TkIdle = 1"
| "ticker_work n (TkFlushing i) = 2 + (n - i)"

text \<open>The work that is left once the channel is closed.\<close>

definition closing_work :: "ActivationBatcher \<Rightarrow> nat" where
  "closing_work s =
     length (ab_activations s) + length (filter (\<lambda>w. \<not> wk_done w) (ab_workers s))
     + ticker_work (length (ab_workers s)) (ab_ticker s)"

lemma worker_add_done [simp]: "wk_done (snd (worker_add d w)) = wk_done w"
  by (simp add: worker_add_def flush_def Let_def)

lemma flush_done [simp]: "wk_done (snd (flush w)) = wk_done w"
  by (simp add: flush_def)

lemma closing_stepI:
  "batcher_step s s' \<Longrightarrow> ab_accepted s' = ab_accepted s \<Longrightarrow> ab_doneCh s' = ab_doneCh s \<Longrightarrow> ab_closed s' = ab_closed s
   \<Longrightarrow> closing_work s' < closing_work s \<Longrightarrow> \<exists>s'. batcher_internal s s' \<and> closing_work s' < closing_work s"
  by (auto simp: batcher_internal_def)

lemma closing_step:
  assumes inv: "batcher_inv s" and closed: "ab_closed s" "ab_doneCh s" and "\<not> shut_down s"
  shows "\<exists>s'. batcher_internal s s' \<and> closing_work s' < closing_work s"
proof (cases "\<exists>i < length (ab_workers s). \<not> wk_done (ab_workers s ! i)")
  case True
  then obtain i where i: "i < length (ab_workers s)" "\<not> wk_done (ab_workers s ! i)" by blast
  show ?thesis
  proof (cases "ab_activations s")
    case Nil
    let ?w = "wk_done_update (\<lambda>_. True) (snd (flush (ab_workers s ! i)))"
    show ?thesis by (rule closing_stepI [OF batcher_step.finish [OF Nil closed(1) i]]) (use filter_update_length [OF i(1), of "\<lambda>w. \<not> wk_done w" ?w] i Nil in \<open>simp_all add: closing_work_def\<close>)
  next
    case (Cons d rest)
    let ?w = "snd (worker_add d (ab_workers s ! i))"
    show ?thesis by (rule closing_stepI [OF batcher_step.receive [OF Cons i]]) (use filter_update_length [OF i(1), of "\<lambda>w. \<not> wk_done w" ?w] i Cons in \<open>simp_all add: closing_work_def\<close>)
  qed
next
  case False
  with assms(4) closed have "ab_ticker s \<noteq> TkStopped" by (auto simp: shut_down_def list_all_length)
  then consider "ab_ticker s = TkIdle" | i where "ab_ticker s = TkFlushing i" by (cases "ab_ticker s") auto
  then show ?thesis
  proof cases
    case 1
    show ?thesis by (rule closing_stepI [OF batcher_step.stop [OF 1 closed(2)]]) (use 1 in \<open>simp_all add: closing_work_def\<close>)
  next
    case (2 i)
    then have "i \<le> length (ab_workers s)" using inv by (simp add: batcher_inv_def goroutines_ok_def)
    then consider "i = length (ab_workers s)" | "i < length (ab_workers s)" by linarith
    then show ?thesis
    proof cases
      case 1
      show ?thesis by (rule closing_stepI [OF batcher_step.tick_end [OF 2 1]]) (use 2 1 in \<open>simp_all add: closing_work_def\<close>)
    next
      case i: 2
      show ?thesis by (rule closing_stepI [OF batcher_step.tick_flush [OF 2 i]]) (use filter_update_length [OF i, of "\<lambda>w. \<not> wk_done w" "snd (flush (ab_workers s ! i))"] 2 i in \<open>simp_all add: closing_work_def\<close>)
    qed
  qed
qed

lemma closing_ends:
  "batcher_inv s \<Longrightarrow> ab_closed s \<Longrightarrow> ab_doneCh s \<Longrightarrow> \<exists>s'. rtranclp batcher_internal s s' \<and> shut_down s'"
proof (induction "closing_work s" arbitrary: s rule: less_induct)
  case less
  show ?case
  proof (cases "shut_down s")
    case False
    from closing_step [OF less.prems this] obtain s1 where s1: "batcher_internal s s1" "closing_work s1 < closing_work s" by blast
    moreover have "batcher_inv s1" "ab_closed s1" "ab_doneCh s1"
      using s1(1) less.prems batcher_step_inv by (auto simp: batcher_internal_def)
    ultimately show ?thesis using less.hyps [of s1] by (blast intro: converse_rtranclp_into_rtranclp)
  qed blast
qed

lemma NewActivationBatcher_inv: "batcher_inv (NewActivationBatcher n)"
  by (auto simp: batcher_inv_def NewActivationBatcher_def bag_of_def batches_def sizes_ok_def goroutines_ok_def
      worker_ok_def total_length_def batch_fits_def list_all_iff)

lemma shut_down_flushed:
  assumes inv: "batcher_inv s" and "shut_down s"
  shows "mset (concat (ab_flushed s)) = mset (ab_accepted s)"
proof -
  have "\<forall>w \<in> set (ab_workers s). wk_batch w = [] \<and> ab_activations s = []"
    using assms by (simp add: shut_down_def batcher_inv_def goroutines_ok_def list_all_iff)
  moreover have "ab_activations s = []"
    using calculation inv by (cases "ab_workers s") (auto simp: batcher_inv_def goroutines_ok_def)
  ultimately have "bag_pending (bag_of s) = {#}" by (simp add: bag_of_def batches_def)
  then show ?thesis using inv by (simp add: batcher_inv_def bag_of_def)
qed

text \<open>
  A shutdown that has begun: once \<open>Shutdown\<close> has closed the second channel, the goroutines on their own can end with
  everything written that was accepted.
\<close>

definition closing_finishes :: "ActivationBatcher \<Rightarrow> bool" where
  "closing_finishes s = (ab_doneCh s \<longrightarrow>
     (\<exists>s'. rtranclp batcher_internal (s\<lparr>ab_closed := True\<rparr>) s' \<and> shut_down s' \<and> ab_accepted s' = ab_accepted s \<and>
        mset (concat (ab_flushed s')) = mset (ab_accepted s)))"

lemma internal_accepted: "rtranclp batcher_internal s s' \<Longrightarrow> batcher_inv s \<Longrightarrow> batcher_inv s' \<and> ab_accepted s' = ab_accepted s"
  by (induction rule: rtranclp_induct) (auto simp: batcher_internal_def intro: batcher_step_inv)

lemma batcher_inv_finishes:
  assumes "batcher_inv s"
  shows "closing_finishes s"
  unfolding closing_finishes_def
proof
  assume dn: "ab_doneCh s"
  let ?s = "s\<lparr>ab_closed := True\<rparr>"
  have inv: "batcher_inv ?s"
  proof (cases "ab_closed s")
    case True
    then have "?s = s" by simp
    with assms show ?thesis by metis
  next
    case False
    from batcher_step_inv [OF assms batcher_step.close_activations [OF dn this]] show ?thesis .
  qed
  from closing_ends [OF this] dn obtain s' where s': "rtranclp batcher_internal ?s s'" "shut_down s'" by auto
  with internal_accepted [OF s'(1) inv] shut_down_flushed [of s'] show "\<exists>s'. rtranclp batcher_internal ?s s' \<and> shut_down s' \<and>
      ab_accepted s' = ab_accepted s \<and> mset (concat (ab_flushed s')) = mset (ab_accepted s)" by auto
qed

interpretation batching: safe_system batcher_step batcher_inv closing_finishes
  by unfold_locales (auto intro: batcher_step_inv batcher_inv_finishes)

section \<open>Theorems\<close>

text \<open>
  C31. The batcher refines a bag: in every interleaving of the callers, the workers, the interval
  goroutine and the shutdown, every document that was accepted is pending or was handed to the
  database, exactly once. From every state of a shutdown that has begun, once \<open>Shutdown\<close> has closed the channel of
  documents, the workers and the interval goroutine can go on by themselves until all of them have ended and every accepted
  document was handed to the database exactly once; and that holds of every state in which they have ended.
\<close>

theorem batcher_refines_bag:
  assumes "rtranclp batcher_step (NewActivationBatcher n) s"
  shows "rtranclp bag_step \<lparr>bag_pending = {#}, bag_written = {#}\<rparr> (bag_of s) \<and>
    mset (ab_accepted s) = bag_pending (bag_of s) + bag_written (bag_of s) \<and>
    (ab_doneCh s \<longrightarrow>
       (\<exists>s'. rtranclp batcher_internal (s\<lparr>ab_closed := True\<rparr>) s' \<and> shut_down s' \<and> ab_accepted s' = ab_accepted s \<and>
          mset (concat (ab_flushed s')) = mset (ab_accepted s))) \<and>
    (shut_down s \<longrightarrow> mset (concat (ab_flushed s)) = mset (ab_accepted s))"
proof -
  note inv = batching.reachable_inv [OF NewActivationBatcher_inv assms]
  note good = batching.always_good [OF NewActivationBatcher_inv assms]
  have "bag_of (NewActivationBatcher n) = \<lparr>bag_pending = {#}, bag_written = {#}\<rparr>"
    by (simp add: bag_of_def NewActivationBatcher_def batches_def)
  then have "rtranclp bag_step \<lparr>bag_pending = {#}, bag_written = {#}\<rparr> (bag_of s)"
    using bagged.simulated [OF assms] by simp
  moreover note shut_down_flushed [OF inv]
  moreover have acc: "mset (ab_accepted s) = bag_pending (bag_of s) + bag_written (bag_of s)"
    using inv by (simp add: batcher_inv_def)
  ultimately show ?thesis using good unfolding closing_finishes_def by simp
qed

text \<open>
  C32. Batches are bounded. As long as no document has 2 to the 63 bytes or more: a batch that is
  handed to the database is not empty and has at most 5 megabytes, unless it consists of a
  single document that is larger; and the size that a worker has counted is exactly the size
  of its batch.
\<close>

theorem batches_bounded:
  assumes "rtranclp batcher_step (NewActivationBatcher n) s" and "\<forall>d \<in> set (ab_accepted s). length d < 2 ^ 63"
  shows "(\<forall>ds \<in> set (ab_flushed s). ds \<noteq> [] \<and> (sum_list (map length ds) \<le> 5 * 1024 * 1024 \<or> length ds = 1)) \<and>
    (\<forall>w \<in> set (ab_workers s). unat (wk_batchSize w) = sum_list (map length (wk_batch w)))"
proof -
  have "sizes_ok s" using batching.reachable_inv [OF NewActivationBatcher_inv assms(1)] by (simp add: batcher_inv_def)
  with assms(2) have "\<forall>ds \<in> set (ab_flushed s). ds \<noteq> [] \<and> batch_fits ds" "\<forall>w \<in> set (ab_workers s). worker_ok w"
    unfolding sizes_ok_def list_all_iff by blast+
  then show ?thesis by (simp add: worker_ok_def batch_fits_def total_length_def)
qed

section \<open>Witnesses\<close>

text \<open>One document, from its acceptance through a shutdown.\<close>

definition example_document :: bytes where
  "example_document = ''{\"logs\":[],\"_id\":\"n/a\"}''"

definition batched :: ActivationBatcher where
  "batched =
     \<lparr>ab_activations = [], ab_capacity = 1, ab_closed = False, ab_doneCh = False,
      ab_workers = [\<lparr>wk_batch = [example_document], wk_batchSize = 23, wk_done = False\<rparr>],
      ab_ticker = TkIdle, ab_accepted = [example_document], ab_flushed = []\<rparr>"

definition batcher_stopped :: ActivationBatcher where
  "batcher_stopped =
     batched\<lparr>ab_closed := True, ab_doneCh := True, ab_ticker := TkStopped,
       ab_workers := [\<lparr>wk_batch = [], wk_batchSize = 0, wk_done = True\<rparr>], ab_flushed := [[example_document]]\<rparr>"

lemma batched_reachable: "rtranclp batcher_step (NewActivationBatcher 1) batched"
proof -
  let ?s1 = "(NewActivationBatcher 1)\<lparr>ab_activations := [example_document], ab_accepted := [example_document]\<rparr>"
  have "batcher_step (NewActivationBatcher 1) ?s1"
    by (rule batcher_step.send [of "Inr ''{\"logs\":[]}''" "''n''" "''a''"])
      (simp add: WriteActivation_def document_def send_activation_def NewActivationBatcher_def example_document_def)
  moreover have "update_worker 0 (worker_add example_document (ab_workers ?s1 ! 0)) (?s1\<lparr>ab_activations := []\<rparr>) = batched"
    by (simp add: NewActivationBatcher_def update_worker_def worker_add_def batched_def flushBytes_def size_defs example_document_def)
  then have "batcher_step ?s1 batched"
    using batcher_step.receive [of ?s1 example_document "[]" 0] by (simp add: NewActivationBatcher_def)
  ultimately show ?thesis by (rule converse_rtranclp_into_rtranclp [OF _ r_into_rtranclp])
qed

lemma batcher_stopped_reachable: "rtranclp batcher_step batched batcher_stopped"
proof -
  let ?s1 = "batched\<lparr>ab_doneCh := True\<rparr>"
  let ?s2 = "?s1\<lparr>ab_closed := True\<rparr>"
  let ?s3 = "?s2\<lparr>ab_ticker := TkStopped\<rparr>"
  have "batcher_step batched ?s1" by (rule batcher_step.close_done) (simp add: batched_def)
  moreover have "batcher_step ?s1 ?s2" by (rule batcher_step.close_activations) (simp_all add: batched_def)
  moreover have "batcher_step ?s2 ?s3" by (rule batcher_step.stop) (simp_all add: batched_def)
  moreover have "update_worker 0 (map_prod id (wk_done_update (\<lambda>_. True)) (flush (ab_workers ?s3 ! 0))) ?s3 = batcher_stopped"
    by (simp add: update_worker_def flush_def batched_def batcher_stopped_def)
  then have "batcher_step ?s3 batcher_stopped"
    using batcher_step.finish [of ?s3 0] by (simp add: batched_def)
  ultimately show ?thesis
    by (rule converse_rtranclp_into_rtranclp [OF _ converse_rtranclp_into_rtranclp
          [OF _ converse_rtranclp_into_rtranclp [OF _ r_into_rtranclp]]])
qed

theorem batcher_refines_bag_witness:
  "shut_down batcher_stopped \<and> mset (concat (ab_flushed batcher_stopped)) = {#example_document#} \<and>
   (\<exists>s'. rtranclp batcher_internal (batched\<lparr>ab_doneCh := True, ab_closed := True\<rparr>) s' \<and> shut_down s' \<and>
      mset (concat (ab_flushed s')) = {#example_document#})"
proof -
  have stopped: "shut_down batcher_stopped" by (simp add: shut_down_def batcher_stopped_def batched_def)
  have "batcher_step batched (batched\<lparr>ab_doneCh := True\<rparr>)" by (rule batcher_step.close_done) (simp add: batched_def)
  from batcher_refines_bag [OF rtranclp.rtrancl_into_rtrancl [OF batched_reachable this]]
  have "\<exists>s'. rtranclp batcher_internal (batched\<lparr>ab_doneCh := True, ab_closed := True\<rparr>) s' \<and> shut_down s' \<and>
      mset (concat (ab_flushed s')) = {#example_document#}" by (auto simp: batched_def)
  moreover from batcher_refines_bag [OF rtranclp_trans [OF batched_reachable batcher_stopped_reachable]] stopped
  have "mset (concat (ab_flushed batcher_stopped)) = {#example_document#}" by (simp add: batcher_stopped_def batched_def)
  ultimately show ?thesis using stopped by blast
qed

theorem batches_bounded_witness:
  "map (\<lambda>w. unat (wk_batchSize w)) (ab_workers batched) = [sum_list (map length [example_document])]"
  using batches_bounded [OF batched_reachable] by (simp add: batched_def example_document_def)

end
