(* ===== verification/Lifecycle.thy ===== *)
theory Lifecycle
  imports Batcher
begin

text \<open>
  The life of the process (\<open>main\<close> in \<open>cmd/invoker/main.go\<close>): the workers that read from Kafka,
  the HTTP handlers, the goroutines of the error group and the shutdown at the end of \<open>main\<close>,
  together with the batcher of the theory \<open>Batcher\<close>.

  A worker or handler is in the middle of an invocation, about to send the document of its activation
  to the batcher, or about to acknowledge. What an invocation does inside is the subject of the theories
  \<open>Runner\<close>, \<open>Frontends\<close> and \<open>Invoker\<close>; here only the shared resources matter. A use
  of a resource that was already shut down is possible and leaves a \<open>fault\<close>: the theorems show
  that there is never one. The contracts of the libraries are in the guards: \<open>Server.Shutdown\<close>
  returns when no handler is active, no handler starts after it, and \<open>Group.Wait\<close> returns when all
  goroutines of the group have. The shutdown of the pool is taken to return here; when it panics instead is
  a theorem about the pool.
\<close>

section \<open>State\<close>

text \<open>The statement of \<open>main\<close> that comes next.\<close>

datatype main_pc =
    MSelect | MSleep | MCancel | MServerShutdown | MGroupWait | MCancelHelper | MPoolShutdown
  | MReaderClose | MWriterClose | MBatcherDone | MBatcherClose | MBatcherWait | MInformers | MReturned

primrec pc_rank :: "main_pc \<Rightarrow> nat" where
  "pc_rank MSelect = 0" | "pc_rank MSleep = 1" | "pc_rank MCancel = 2" | "pc_rank MServerShutdown = 3"
| "pc_rank MGroupWait = 4" | "pc_rank MCancelHelper = 5" | "pc_rank MPoolShutdown = 6"
| "pc_rank MReaderClose = 7" | "pc_rank MWriterClose = 8" | "pc_rank MBatcherDone = 9"
| "pc_rank MBatcherClose = 10" | "pc_rank MBatcherWait = 11" | "pc_rank MInformers = 12" | "pc_rank MReturned = 13"

lemma pc_rank_inj: "pc_rank p = pc_rank q \<Longrightarrow> p = q"
  by (cases p; cases q; simp)

instantiation main_pc :: linorder
begin

definition less_eq_main_pc :: "main_pc \<Rightarrow> main_pc \<Rightarrow> bool" where
  "less_eq_main_pc p q = (pc_rank p \<le> pc_rank q)"

definition less_main_pc :: "main_pc \<Rightarrow> main_pc \<Rightarrow> bool" where
  "less_main_pc p q = (pc_rank p < pc_rank q)"

instance
  by standard (auto simp: less_eq_main_pc_def less_main_pc_def intro: pc_rank_inj)

end

lemmas pc_order = less_eq_main_pc_def less_main_pc_def

datatype task = TReading | TInvoking | TWriting bytes | TResponding | TStopped

datatype fault = PoolUsedAfterShutdown | ReadFromClosedReader | AckOnClosedWriter | SendOnClosedChannel

record Process =
  pr_pc :: main_pc
  pr_signal :: bool
  pr_cancelled :: bool
  pr_helperCancelled :: bool
  pr_workers :: "task list"
  pr_handlers :: "task list"
  pr_refresh :: bool
  pr_serve :: bool
  pr_batcher :: ActivationBatcher
  pr_produced :: "bytes list"
  pr_faults :: "fault list"

definition process_new :: "nat \<Rightarrow> nat \<Rightarrow> Process" where
  "process_new workers numCPU =
     \<lparr>pr_pc = MSelect, pr_signal = False, pr_cancelled = False, pr_helperCancelled = False,
      pr_workers = replicate workers TReading, pr_handlers = [], pr_refresh = True, pr_serve = True,
      pr_batcher = NewActivationBatcher numCPU, pr_produced = [], pr_faults = []\<rparr>"

definition fault_if :: "bool \<Rightarrow> fault \<Rightarrow> Process \<Rightarrow> Process" where
  "fault_if b f s = (if b then s\<lparr>pr_faults := f # pr_faults s\<rparr> else s)"

section \<open>Steps\<close>

text \<open>
  The steps of an invocation; \<open>kafka\<close> tells a worker from an HTTP handler. An activation
  that need not be recorded, or that cannot be marshalled, is not sent.
\<close>

inductive task_step :: "bool \<Rightarrow> task \<Rightarrow> Process \<Rightarrow> task \<Rightarrow> Process \<Rightarrow> bool" where
  pool_call: "task_step kafka TInvoking s TInvoking (fault_if (MPoolShutdown \<le> pr_pc s) PoolUsedAfterShutdown s)"
| recorded: "document marshalled ns aid = Returns (Inr d)
    \<Longrightarrow> task_step kafka TInvoking s (TWriting d) (s\<lparr>pr_produced := d # pr_produced s\<rparr>)"
| unrecorded: "task_step kafka TInvoking s TResponding s"
| written: "send_activation d (pr_batcher s) = Returns b \<Longrightarrow> task_step kafka (TWriting d) s TResponding (s\<lparr>pr_batcher := b\<rparr>)"
| write_panics: "send_activation d (pr_batcher s) = Panics m
    \<Longrightarrow> task_step kafka (TWriting d) s TStopped (fault_if True SendOnClosedChannel s)"
| acknowledged: "task_step True TResponding s TReading (fault_if (MWriterClose \<le> pr_pc s) AckOnClosedWriter s)"
| responded: "task_step False TResponding s TStopped s"

inductive_cases task_stepE: "task_step kafka t s t' s'"

text \<open>The statements of \<open>main\<close> after the servers were started.\<close>

inductive main_step :: "Process \<Rightarrow> Process \<Rightarrow> bool" where
  woken: "pr_pc s = MSelect \<Longrightarrow> pr_signal s \<or> pr_cancelled s \<Longrightarrow> main_step s (s\<lparr>pr_pc := MSleep\<rparr>)"
| slept: "pr_pc s = MSleep \<Longrightarrow> main_step s (s\<lparr>pr_pc := MCancel\<rparr>)"
| cancel_inner: "pr_pc s = MCancel \<Longrightarrow> main_step s (s\<lparr>pr_pc := MServerShutdown, pr_cancelled := True\<rparr>)"
| server_down: "pr_pc s = MServerShutdown \<Longrightarrow> list_all (\<lambda>t. t = TStopped) (pr_handlers s)
    \<Longrightarrow> main_step s (s\<lparr>pr_pc := MGroupWait\<rparr>)"
| group_done: "pr_pc s = MGroupWait \<Longrightarrow> list_all (\<lambda>t. t = TStopped) (pr_workers s) \<Longrightarrow> \<not> pr_refresh s \<Longrightarrow> \<not> pr_serve s
    \<Longrightarrow> main_step s (s\<lparr>pr_pc := MCancelHelper\<rparr>)"
| cancel_helper: "pr_pc s = MCancelHelper \<Longrightarrow> main_step s (s\<lparr>pr_pc := MPoolShutdown, pr_helperCancelled := True\<rparr>)"
| pool_down: "pr_pc s = MPoolShutdown \<Longrightarrow> main_step s (s\<lparr>pr_pc := MReaderClose\<rparr>)"
| reader_closed: "pr_pc s = MReaderClose \<Longrightarrow> main_step s (s\<lparr>pr_pc := MWriterClose\<rparr>)"
| writer_closed: "pr_pc s = MWriterClose \<Longrightarrow> main_step s (s\<lparr>pr_pc := MBatcherDone\<rparr>)"
| batcher_done: "pr_pc s = MBatcherDone
    \<Longrightarrow> main_step s (s\<lparr>pr_pc := MBatcherClose, pr_batcher := pr_batcher s\<lparr>ab_doneCh := True\<rparr>\<rparr>)"
| batcher_close: "pr_pc s = MBatcherClose
    \<Longrightarrow> main_step s (s\<lparr>pr_pc := MBatcherWait, pr_batcher := pr_batcher s\<lparr>ab_closed := True\<rparr>\<rparr>)"
| batcher_down: "pr_pc s = MBatcherWait \<Longrightarrow> shut_down (pr_batcher s) \<Longrightarrow> main_step s (s\<lparr>pr_pc := MInformers\<rparr>)"
| informers_down: "pr_pc s = MInformers \<Longrightarrow> main_step s (s\<lparr>pr_pc := MReturned\<rparr>)"

inductive_cases main_stepE: "main_step s s'"

text \<open>
  A read of a worker fails, gives a message that is not parsed, one that is only acknowledged, or one
  that is invoked; it may give a message although the context was cancelled.
\<close>

inductive process_step :: "Process \<Rightarrow> Process \<Rightarrow> bool" where
  signalled: "process_step s (s\<lparr>pr_signal := True\<rparr>)"
| read: "i < length (pr_workers s) \<Longrightarrow> pr_workers s ! i = TReading \<Longrightarrow> t \<in> {TReading, TResponding, TInvoking}
    \<Longrightarrow> process_step s (fault_if (MReaderClose \<le> pr_pc s) ReadFromClosedReader (s\<lparr>pr_workers := (pr_workers s)[i := t]\<rparr>))"
| worker_stops: "i < length (pr_workers s) \<Longrightarrow> pr_workers s ! i = TReading \<Longrightarrow> pr_cancelled s
    \<Longrightarrow> process_step s (s\<lparr>pr_workers := (pr_workers s)[i := TStopped]\<rparr>)"
| work: "i < length (pr_workers s) \<Longrightarrow> task_step True (pr_workers s ! i) s t s'
    \<Longrightarrow> process_step s (s'\<lparr>pr_workers := (pr_workers s)[i := t]\<rparr>)"
| request: "pr_pc s \<le> MServerShutdown \<Longrightarrow> process_step s (s\<lparr>pr_handlers := pr_handlers s @ [TInvoking]\<rparr>)"
| handle: "i < length (pr_handlers s) \<Longrightarrow> task_step False (pr_handlers s ! i) s t s'
    \<Longrightarrow> process_step s (s'\<lparr>pr_handlers := (pr_handlers s)[i := t]\<rparr>)"
| refresh_stops: "pr_cancelled s \<Longrightarrow> process_step s (s\<lparr>pr_refresh := False\<rparr>)"
| serve_fails: "pr_serve s \<Longrightarrow> process_step s (s\<lparr>pr_serve := False, pr_cancelled := True\<rparr>)"
| serve_closed: "MServerShutdown \<le> pr_pc s \<Longrightarrow> process_step s (s\<lparr>pr_serve := False\<rparr>)"
| batching: "batcher_internal (pr_batcher s) b \<Longrightarrow> process_step s (s\<lparr>pr_batcher := b\<rparr>)"
| main: "main_step s s' \<Longrightarrow> process_step s s'"

inductive_cases process_stepE: "process_step s s'"

section \<open>The invariant\<close>

fun writing :: "task \<Rightarrow> bytes list" where
  "writing (TWriting d) = [d]"
| "writing _ = []"

definition stopped :: "task list \<Rightarrow> bool" where
  "stopped ts = list_all (\<lambda>t. t = TStopped) ts"

text \<open>What has ended at which statement of \<open>main\<close>.\<close>

definition order_ok :: "Process \<Rightarrow> bool" where
  "order_ok s =
     ((MCancel < pr_pc s \<longrightarrow> pr_cancelled s) \<and>
      (MServerShutdown < pr_pc s \<longrightarrow> stopped (pr_handlers s)) \<and>
      (MGroupWait < pr_pc s \<longrightarrow> stopped (pr_workers s) \<and> \<not> pr_refresh s \<and> \<not> pr_serve s) \<and>
      (ab_doneCh (pr_batcher s) \<longleftrightarrow> MBatcherDone < pr_pc s) \<and>
      (ab_closed (pr_batcher s) \<longleftrightarrow> MBatcherClose < pr_pc s) \<and>
      (MBatcherWait < pr_pc s \<longrightarrow> shut_down (pr_batcher s)) \<and>
      TReading \<notin> set (pr_handlers s))"

text \<open>Every document that was produced was accepted by the batcher or is about to be sent.\<close>

definition documents_ok :: "Process \<Rightarrow> bool" where
  "documents_ok s =
     (mset (pr_produced s) = mset (ab_accepted (pr_batcher s))
        + (mset (concat (map writing (pr_workers s))) + mset (concat (map writing (pr_handlers s)))))"

definition process_inv :: "Process \<Rightarrow> bool" where
  "process_inv s = (pr_faults s = [] \<and> batcher_inv (pr_batcher s) \<and> order_ok s \<and> documents_ok s)"

lemma stopped_nth: "stopped ts \<Longrightarrow> i < length ts \<Longrightarrow> ts ! i = TStopped"
  by (simp add: stopped_def list_all_length)

lemma stopped_writing: "stopped ts \<Longrightarrow> concat (map writing ts) = []"
  by (auto simp: stopped_def list_all_iff)

lemma stopped_update: "stopped ts \<Longrightarrow> stopped (ts[i := TStopped])"
  by (simp add: stopped_def list_all_update)

lemma fault_if_False [simp]: "fault_if False f s = s"
  by (simp add: fault_if_def)

lemma send_activation_inv:
  assumes "batcher_inv b" "send_activation d b = Returns b'"
  shows "batcher_inv b'" and "ab_accepted b' = ab_accepted b @ [d]" and "ab_doneCh b' = ab_doneCh b" and "ab_closed b' = ab_closed b"
  using assms by (auto simp: send_activation_def batcher_inv_def bag_of_def sizes_ok_def goroutines_ok_def split: if_splits)

lemma shut_down_internal:
  assumes "batcher_internal b b'" and down: "shut_down b"
  shows "shut_down b'"
proof -
  have "batcher_step b b'" using assms(1) by (simp add: batcher_internal_def)
  then show ?thesis
  proof cases
    case (send m ns aid err)
    then show ?thesis using down by (cases rule: WriteActivation_cases) (simp_all add: shut_down_def)
  qed (use down in \<open>auto simp: shut_down_def list_all_length\<close>)
qed

lemma documents_move:
  fixes P :: "'a multiset"
  assumes "P = A + (W + H)" and "p + A + x = P + A' + y" and "W' + x = W + y"
  shows "p = A' + (W' + H)"
proof -
  have "p + (A + x) = A' + (W' + H) + (A + x)"
    using assms by (metis (no_types, lifting) add.assoc add.commute)
  then show ?thesis by simp
qed

text \<open>A worker or handler takes a step while the pool, the clients and the batcher are still there.\<close>

lemma task_step_ok:
  assumes "task_step kafka t s t' s'" and "pr_pc s \<le> MGroupWait" and "batcher_inv (pr_batcher s)" and "\<not> ab_closed (pr_batcher s)"
  obtains b p where "s' = s\<lparr>pr_batcher := b, pr_produced := p\<rparr>" and "t' = TReading \<Longrightarrow> kafka" and "batcher_inv b"
    and "ab_doneCh b = ab_doneCh (pr_batcher s)" and "ab_closed b = ab_closed (pr_batcher s)"
    and "mset p + mset (ab_accepted (pr_batcher s)) + mset (writing t) = mset (pr_produced s) + mset (ab_accepted b) + mset (writing t')"
  using assms(1)
proof cases
  case (recorded m ns aid d)
  with assms(3) show ?thesis by (intro that [where b = "pr_batcher s" and p = "d # pr_produced s"]) simp_all
next
  case (written d b)
  with send_activation_inv [OF assms(3)] show ?thesis by (intro that [where b = b and p = "pr_produced s"]) simp_all
next
  case (write_panics d m)
  with assms(4) show ?thesis by (simp add: send_activation_def split: if_splits)
qed (use assms in \<open>auto simp: pc_order intro!: that [where b = "pr_batcher s" and p = "pr_produced s"]\<close>)

lemma running_pc:
  assumes "order_ok s"
  shows "i < length (pr_workers s) \<Longrightarrow> pr_workers s ! i \<noteq> TStopped \<Longrightarrow> pr_pc s \<le> MGroupWait"
    and "i < length (pr_handlers s) \<Longrightarrow> pr_handlers s ! i \<noteq> TStopped \<Longrightarrow> pr_pc s \<le> MServerShutdown"
  using assms stopped_nth unfolding order_ok_def by (metis not_less)+

lemma not_closed: "order_ok s \<Longrightarrow> pr_pc s \<le> MGroupWait \<Longrightarrow> \<not> ab_closed (pr_batcher s)"
  by (auto simp: order_ok_def pc_order)

lemma task_step_not_stopped: "task_step kafka t s t' s' \<Longrightarrow> t \<noteq> TStopped"
  by (auto elim: task_stepE)

lemma order_ok_early:
  "pr_pc s \<le> MGroupWait \<Longrightarrow> order_ok s \<longleftrightarrow>
     (MCancel < pr_pc s \<longrightarrow> pr_cancelled s) \<and> (MServerShutdown < pr_pc s \<longrightarrow> stopped (pr_handlers s)) \<and>
     \<not> ab_doneCh (pr_batcher s) \<and> \<not> ab_closed (pr_batcher s) \<and> TReading \<notin> set (pr_handlers s)"
  by (auto simp: order_ok_def pc_order)

lemma work_inv:
  assumes inv: "process_inv s" and i: "i < length (pr_workers s)" and step: "task_step True (pr_workers s ! i) s t s'"
  shows "process_inv (s'\<lparr>pr_workers := (pr_workers s)[i := t]\<rparr>)"
proof -
  have o: "order_ok s" and b: "batcher_inv (pr_batcher s)" and d: "documents_ok s" and f: "pr_faults s = []"
    using inv by (simp_all add: process_inv_def)
  have pc: "pr_pc s \<le> MGroupWait" by (rule running_pc(1) [OF o i task_step_not_stopped [OF step]])
  from task_step_ok [OF step pc b not_closed [OF o pc]] obtain b' p where s': "s' = s\<lparr>pr_batcher := b', pr_produced := p\<rparr>"
    and b': "batcher_inv b'" "ab_doneCh b' = ab_doneCh (pr_batcher s)" "ab_closed b' = ab_closed (pr_batcher s)"
    and docs: "mset p + mset (ab_accepted (pr_batcher s)) + mset (writing (pr_workers s ! i))
      = mset (pr_produced s) + mset (ab_accepted b') + mset (writing t)" by metis
  have "documents_ok (s'\<lparr>pr_workers := (pr_workers s)[i := t]\<rparr>)"
    using documents_move [OF d [unfolded documents_ok_def] docs mset_concat_map_update [OF i]]
    by (simp add: documents_ok_def s')
  then show ?thesis using o b' pc f by (simp add: process_inv_def s' order_ok_early)
qed

lemma handle_inv:
  assumes inv: "process_inv s" and i: "i < length (pr_handlers s)" and step: "task_step False (pr_handlers s ! i) s t s'"
  shows "process_inv (s'\<lparr>pr_handlers := (pr_handlers s)[i := t]\<rparr>)"
proof -
  have o: "order_ok s" and b: "batcher_inv (pr_batcher s)" and d: "documents_ok s" and f: "pr_faults s = []"
    using inv by (simp_all add: process_inv_def)
  have pc: "pr_pc s \<le> MServerShutdown" by (rule running_pc(2) [OF o i task_step_not_stopped [OF step]])
  then have pc': "pr_pc s \<le> MGroupWait" by (simp add: pc_order)
  from task_step_ok [OF step pc' b not_closed [OF o pc']] obtain b' p where s': "s' = s\<lparr>pr_batcher := b', pr_produced := p\<rparr>"
    and b': "batcher_inv b'" "ab_doneCh b' = ab_doneCh (pr_batcher s)" "ab_closed b' = ab_closed (pr_batcher s)" and t: "t \<noteq> TReading"
    and docs: "mset p + mset (ab_accepted (pr_batcher s)) + mset (writing (pr_handlers s ! i))
      = mset (pr_produced s) + mset (ab_accepted b') + mset (writing t)" by metis
  have "documents_ok (s'\<lparr>pr_handlers := (pr_handlers s)[i := t]\<rparr>)"
    using documents_move [OF trans [OF d [unfolded documents_ok_def]] docs mset_concat_map_update [OF i]]
    by (simp add: documents_ok_def s' add.commute)
  moreover have "TReading \<notin> set ((pr_handlers s)[i := t])"
    using o t by (auto simp: order_ok_def dest!: subsetD [OF set_update_subset_insert])
  ultimately show ?thesis using o b' pc pc' f by (simp add: process_inv_def s' order_ok_early not_less [symmetric])
qed

lemma main_step_inv: "process_inv s \<Longrightarrow> main_step s s' \<Longrightarrow> process_inv s'"
proof (erule main_stepE, goal_cases)
  case 10
  then show ?case
    using batcher_step_inv [OF _ batcher_step.close_done]
    by (simp add: process_inv_def order_ok_def documents_ok_def pc_order)
next
  case 11
  then show ?case
    using batcher_step_inv [OF _ batcher_step.close_activations]
    by (simp add: process_inv_def order_ok_def documents_ok_def pc_order)
qed (auto simp: process_inv_def order_ok_def documents_ok_def pc_order stopped_def)

lemma read_inv:
  assumes inv: "process_inv s" and i: "i < length (pr_workers s)" and r: "pr_workers s ! i = TReading"
    and t: "t \<in> {TReading, TResponding, TInvoking, TStopped}"
  shows "process_inv (s\<lparr>pr_workers := (pr_workers s)[i := t]\<rparr>)" and "pr_pc s \<le> MGroupWait"
proof -
  have o: "order_ok s" using inv by (simp add: process_inv_def)
  show pc: "pr_pc s \<le> MGroupWait" by (rule running_pc(1) [OF o i]) (simp add: r)
  have "mset (concat (map writing ((pr_workers s)[i := t]))) = mset (concat (map writing (pr_workers s)))"
    using mset_concat_map_update [OF i, of writing t] t r by auto
  with inv pc show "process_inv (s\<lparr>pr_workers := (pr_workers s)[i := t]\<rparr>)"
    by (simp add: process_inv_def documents_ok_def order_ok_early)
qed

lemma process_step_inv:
  assumes inv: "process_inv s" and step: "process_step s s'"
  shows "process_inv s'"
  using step
proof cases
  case (read i t)
  with read_inv [OF inv read(2,3), of t] show ?thesis by (auto simp: pc_order)
next
  case (worker_stops i)
  with read_inv [OF inv worker_stops(2,3), of TStopped] show ?thesis by simp
next
  case (batching b)
  with inv shut_down_internal batcher_step_inv show ?thesis
    by (auto simp: process_inv_def order_ok_def documents_ok_def batcher_internal_def)
next
  case request
  with inv show ?thesis by (auto simp: process_inv_def order_ok_def documents_ok_def pc_order)
next
  case (work i t s1)
  with work_inv [OF inv work(2,3)] show ?thesis by simp
next
  case (handle i t s1)
  with handle_inv [OF inv handle(2,3)] show ?thesis by simp
next
  case main
  with main_step_inv [OF inv] show ?thesis by simp
qed (use inv in \<open>auto simp: process_inv_def order_ok_def documents_ok_def pc_order\<close>)

definition fault_free :: "Process \<Rightarrow> bool" where
  "fault_free s = (pr_faults s = [])"

interpretation lifecycle: safe_system process_step process_inv fault_free
  by unfold_locales (rule process_step_inv, assumption+, simp add: process_inv_def fault_free_def)

lemma process_new_inv: "process_inv (process_new n k)"
  using NewActivationBatcher_inv
  by (simp add: process_inv_def order_ok_def documents_ok_def process_new_def NewActivationBatcher_def pc_order)

section \<open>The shutdown ends\<close>

fun task_work :: "task \<Rightarrow> nat" where
  "task_work TStopped = 0"
| "task_work TReading = 1"
| "task_work TResponding = 2"
| "task_work (TWriting d) = 3"
| "task_work TInvoking = 4"

text \<open>What is left to do: for \<open>main\<close>, for the goroutines and handlers, and for the batcher.\<close>

definition tasks_work :: "Process \<Rightarrow> nat" where
  "tasks_work s = sum_list (map task_work (pr_workers s)) + sum_list (map task_work (pr_handlers s))
     + of_bool (pr_refresh s) + of_bool (pr_serve s)"

definition batcher_work :: "ActivationBatcher \<Rightarrow> nat" where
  "batcher_work b = (if ab_closed b then closing_work b else length (ab_activations b))"

definition work_left :: "(Process \<times> Process) set" where
  "work_left = measures [\<lambda>s. 13 - pc_rank (pr_pc s), tasks_work, \<lambda>s. batcher_work (pr_batcher s)]"

lemma wf_work_left: "wf work_left"
  by (simp add: work_left_def)

lemma work_left_pc: "pr_pc s < pr_pc s' \<Longrightarrow> (s', s) \<in> work_left"
proof -
  have "pc_rank p \<le> 13" for p by (cases p) simp_all
  then show "pr_pc s < pr_pc s' \<Longrightarrow> (s', s) \<in> work_left"
    by (simp add: work_left_def pc_order) (metis diff_less_mono2 less_le_trans)
qed

lemma work_left_tasks: "pr_pc s' = pr_pc s \<Longrightarrow> tasks_work s' < tasks_work s \<Longrightarrow> (s', s) \<in> work_left"
  by (simp add: work_left_def)

lemma work_left_batcher: "batcher_work b < batcher_work (pr_batcher s) \<Longrightarrow> (s\<lparr>pr_batcher := b\<rparr>, s) \<in> work_left"
  by (simp add: work_left_def tasks_work_def)

lemma sum_list_map_update_less:
  assumes "i < length xs" and "f y < (f (xs ! i) :: nat)"
  shows "sum_list (map f (xs[i := y])) < sum_list (map f xs)"
  using assms sum_list_map_update [OF assms(1), of f y] by simp

lemma room_or_receive:
  assumes "batcher_inv b" and "\<not> ab_closed b" and "0 < ab_capacity b"
  shows "(\<exists>b'. send_activation d b = Returns b') \<or> (\<exists>b'. batcher_internal b b' \<and> batcher_work b' < batcher_work b)"
proof (cases "length (ab_activations b) < ab_capacity b")
  case False
  with assms(3) obtain d' rest where act: "ab_activations b = d' # rest" by (cases "ab_activations b") auto
  have i: "0 < length (ab_workers b)" using assms by (simp add: batcher_inv_def goroutines_ok_def)
  then have "ab_workers b ! 0 \<in> set (ab_workers b)" by simp
  then have "\<not> wk_done (ab_workers b ! 0)" using assms by (auto simp: batcher_inv_def goroutines_ok_def)
  from batcher_step.receive [OF act i this] act assms(2) show ?thesis
    by (intro disjI2 exI conjI) (auto simp: batcher_internal_def batcher_work_def)
qed (simp add: send_activation_def assms(2))

text \<open>A handler or worker that has not ended can go on, or the batcher makes room for it.\<close>

lemma task_progress:
  assumes inv: "process_inv s" and pc: "pr_pc s \<le> MGroupWait" and cap: "0 < ab_capacity (pr_batcher s)"
    and t: "t \<noteq> TStopped" "t \<noteq> TReading"
  shows "(\<exists>t' b. task_step kafka t s t' (s\<lparr>pr_batcher := b\<rparr>) \<and> task_work t' < task_work t)
    \<or> (\<exists>b. batcher_internal (pr_batcher s) b \<and> batcher_work b < batcher_work (pr_batcher s))"
proof (cases t)
  case TInvoking
  then show ?thesis using task_step.unrecorded [of kafka s] by (intro disjI1 exI [of _ TResponding] exI [of _ "pr_batcher s"]) simp
next
  case (TWriting d)
  have b: "batcher_inv (pr_batcher s)" and o: "order_ok s" using inv by (simp_all add: process_inv_def)
  from room_or_receive [OF b not_closed [OF o pc] cap, of d] show ?thesis
  proof
    assume "\<exists>b'. send_activation d (pr_batcher s) = Returns b'"
    then obtain b' where "send_activation d (pr_batcher s) = Returns b'" ..
    from task_step.written [OF this, of kafka] TWriting show ?thesis
      by (intro disjI1 exI [of _ TResponding] exI [of _ b']) simp
  qed simp
next
  case TResponding
  have "\<not> MWriterClose \<le> pr_pc s" using pc by (simp add: pc_order)
  then show ?thesis
    using task_step.acknowledged [of s] task_step.responded [of s] TResponding
    by (intro disjI1 exI [of _ "if kafka then TReading else TStopped"] exI [of _ "pr_batcher s"]) (cases kafka; simp)
qed (use t in simp_all)

lemma main_progress: "main_step s s' \<Longrightarrow> \<exists>s'. process_step s s' \<and> (s', s) \<in> work_left"
  by (intro exI conjI process_step.main, assumption, rule work_left_pc) (auto elim!: main_stepE simp: pc_order)

lemma batcher_progress:
  "batcher_internal (pr_batcher s) b \<Longrightarrow> batcher_work b < batcher_work (pr_batcher s)
   \<Longrightarrow> \<exists>s'. process_step s s' \<and> (s', s) \<in> work_left"
  by (meson process_step.batching work_left_batcher)

lemma handlers_progress:
  assumes inv: "process_inv s" and pc: "pr_pc s = MServerShutdown" and cap: "0 < ab_capacity (pr_batcher s)"
  shows "\<exists>s'. process_step s s' \<and> (s', s) \<in> work_left"
proof (cases "stopped (pr_handlers s)")
  case True
  then show ?thesis using main_progress [OF main_step.server_down [OF pc]] by (simp add: stopped_def)
next
  case False
  then obtain i where i: "i < length (pr_handlers s)" "pr_handlers s ! i \<noteq> TStopped" by (auto simp: stopped_def list_all_length)
  moreover have "pr_handlers s ! i \<noteq> TReading" using inv i(1) by (auto simp: process_inv_def order_ok_def dest: nth_mem)
  ultimately consider t b where "task_step False (pr_handlers s ! i) s t (s\<lparr>pr_batcher := b\<rparr>)" "task_work t < task_work (pr_handlers s ! i)"
    | b where "batcher_internal (pr_batcher s) b" "batcher_work b < batcher_work (pr_batcher s)"
    using task_progress [OF inv _ cap, of "pr_handlers s ! i" False] pc by (auto simp: pc_order)
  then show ?thesis
  proof cases
    case 1
    from process_step.handle [OF i(1) 1(1)] sum_list_map_update_less [OF i(1), of task_work, OF 1(2)] show ?thesis
      by (intro exI conjI) (assumption, rule work_left_tasks, simp_all add: tasks_work_def)
  qed (rule batcher_progress)
qed

lemma workers_progress:
  assumes inv: "process_inv s" and pc: "pr_pc s = MGroupWait" and cap: "0 < ab_capacity (pr_batcher s)"
  shows "\<exists>s'. process_step s s' \<and> (s', s) \<in> work_left"
proof (cases "stopped (pr_workers s)")
  case True
  have c: "pr_cancelled s" using inv pc by (simp add: process_inv_def order_ok_def pc_order)
  show ?thesis
  proof (cases "pr_refresh s \<or> pr_serve s")
    case True
    then have "(s\<lparr>pr_refresh := False\<rparr>, s) \<in> work_left \<or> (s\<lparr>pr_serve := False\<rparr>, s) \<in> work_left"
      by (auto simp: work_left_tasks tasks_work_def)
    moreover have "process_step s (s\<lparr>pr_serve := False\<rparr>)" by (rule process_step.serve_closed) (simp add: pc pc_order)
    ultimately show ?thesis using process_step.refresh_stops [OF c] by blast
  next
    case False
    with True main_progress [OF main_step.group_done [OF pc]] show ?thesis by (simp add: stopped_def)
  qed
next
  case False
  then obtain i where i: "i < length (pr_workers s)" "pr_workers s ! i \<noteq> TStopped" by (auto simp: stopped_def list_all_length)
  have c: "pr_cancelled s" using inv pc by (simp add: process_inv_def order_ok_def pc_order)
  consider "pr_workers s ! i = TReading"
    | t b where "task_step True (pr_workers s ! i) s t (s\<lparr>pr_batcher := b\<rparr>)" "task_work t < task_work (pr_workers s ! i)"
    | b where "batcher_internal (pr_batcher s) b" "batcher_work b < batcher_work (pr_batcher s)"
    using task_progress [OF inv _ cap i(2), of True] pc by (auto simp: pc_order)
  then show ?thesis
  proof cases
    case 1
    from process_step.worker_stops [OF i(1) 1 c] sum_list_map_update_less [OF i(1), of task_work TStopped] 1 show ?thesis
      by (intro exI conjI) (assumption, rule work_left_tasks, simp_all add: tasks_work_def)
  next
    case 2
    from process_step.work [OF i(1) 2(1)] sum_list_map_update_less [OF i(1), of task_work, OF 2(2)] show ?thesis
      by (intro exI conjI) (assumption, rule work_left_tasks, simp_all add: tasks_work_def)
  qed (rule batcher_progress)
qed

lemma simple_progress:
  assumes "pr_pc s \<in> {MSleep, MCancel, MCancelHelper, MPoolShutdown, MReaderClose, MWriterClose, MBatcherDone, MBatcherClose, MInformers}"
  shows "\<exists>s'. main_step s s'"
  using assms by (elim insertE emptyE) (rule exI, erule main_step.intros)+

lemma process_progress:
  assumes inv: "process_inv s" and cap: "0 < ab_capacity (pr_batcher s)" and sig: "pr_signal s" and "pr_pc s \<noteq> MReturned"
  shows "\<exists>s'. process_step s s' \<and> (s', s) \<in> work_left"
proof (cases "pr_pc s")
  case MBatcherWait
  have b: "batcher_inv (pr_batcher s)" "ab_closed (pr_batcher s)" "ab_doneCh (pr_batcher s)"
    using inv MBatcherWait by (simp_all add: process_inv_def order_ok_def pc_order)
  show ?thesis
  proof (cases "shut_down (pr_batcher s)")
    case False
    from closing_step [OF b this] obtain b' where "batcher_internal (pr_batcher s) b'" "closing_work b' < closing_work (pr_batcher s)" by blast
    with b show ?thesis by (intro batcher_progress) (auto simp: batcher_work_def batcher_internal_def)
  qed (rule main_progress [OF main_step.batcher_down [OF MBatcherWait]])
next
  case MSelect
  then show ?thesis using main_progress [OF main_step.woken] sig by blast
next
  case MServerShutdown
  then show ?thesis by (rule handlers_progress [OF inv _ cap])
next
  case MGroupWait
  then show ?thesis by (rule workers_progress [OF inv _ cap])
qed (use simple_progress [of s] main_progress [of s] assms(4) in \<open>auto\<close>)

lemma batcher_internal_capacity: "batcher_internal b b' \<Longrightarrow> ab_capacity b' = ab_capacity b"
proof -
  assume "batcher_internal b b'"
  then have "batcher_step b b'" by (simp add: batcher_internal_def)
  then show ?thesis
  proof cases
    case (send m ns aid err)
    then show ?thesis by (cases rule: WriteActivation_cases) simp_all
  qed simp_all
qed

lemma task_step_capacity:
  assumes "task_step kafka t s t' s'"
  shows "ab_capacity (pr_batcher s') = ab_capacity (pr_batcher s) \<and> pr_signal s' = pr_signal s"
  using assms by cases (auto simp: fault_if_def send_activation_def split: if_splits)

lemma process_step_capacity:
  assumes "process_step s s'"
  shows "ab_capacity (pr_batcher s') = ab_capacity (pr_batcher s) \<and> (pr_signal s \<longrightarrow> pr_signal s')"
  using assms
proof cases
  case main
  then show ?thesis by cases simp_all
qed (auto simp: fault_if_def batcher_internal_capacity dest: task_step_capacity)

lemma process_ends:
  "process_inv s \<Longrightarrow> 0 < ab_capacity (pr_batcher s) \<Longrightarrow> pr_signal s \<Longrightarrow> \<exists>s'. rtranclp process_step s s' \<and> pr_pc s' = MReturned"
proof (induction s rule: wf_induct_rule [OF wf_work_left])
  case (1 s)
  show ?case
  proof (cases "pr_pc s = MReturned")
    case False
    with process_progress [OF "1.prems"] obtain s1 where s1: "process_step s s1" "(s1, s) \<in> work_left" by blast
    moreover have "process_inv s1" "0 < ab_capacity (pr_batcher s1)" "pr_signal s1"
      using process_step_inv [OF "1.prems"(1) s1(1)] process_step_capacity [OF s1(1)] "1.prems" by auto
    ultimately show ?thesis using "1.IH" by (blast intro: converse_rtranclp_into_rtranclp)
  qed blast
qed

lemma capacity_kept: "rtranclp process_step s s' \<Longrightarrow> ab_capacity (pr_batcher s') = ab_capacity (pr_batcher s)"
  by (induction rule: rtranclp_induct) (simp_all add: process_step_capacity)

section \<open>Theorems\<close>

text \<open>
  C26. The shutdown is graceful. In every interleaving of the Kafka workers, the HTTP handlers, the
  other goroutines, the batcher and \<open>main\<close>: no invocation uses the pool after its shutdown, no
  worker reads from the closed reader, no acknowledgement goes to the closed writer, and no activation
  is sent to the closed channel of the batcher (which would panic). From every state the process can
  still reach its end, and at the end every document that an invocation has produced was handed to the
  database, exactly once.
\<close>

theorem graceful_shutdown:
  assumes "rtranclp process_step (process_new workers numCPU) s" and "0 < numCPU"
  shows "pr_faults s = []
    \<and> (\<exists>s'. rtranclp process_step s s' \<and> pr_pc s' = MReturned)
    \<and> (pr_pc s = MReturned \<longrightarrow> mset (concat (ab_flushed (pr_batcher s))) = mset (pr_produced s))"
proof (intro conjI impI)
  note inv = lifecycle.reachable_inv [OF process_new_inv assms(1)]
  show "pr_faults s = []" using inv by (simp add: process_inv_def)
  let ?s = "s\<lparr>pr_signal := True\<rparr>"
  have "process_inv ?s" by (rule process_step_inv [OF inv process_step.signalled])
  moreover have "0 < ab_capacity (pr_batcher ?s)"
    using assms(2) capacity_kept [OF assms(1)] by (simp add: process_new_def NewActivationBatcher_def)
  ultimately show "\<exists>s'. rtranclp process_step s s' \<and> pr_pc s' = MReturned"
    using process_ends [of ?s] process_step.signalled [of s] by (auto intro: converse_rtranclp_into_rtranclp)
  assume ended: "pr_pc s = MReturned"
  have b: "batcher_inv (pr_batcher s)" and o: "order_ok s" and d: "documents_ok s" using inv by (simp_all add: process_inv_def)
  from o ended have st: "stopped (pr_workers s)" "stopped (pr_handlers s)" "shut_down (pr_batcher s)"
    by (simp_all add: order_ok_def pc_order)
  then have "mset (pr_produced s) = mset (ab_accepted (pr_batcher s))"
    using d by (simp add: documents_ok_def stopped_writing)
  then show "mset (concat (ab_flushed (pr_batcher s))) = mset (pr_produced s)"
    using shut_down_flushed [OF b st(3)] by simp
qed

text \<open>A worker has produced a document; the process can still end, with the document written.\<close>

definition producing :: Process where
  "producing = (process_new 1 1)\<lparr>pr_workers := [TWriting example_document], pr_produced := [example_document]\<rparr>"

lemma producing_reachable: "rtranclp process_step (process_new 1 1) producing"
proof -
  let ?s = "(process_new 1 1)\<lparr>pr_workers := [TInvoking]\<rparr>"
  have "process_step (process_new 1 1) ?s"
    using process_step.read [of 0 "process_new 1 1" TInvoking] by (simp add: process_new_def pc_order)
  moreover have "document (Inr ''{\"logs\":[]}'') ''n'' ''a'' = Returns (Inr example_document)"
    by (simp add: document_def example_document_def)
  from task_step.recorded [OF this, of True ?s]
  have "task_step True (pr_workers ?s ! 0) ?s (TWriting example_document) (?s\<lparr>pr_produced := [example_document]\<rparr>)"
    by (simp add: process_new_def)
  from process_step.work [OF _ this] have "process_step ?s producing" by (simp add: producing_def process_new_def)
  ultimately show ?thesis by (rule converse_rtranclp_into_rtranclp [OF _ r_into_rtranclp])
qed

theorem graceful_shutdown_witness:
  "pr_produced producing = [example_document]
    \<and> (\<exists>s. rtranclp process_step producing s \<and> pr_pc s = MReturned \<and> pr_faults s = []
         \<and> mset (concat (ab_flushed (pr_batcher s))) = mset (pr_produced s))"
proof -
  from graceful_shutdown [OF producing_reachable] obtain s where s: "rtranclp process_step producing s" "pr_pc s = MReturned"
    by auto
  from graceful_shutdown [OF rtranclp_trans [OF producing_reachable s(1)]] s show ?thesis
    by (auto simp: producing_def)
qed

end
