(* ===== verification/Support.thy ===== *)
theory Support
  imports Protocol
begin

text \<open>
  The small packages that the others share: the clock (\<open>pkg/clock/clock.go\<close>), log levels and the log
  event in a context (\<open>pkg/logging/level.go\<close>, \<open>pkg/logging/context.go\<close>) and the TLS configuration for the
  cluster (\<open>pkg/tls/tls.go\<close>). Log levels are modelled on ASCII input, like byte sizes.
\<close>

section \<open>The clock\<close>

definition minDuration :: Duration where "minDuration = - (2 ^ 63)"
definition maxDuration :: Duration where "maxDuration = 2 ^ 63 - 1"

text \<open>\<open>Time.Sub\<close> saturates.\<close>

definition Time_Sub :: "Time \<Rightarrow> Time \<Rightarrow> Duration" where
  "Time_Sub t u = max minDuration (min maxDuration (t - u))"

record 'w PassiveClock =
  clk_Now :: "'w \<Rightarrow> Time \<times> 'w"
  clk_Since :: "Time \<Rightarrow> 'w \<Rightarrow> Duration \<times> 'w"

text \<open>\<open>now\<close> is \<open>time.Now\<close>; \<open>time.Since t\<close> is \<open>time.Now().Sub(t)\<close>.\<close>

definition SystemClock :: "('w \<Rightarrow> Time \<times> 'w) \<Rightarrow> 'w PassiveClock" where
  "SystemClock now =
     \<lparr>clk_Now = now, clk_Since = \<lambda>t w. (let (n, w') = now w in (Time_Sub n t, w'))\<rparr>"

definition FakeClock :: "Time \<Rightarrow> 'w PassiveClock" where
  "FakeClock time = \<lparr>clk_Now = \<lambda>w. (time, w), clk_Since = \<lambda>t w. (Time_Sub time t, w)\<rparr>"

text \<open>What the users of a clock rely on.\<close>

locale passive_clock =
  fixes clock :: "'w PassiveClock"
  assumes Since_Now: "clk_Since clock t w = (Time_Sub (fst (clk_Now clock w)) t, snd (clk_Now clock w))"
begin

lemma Since_bounds: "minDuration \<le> fst (clk_Since clock t w) \<and> fst (clk_Since clock t w) \<le> maxDuration"
  by (auto simp: Since_Now Time_Sub_def minDuration_def maxDuration_def)

lemma Since_exact:
  "\<bar>fst (clk_Now clock w) - t\<bar> < 2 ^ 63 \<Longrightarrow> fst (clk_Since clock t w) = fst (clk_Now clock w) - t"
  by (auto simp: Since_Now Time_Sub_def minDuration_def maxDuration_def)

lemma Since_nonneg: "t \<le> fst (clk_Now clock w) \<Longrightarrow> 0 \<le> fst (clk_Since clock t w)"
  by (auto simp: Since_Now Time_Sub_def minDuration_def maxDuration_def)

end

interpretation system_clock: passive_clock "SystemClock now" for now :: "'w \<Rightarrow> Time \<times> 'w"
  by unfold_locales (simp add: SystemClock_def split_beta)

interpretation fake_clock: passive_clock "FakeClock time :: 'w PassiveClock" for time
  by unfold_locales (simp add: FakeClock_def)

section \<open>Log levels\<close>

datatype Level = DebugLevel | InfoLevel | WarnLevel | ErrorLevel

definition to_lower :: "char \<Rightarrow> char" where
  "to_lower c = (let n = of_char c :: nat in if 65 \<le> n \<and> n \<le> 90 then char_of (n + 32) else c)"

definition ToLower :: "string \<Rightarrow> string" where
  "ToLower s = map to_lower s"

text \<open>The receiver is overwritten only on success.\<close>

definition Level_Decode :: "Level \<Rightarrow> string \<Rightarrow> go_error option \<times> Level" where
  "Level_Decode l s =
     (let lower = ToLower s in
      if lower = ''debug'' then (None, DebugLevel)
      else if lower = ''info'' then (None, InfoLevel)
      else if lower = ''warn'' then (None, WarnLevel)
      else if lower = ''error'' then (None, ErrorLevel)
      else (Some (ErrorString (''failed to parse log level '' @ go_quote s)), l))"

definition level_name :: "Level \<Rightarrow> string" where
  "level_name l = (case l of DebugLevel \<Rightarrow> ''debug'' | InfoLevel \<Rightarrow> ''info'' | WarnLevel \<Rightarrow> ''warn'' | ErrorLevel \<Rightarrow> ''error'')"

text \<open>Exactly the spellings of a level's name, whatever their case, are accepted.\<close>

lemma Level_Decode_iff:
  "Level_Decode l s = (None, m) \<longleftrightarrow> ToLower s = level_name m"
  by (cases m) (auto simp: Level_Decode_def level_name_def Let_def)

lemma Level_Decode_error_keeps: "fst (Level_Decode l s) \<noteq> None \<Longrightarrow> snd (Level_Decode l s) = l"
  by (auto simp: Level_Decode_def Let_def split: if_splits)

section \<open>The event in a context\<close>

text \<open>
  A context is the chain of the values that were attached to it, the latest first. The key of the
  event has the type \<open>struct{}\<close>, so it equals every other key of that type. A value is a log event (by
  its address) or something else.
\<close>

datatype ctx_key = EmptyStruct | NamedKey string

datatype ctx_value = EventValue nat | OtherValue string

type_synonym ctx = "(ctx_key \<times> ctx_value) list"

definition WithValue :: "ctx \<Rightarrow> ctx_key \<Rightarrow> ctx_value \<Rightarrow> ctx" where
  "WithValue ctx k v = (k, v) # ctx"

definition eventKey :: ctx_key where
  "eventKey = EmptyStruct"

definition WithContextEvent :: "ctx \<Rightarrow> nat \<Rightarrow> ctx" where
  "WithContextEvent ctx event = WithValue ctx eventKey (EventValue event)"

definition ContextEvent :: "ctx \<Rightarrow> nat option" where
  "ContextEvent ctx =
     (case map_of ctx eventKey of
        Some (EventValue event) \<Rightarrow> Some event
      | _ \<Rightarrow> None)"

lemma ContextEvent_innermost [simp]: "ContextEvent (WithContextEvent ctx event) = Some event"
  by (simp add: ContextEvent_def WithContextEvent_def WithValue_def)

lemma ContextEvent_other_key: "k \<noteq> eventKey \<Longrightarrow> ContextEvent (WithValue ctx k v) = ContextEvent ctx"
  by (simp add: ContextEvent_def WithValue_def)

text \<open>Any other value under a key of type \<open>struct{}\<close> hides the event.\<close>

lemma ContextEvent_hidden: "ContextEvent (WithValue (WithContextEvent ctx event) EmptyStruct (OtherValue v)) = None"
  by (simp add: ContextEvent_def WithValue_def eventKey_def)

section \<open>TLS\<close>

definition clusterCACertPath :: string where "clusterCACertPath = ''/certs/ca.crt''"

definition VersionTLS12 :: nat where "VersionTLS12 = 771"

record 'p TLSConfig =
  tls_MinVersion :: nat
  tls_RootCAs :: 'p

text \<open>
  \<open>systemPool\<close> is \<open>x509.SystemCertPool\<close>, \<open>emptyPool\<close> \<open>x509.NewCertPool\<close>, \<open>readFile\<close> \<open>os.ReadFile\<close>, and
  \<open>appendCerts\<close> is \<open>AppendCertsFromPEM\<close>: the pool afterwards and whether a certificate was added.
\<close>

definition GetClusterTLSConfig ::
  "'p result \<Rightarrow> 'p \<Rightarrow> (string \<Rightarrow> bytes result) \<Rightarrow> ('p \<Rightarrow> bytes \<Rightarrow> 'p \<times> bool) \<Rightarrow> 'p TLSConfig result" where
  "GetClusterTLSConfig systemPool emptyPool readFile appendCerts =
     (let pool = (case systemPool of Inl err \<Rightarrow> emptyPool | Inr p \<Rightarrow> p) in
      case readFile clusterCACertPath of
        Inl err \<Rightarrow> Inl (Errorf ''failed to read cluster CA cert: %w'' [err])
      | Inr crt \<Rightarrow>
          (let (pool1, ok) = appendCerts pool crt in
           if \<not> ok then Inl (ErrorString ''failed to append cert to pool'')
           else Inr \<lparr>tls_MinVersion = VersionTLS12, tls_RootCAs = pool1\<rparr>))"

text \<open>
  A configuration trusts the system's certificates, if they can be read, and the one of the cluster;
  \<open>trusts\<close> says which certificates a pool holds.
\<close>

lemma GetClusterTLSConfig_trusts:
  assumes "GetClusterTLSConfig systemPool emptyPool readFile appendCerts = Inr cfg"
    and "\<And>p crt p'. appendCerts p crt = (p', True) \<Longrightarrow> trusts p' = trusts p \<union> certs crt"
  obtains crt where "readFile clusterCACertPath = Inr crt" and "tls_MinVersion cfg = VersionTLS12"
    and "trusts (tls_RootCAs cfg) = (case systemPool of Inl _ \<Rightarrow> trusts emptyPool | Inr p \<Rightarrow> trusts p) \<union> certs crt"
proof -
  let ?pool = "case systemPool of Inl err \<Rightarrow> emptyPool | Inr p \<Rightarrow> p"
  from assms(1) obtain crt pool1 where crt: "readFile clusterCACertPath = Inr crt" "appendCerts ?pool crt = (pool1, True)"
    "cfg = \<lparr>tls_MinVersion = VersionTLS12, tls_RootCAs = pool1\<rparr>"
    by (auto simp: GetClusterTLSConfig_def Let_def split: sum.splits if_splits prod.splits)
  with assms(2) [OF crt(2)] show thesis by (intro that [of crt]) (simp_all split: sum.splits)
qed

end
