(* ===== verification/Workers.thy ===== *)
theory Workers
  imports Frontends Transition
begin

text \<open>
  The parts of \<open>cmd/invoker/main.go\<close> with a logic of their own: the addresses and the number of
  workers, the loop of a worker, the highest offset that all workers share, the gauge of the lag,
  the refresh of the blocked namespaces and the channel that wakes the firewall's goroutine; and
  \<open>FetchLastOffset\<close> of \<open>pkg/kafka/kafka.go\<close>.
\<close>

section \<open>Configuration\<close>

definition usableIPs :: "string list" where
  "usableIPs = map (\<lambda>i. ''172.18.0.'' @ fmt_d i) [2..<255]"

text \<open>
  The number of workers: a division by zero panics, and an invoker without an address for every
  container that could run ends with a fatal error. The conversion to \<open>int\<close> is signed.
\<close>

definition worker_count :: "ByteSize \<Rightarrow> ByteSize \<Rightarrow> int outcome" where
  "worker_count userMemory minimumFunctionMemory =
     (if minimumFunctionMemory = 0 then Panics ''integer divide by zero''
      else
        (let workers = sint (userMemory div minimumFunctionMemory) in
         if int (length usableIPs) < workers then Panics ''not enough IPs for the theoretical limit of containers''
         else Returns workers))"

section \<open>A worker\<close>

text \<open>Every worker has an address of its own for its container.\<close>

lemma usableIPs_distinct: "distinct usableIPs \<and> length usableIPs = 253"
proof -
  have "distinct usableIPs" unfolding usableIPs_def by (rule distinct_numbered)
  moreover have "length usableIPs = 255 - 2" by (simp only: usableIPs_def length_map length_upt)
  ultimately show ?thesis by simp
qed

lemma worker_count_addresses: "worker_count userMemory minimum = Returns n \<Longrightarrow> n \<le> int (length usableIPs)"
  by (auto simp: worker_count_def Let_def split: if_splits)

record ReadMessage =
  rm_Offset :: int
  rm_Value :: bytes

datatype 'w round =
    Stopped
  | Continued 'w

text \<open>
  One round of the loop: the offset that it stores, if it read a message, and what follows. The
  metric of the delay is left out.
\<close>

definition worker_round ::
  "'w FrontendEnv \<Rightarrow> KafkaRunner \<Rightarrow> (bytes \<Rightarrow> ActivationMessage result outcome) \<Rightarrow> ReadMessage result \<Rightarrow> 'w
   \<Rightarrow> int option \<times> 'w round outcome" where
  "worker_round env kafkaRunner parse read w =
     (case read of
        Inl err \<Rightarrow> (None, Returns (if errors_Is err Canceled then Stopped else Continued w))
      | Inr msg \<Rightarrow>
          (Some (rm_Offset msg + 1),
           case parse (rm_Value msg) of
             Panics m \<Rightarrow> Panics m
           | Blocks \<Rightarrow> Blocks
           | Returns (Inl err) \<Rightarrow> Returns (Continued w)
           | Returns (Inr parsed) \<Rightarrow> Returns (Continued (kafka_Invoke env kafkaRunner parsed w))))"

text \<open>
  The refresh of the blocked namespaces. A failed request is logged, and the nil map that comes
  with the error replaces the set.
\<close>

definition refresh_blocked :: "string set result \<Rightarrow> KafkaRunner \<Rightarrow> KafkaRunner" where
  "refresh_blocked fetched r =
     r\<lparr>kr_BlockedNamespaces := (case fetched of Inl err \<Rightarrow> {} | Inr blockedNamespaces \<Rightarrow> blockedNamespaces)\<rparr>"

lemma failed_refresh_unblocks: "kr_BlockedNamespaces (refresh_blocked (Inl err) r) = {}"
  by (simp add: refresh_blocked_def)

section \<open>The highest offset\<close>

text \<open>
  The loop around \<open>CompareAndSwap\<close>. A worker has nothing to store, is about to load the current
  value, or compares with the value it has loaded. \<open>os_seen\<close> are the offsets that were given.
\<close>

datatype offset_phase = OffIdle | OffLoad int | OffSwap int int

record OffsetState =
  os_lastOffset :: int
  os_workers :: "offset_phase list"
  os_seen :: "int set"

definition offsets_new :: "nat \<Rightarrow> OffsetState" where
  "offsets_new workers = \<lparr>os_lastOffset = 0, os_workers = replicate workers OffIdle, os_seen = {}\<rparr>"

abbreviation off_at :: "OffsetState \<Rightarrow> nat \<Rightarrow> offset_phase \<Rightarrow> bool" where
  "off_at s i p \<equiv> i < length (os_workers s) \<and> os_workers s ! i = p"

inductive offset_step :: "OffsetState \<Rightarrow> OffsetState \<Rightarrow> bool" where
  message: "off_at s i OffIdle \<Longrightarrow> 0 \<le> msgOffset \<Longrightarrow> offset = msgOffset + 1
    \<Longrightarrow> offset_step s (s\<lparr>os_workers := (os_workers s)[i := OffLoad offset], os_seen := insert offset (os_seen s)\<rparr>)"
| load_done: "off_at s i (OffLoad offset) \<Longrightarrow> offset \<le> os_lastOffset s
    \<Longrightarrow> offset_step s (s\<lparr>os_workers := (os_workers s)[i := OffIdle]\<rparr>)"
| load_swap: "off_at s i (OffLoad offset) \<Longrightarrow> os_lastOffset s < offset
    \<Longrightarrow> offset_step s (s\<lparr>os_workers := (os_workers s)[i := OffSwap offset (os_lastOffset s)]\<rparr>)"
| swapped: "off_at s i (OffSwap offset current) \<Longrightarrow> os_lastOffset s = current
    \<Longrightarrow> offset_step s (s\<lparr>os_workers := (os_workers s)[i := OffIdle], os_lastOffset := offset\<rparr>)"
| not_swapped: "off_at s i (OffSwap offset current) \<Longrightarrow> os_lastOffset s \<noteq> current
    \<Longrightarrow> offset_step s (s\<lparr>os_workers := (os_workers s)[i := OffLoad offset]\<rparr>)"

inductive_cases offset_stepE: "offset_step s s'"

text \<open>The offset that a worker still has to store.\<close>

fun pending_offset :: "offset_phase \<Rightarrow> int option" where
  "pending_offset OffIdle = None"
| "pending_offset (OffLoad offset) = Some offset"
| "pending_offset (OffSwap offset current) = Some offset"

definition pending :: "OffsetState \<Rightarrow> int \<Rightarrow> bool" where
  "pending s offset = (\<exists>i < length (os_workers s). pending_offset (os_workers s ! i) = Some offset)"

definition offset_inv :: "OffsetState \<Rightarrow> bool" where
  "offset_inv s =
     (finite (os_seen s) \<and> (\<forall>offset \<in> os_seen s. 0 < offset) \<and> os_lastOffset s \<in> insert 0 (os_seen s) \<and>
      (\<forall>offset \<in> os_seen s. offset \<le> os_lastOffset s \<or> pending s offset) \<and>
      (\<forall>offset. pending s offset \<longrightarrow> offset \<in> os_seen s) \<and>
      (\<forall>i < length (os_workers s). \<forall>offset current. os_workers s ! i = OffSwap offset current \<longrightarrow> current < offset))"

lemma pending_update:
  assumes "i < length (os_workers s)"
  shows "pending (s\<lparr>os_workers := (os_workers s)[i := p]\<rparr>) offset \<longleftrightarrow>
    pending_offset p = Some offset \<or> (\<exists>j < length (os_workers s). j \<noteq> i \<and> pending_offset (os_workers s ! j) = Some offset)"
  using assms by (auto simp: pending_def nth_list_update)

lemma pending_split:
  assumes "i < length (os_workers s)"
  shows "pending s offset \<longleftrightarrow> pending_offset (os_workers s ! i) = Some offset \<or>
    (\<exists>j < length (os_workers s). j \<noteq> i \<and> pending_offset (os_workers s ! j) = Some offset)"
  using assms by (auto simp: pending_def)

lemma pending_fields [simp]:
  "pending (s\<lparr>os_lastOffset := l\<rparr>) = pending s" "pending (s\<lparr>os_seen := seen\<rparr>) = pending s"
  by (auto simp: pending_def fun_eq_iff)

lemma offset_step_inv:
  assumes "offset_inv s" and "offset_step s s'"
  shows "offset_inv s'"
  using assms(2)
proof cases
  case (message i msgOffset offset)
  let ?t = "s\<lparr>os_workers := (os_workers s)[i := OffLoad offset]\<rparr>"
  have "pending ?t x \<longleftrightarrow> x = offset \<or> pending s x" for x
    using message pending_update [of i s] pending_split [of i s x] by auto
  moreover have "pending s' = pending ?t" using message(1) by (auto simp: pending_def fun_eq_iff)
  ultimately show ?thesis
    using assms(1) message by (auto simp: offset_inv_def nth_list_update)
next
  case (load_done i offset)
  have "pending s x \<longleftrightarrow> x = offset \<or> pending s' x" for x
    using load_done pending_update [of i s] pending_split [of i s x] by auto
  with assms(1) load_done show ?thesis by (auto simp: offset_inv_def nth_list_update)
next
  case (load_swap i offset)
  have "pending s' x \<longleftrightarrow> pending s x" for x
    using load_swap pending_update [of i s] pending_split [of i s x] by auto
  with assms(1) load_swap show ?thesis by (auto simp: offset_inv_def nth_list_update)
next
  case (swapped i offset current)
  let ?t = "s\<lparr>os_workers := (os_workers s)[i := OffIdle]\<rparr>"
  have "pending s x \<longleftrightarrow> x = offset \<or> pending ?t x" for x
    using swapped pending_update [of i s] pending_split [of i s x] by auto
  moreover have "pending s' = pending ?t" using swapped(1) by (auto simp: pending_def fun_eq_iff)
  moreover have "current < offset" using assms(1) swapped by (auto simp: offset_inv_def)
  ultimately show ?thesis
    using assms(1) swapped by (fastforce simp: offset_inv_def nth_list_update)
next
  case (not_swapped i offset current)
  have "pending s' x \<longleftrightarrow> pending s x" for x
    using not_swapped pending_update [of i s] pending_split [of i s x] by auto
  with assms(1) not_swapped show ?thesis by (auto simp: offset_inv_def nth_list_update)
qed

definition offset_good :: "OffsetState \<Rightarrow> bool" where
  "offset_good s =
     ((\<forall>offset. \<not> pending s offset) \<longrightarrow> os_lastOffset s = Max (insert 0 (os_seen s)))"

lemma offset_inv_good:
  assumes "offset_inv s"
  shows "offset_good s"
proof (cases "\<forall>offset. \<not> pending s offset")
  case True
  have "Max (insert 0 (os_seen s)) = os_lastOffset s"
  proof (rule Max_eqI)
    show "x \<le> os_lastOffset s" if "x \<in> insert 0 (os_seen s)" for x
      using that assms True by (force simp: offset_inv_def)
  qed (use assms in \<open>simp_all add: offset_inv_def\<close>)
  then show ?thesis by (simp add: offset_good_def)
qed (auto simp: offset_good_def)

interpretation offsets: safe_system offset_step offset_inv offset_good
  by unfold_locales (auto intro: offset_step_inv offset_inv_good)

lemma offsets_new_inv: "offset_inv (offsets_new n)"
  by (simp add: offset_inv_def offsets_new_def pending_def)

text \<open>
  C28. The shared offset. In every interleaving of the workers the stored offset never decreases,
  and whenever no worker has an offset left to store it is the highest offset that any worker
  has read.
\<close>

theorem last_offset_is_maximum:
  assumes "rtranclp offset_step (offsets_new n) s"
  shows "((\<forall>p \<in> set (os_workers s). p = OffIdle) \<longrightarrow> os_lastOffset s = Max (insert 0 (os_seen s))) \<and>
    (\<forall>s'. offset_step s s' \<longrightarrow> os_lastOffset s \<le> os_lastOffset s')"
proof (intro conjI allI impI)
  assume "\<forall>p \<in> set (os_workers s). p = OffIdle"
  then have "\<forall>offset. \<not> pending s offset" by (auto simp: pending_def all_set_conv_all_nth)
  with offsets.always_good [OF offsets_new_inv assms] show "os_lastOffset s = Max (insert 0 (os_seen s))"
    by (simp add: offset_good_def)
next
  fix s'
  assume "offset_step s s'"
  moreover have "\<forall>i < length (os_workers s). \<forall>offset current. os_workers s ! i = OffSwap offset current \<longrightarrow> current < offset"
    using offsets.reachable_inv [OF offsets_new_inv assms] by (simp add: offset_inv_def)
  ultimately show "os_lastOffset s \<le> os_lastOffset s'" by (auto elim!: offset_stepE intro: less_imp_le)
qed

text \<open>One worker that stores one offset.\<close>

theorem last_offset_is_maximum_witness:
  "\<exists>s. rtranclp offset_step (offsets_new 1) s \<and> os_seen s = {8} \<and> os_lastOffset s = Max (insert 0 (os_seen s))"
proof -
  let ?s0 = "offsets_new 1"
  let ?s1 = "\<lparr>os_lastOffset = 0, os_workers = [OffLoad 8], os_seen = {8}\<rparr>"
  let ?s2 = "\<lparr>os_lastOffset = 0, os_workers = [OffSwap 8 0], os_seen = {8}\<rparr>"
  let ?s3 = "\<lparr>os_lastOffset = 8, os_workers = [OffIdle], os_seen = {8}\<rparr>"
  have "offset_step ?s0 ?s1" using offset_step.message [where s = ?s0 and i = 0 and msgOffset = 7 and offset = 8] by (simp add: offsets_new_def)
  moreover have "offset_step ?s1 ?s2" using offset_step.load_swap [where s = ?s1 and i = 0 and offset = 8] by simp
  moreover have "offset_step ?s2 ?s3" using offset_step.swapped [where s = ?s2 and i = 0 and offset = 8 and current = 0] by simp
  ultimately have run: "rtranclp offset_step ?s0 ?s3"
    by (rule converse_rtranclp_into_rtranclp [OF _ converse_rtranclp_into_rtranclp [OF _ r_into_rtranclp]])
  with last_offset_is_maximum [OF run] show ?thesis by (intro exI [of _ ?s3]) simp
qed

section \<open>The lag\<close>

text \<open>The argument is what \<open>ListOffsets\<close> answers: the partitions of each topic with their last offset.\<close>

definition FetchLastOffset :: "((string \<times> int list) list) result \<Rightarrow> string \<Rightarrow> int result" where
  "FetchLastOffset offsets topic =
     (case offsets of
        Inl err \<Rightarrow> Inl (Errorf ''failed to read offsets from kafka: %w'' [err])
      | Inr topics \<Rightarrow>
          (case map_of topics topic of
             None \<Rightarrow> Inl (ErrorString (''offsets from kafka didn't contain '' @ go_quote topic))
           | Some [] \<Rightarrow> Inl (ErrorString ''offsets didn't contain expected partition 0'')
           | Some (lastOffset # _) \<Rightarrow> Inr lastOffset))"

definition lag_gauge :: "((string \<times> int list) list) result \<Rightarrow> string \<Rightarrow> int \<Rightarrow> int" where
  "lag_gauge offsets topic lastCommittedOffset =
     (if lastCommittedOffset = 0 then 0
      else
        (case FetchLastOffset offsets topic of
           Inl err \<Rightarrow> 0
         | Inr lastOffsetOnTopic \<Rightarrow>
             (let lag = lastOffsetOnTopic - lastCommittedOffset in if lag < 0 then 0 else lag)))"

lemma lag_gauge_nonneg: "0 \<le> lag_gauge offsets topic committed"
  by (simp add: lag_gauge_def Let_def split: sum.splits)

section \<open>Waking the firewall\<close>

text \<open>
  The channel of capacity one that coalesces pokes: \<open>fp_poke\<close> says that it is full, \<open>fp_stale\<close> that
  something has changed since the last reconciliation began.
\<close>

record FirewallPoke =
  fp_poke :: bool
  fp_stale :: bool

definition poke_firewall :: "FirewallPoke \<Rightarrow> FirewallPoke" where
  "poke_firewall s = s\<lparr>fp_poke := True, fp_stale := True\<rparr>"

inductive poke_step :: "FirewallPoke \<Rightarrow> FirewallPoke \<Rightarrow> bool" where
  poke: "poke_step s (poke_firewall s)"
| reconcile_poked: "fp_poke s \<Longrightarrow> poke_step s (s\<lparr>fp_poke := False, fp_stale := False\<rparr>)"
| reconcile_tick: "poke_step s (s\<lparr>fp_stale := False\<rparr>)"

definition no_lost_poke :: "FirewallPoke \<Rightarrow> bool" where
  "no_lost_poke s = (fp_stale s \<longrightarrow> fp_poke s)"

interpretation firewall_poke: transition_system poke_step no_lost_poke
  by unfold_locales (auto simp: no_lost_poke_def poke_firewall_def elim!: poke_step.cases)

text \<open>A change is never lost: while the rules are out of date, another reconciliation is due.\<close>

lemma stale_is_poked:
  "rtranclp poke_step \<lparr>fp_poke = False, fp_stale = False\<rparr> s \<Longrightarrow> fp_stale s \<Longrightarrow> \<exists>s'. poke_step s s' \<and> \<not> fp_stale s'"
  using firewall_poke.reachable_inv [of "\<lparr>fp_poke = False, fp_stale = False\<rparr>" s] poke_step.reconcile_poked [of s]
  by (force simp: no_lost_poke_def)

end
