(* ===== verification/Kafka.thy ===== *)
theory Kafka
  imports Units Protocol
begin

text \<open>
  \<open>pkg/kafka/kafka.go\<close>: the settings of the Kafka clients and the creation of the invoker's topic.
  The Kafka library is a parameter (\<open>KafkaOps\<close>); a connection is known by its number. The TLS
  configuration only carries the name of the server here.
\<close>

definition connectionTimeout :: Duration where "connectionTimeout = 10 * Second"

definition invokerMaxMessageSize :: ByteSize where "invokerMaxMessageSize = 2 * Megabyte"

definition tlsServerName :: string where "tlsServerName = ''kafka.openwhisk.svc.cluster.local''"

definition Hour :: Duration where "Hour = 60 * Minute"

section \<open>Clients\<close>

record WriterConfig =
  wc_Addr :: string
  wc_DialTimeout :: Duration
  wc_ServerName :: string
  wc_BatchBytes :: ByteSize
  wc_BatchSize :: nat
  wc_MaxAttempts :: nat

definition NewKafkaWriter :: "string \<Rightarrow> WriterConfig" where
  "NewKafkaWriter host =
     \<lparr>wc_Addr = host, wc_DialTimeout = connectionTimeout, wc_ServerName = tlsServerName,
      wc_BatchBytes = invokerMaxMessageSize, wc_BatchSize = 1, wc_MaxAttempts = 10\<rparr>"

datatype start_offset = LastOffset | FirstOffset

record ReaderConfig =
  rd_DialTimeout :: Duration
  rd_ServerName :: string
  rd_Brokers :: "string list"
  rd_GroupID :: string
  rd_Topic :: string
  rd_MinBytes :: nat
  rd_MaxBytes :: ByteSize
  rd_MaxWait :: Duration
  rd_MaxAttempts :: nat
  rd_StartOffset :: start_offset
  rd_RetentionTime :: Duration

definition NewKafkaReader :: "string \<Rightarrow> string \<Rightarrow> ReaderConfig" where
  "NewKafkaReader host topic =
     \<lparr>rd_DialTimeout = connectionTimeout, rd_ServerName = tlsServerName, rd_Brokers = [host],
      rd_GroupID = topic, rd_Topic = topic, rd_MinBytes = 1, rd_MaxBytes = invokerMaxMessageSize,
      rd_MaxWait = 500 * Millisecond, rd_MaxAttempts = 10, rd_StartOffset = LastOffset,
      rd_RetentionTime = 7 * 24 * Hour\<rparr>"

record ClientConfig =
  kc_Addr :: string
  kc_DialTimeout :: Duration
  kc_ServerName :: string

definition NewKafkaClient :: "string \<Rightarrow> ClientConfig" where
  "NewKafkaClient host = \<lparr>kc_Addr = host, kc_DialTimeout = connectionTimeout, kc_ServerName = tlsServerName\<rparr>"

section \<open>Topics\<close>

record TopicConfig =
  tc_Topic :: string
  tc_NumPartitions :: nat
  tc_ReplicationFactor :: nat
  tc_ConfigEntries :: "(string \<times> string) list"

text \<open>\<open>ko_Dial\<close> takes the timeout, the server name of the TLS configuration and the address.\<close>

record 'w KafkaOps =
  ko_Dial :: "Duration \<Rightarrow> string \<Rightarrow> string \<Rightarrow> 'w \<Rightarrow> nat result \<times> 'w"
  ko_Controller :: "nat \<Rightarrow> 'w \<Rightarrow> (string \<times> nat) result \<times> 'w"
  ko_CreateTopics :: "nat \<Rightarrow> TopicConfig \<Rightarrow> 'w \<Rightarrow> go_error option \<times> 'w"
  ko_Close :: "nat \<Rightarrow> 'w \<Rightarrow> 'w"

definition host_port :: "string \<Rightarrow> string \<Rightarrow> string" where
  "host_port host port =
     (if CHR '':'' \<in> set host then ''['' @ host @ '']:'' @ port else host @ '':'' @ port)"

text \<open>The part with the connection to the controller; that connection is closed at the end.\<close>

definition create_at_controller :: "'w KafkaOps \<Rightarrow> TopicConfig \<Rightarrow> string \<times> nat \<Rightarrow> 'w \<Rightarrow> go_error option \<times> 'w" where
  "create_at_controller ops topic controller w =
     (let (dialed, w1) = ko_Dial ops connectionTimeout tlsServerName (host_port (fst controller) (fmt_d (snd controller))) w in
      case dialed of
        Inl err \<Rightarrow> (Some (Errorf ''failed to connect to controller to create topic: %w'' [err]), w1)
      | Inr controllerConn \<Rightarrow>
          (let (err, w2) = ko_CreateTopics ops controllerConn topic w1 in
           (map_option (\<lambda>e. Errorf ''failed to create topic: %w'' [e]) err, ko_Close ops controllerConn w2)))"

definition CreateTopic :: "'w KafkaOps \<Rightarrow> string \<Rightarrow> TopicConfig \<Rightarrow> 'w \<Rightarrow> go_error option \<times> 'w" where
  "CreateTopic ops host topic w =
     (let (dialed, w1) = ko_Dial ops connectionTimeout tlsServerName host w in
      case dialed of
        Inl err \<Rightarrow> (Some (Errorf ''failed to connect to kafka to create topic: %w'' [err]), w1)
      | Inr conn \<Rightarrow>
          (let (found, w2) = ko_Controller ops conn w1;
               (err, w3) =
                 (case found of
                    Inl err \<Rightarrow> (Some (Errorf ''failed to get controller of the kafka cluster: %w'' [err]), w2)
                  | Inr controller \<Rightarrow> create_at_controller ops topic controller w2)
           in (err, ko_Close ops conn w3)))"

definition invoker_topic :: "string \<Rightarrow> TopicConfig" where
  "invoker_topic topic =
     \<lparr>tc_Topic = topic, tc_NumPartitions = 1, tc_ReplicationFactor = 1,
      tc_ConfigEntries =
        [(''max.message.bytes'', fmt_i (sint invokerMaxMessageSize)),
         (''segment.bytes'', fmt_i (sint (512 * Megabyte))),
         (''retention.bytes'', fmt_i (sint (1 * Gigabyte))),
         (''retention.ms'', fmt_i (Milliseconds (48 * Hour)))]\<rparr>"

definition CreateInvokerTopic :: "'w KafkaOps \<Rightarrow> string \<Rightarrow> string \<Rightarrow> 'w \<Rightarrow> go_error option \<times> 'w" where
  "CreateInvokerTopic ops host topic w =
     (let (err, w1) = CreateTopic ops host (invoker_topic topic) w in
      (map_option (\<lambda>e. Errorf ''failed to create invoker topic: %w'' [e]) err, w1))"

text \<open>
  Every connection that is opened is closed: with a counter of the open connections beside the
  world, the counter is what it was before.
\<close>

definition counted :: "'w KafkaOps \<Rightarrow> ('w \<times> int) KafkaOps" where
  "counted ops =
     \<lparr>ko_Dial = \<lambda>t n a (w, k). let (r, w') = ko_Dial ops t n a w in (r, w', (case r of Inr _ \<Rightarrow> k + 1 | Inl _ \<Rightarrow> k)),
      ko_Controller = \<lambda>c (w, k). let (r, w') = ko_Controller ops c w in (r, w', k),
      ko_CreateTopics = \<lambda>c topic (w, k). let (r, w') = ko_CreateTopics ops c topic w in (r, w', k),
      ko_Close = \<lambda>c (w, k). (ko_Close ops c w, k - 1)\<rparr>"

lemma create_at_controller_closes: "snd (snd (create_at_controller (counted ops) topic controller (w, k))) = k"
  by (simp add: create_at_controller_def counted_def Let_def split_beta split: sum.splits)

lemma CreateTopic_closes: "snd (snd (CreateTopic (counted ops) host topic (w, k))) = k"
  using create_at_controller_closes [of ops topic]
  by (simp add: CreateTopic_def Let_def split_beta split: sum.splits)
    (simp add: counted_def Let_def split_beta split: sum.splits)

end
