(* ===== verification/Startup.thy ===== *)
theory Startup
  imports Support Workers Kafka Firewall Function_Cache Batcher Couchdb Pool Docker
begin

text \<open>
  The start of the process (\<open>main\<close> in \<open>cmd/invoker/main.go\<close>): the configuration, the construction of
  all components from it in the order of the source, and the HTTP server with its routes. The libraries
  are parameters (\<open>StartupOps\<close>); the components are those of the other theories. A fatal log line ends
  the process.
\<close>

section \<open>Configuration\<close>

record couchConfig =
  couch_URL :: string
  couch_Username :: string
  couch_Password :: string

record containerConfig =
  cc_APIHost :: string
  cc_DNSServers :: "string list"
  cc_Network :: string
  cc_Subnet :: string
  cc_BridgeName :: string

record config =
  cfg_ID :: int
  cfg_LogLevel :: Level
  cfg_Couch :: couchConfig
  cfg_KafkaHosts :: string
  cfg_UserMemory :: ByteSize
  cfg_MinimumFunctionMemory :: ByteSize
  cfg_EncryptionKeys :: Keys
  cfg_RuntimesManifest :: RuntimeManifests
  cfg_Containers :: containerConfig

section \<open>The libraries\<close>

text \<open>
  \<open>so_Process\<close> is \<open>envconfig.Process\<close> with the \<open>Decode\<close> methods of the fields; \<open>so_NewWeighted\<close> is
  \<open>semaphore.NewWeighted\<close>; the informers are known by their names.
\<close>

record ('p, 'c, 'b, 'a, 's, 'w) StartupOps =
  so_Process :: "config result"
  so_SystemCertPool :: "'p result"
  so_NewCertPool :: 'p
  so_ReadFile :: "string \<Rightarrow> bytes result"
  so_AppendCertsFromPEM :: "'p \<Rightarrow> bytes \<Rightarrow> 'p \<times> bool"
  so_ParseURL :: "string \<Rightarrow> url result"
  so_NewLRU :: "nat \<Rightarrow> 'c result"
  so_NumCPU :: nat
  so_Kafka :: "'w KafkaOps"
  so_NewDockerClient :: "go_error option"
  so_InClusterConfig :: "go_error option"
  so_NewForConfig :: "go_error option"
  so_AddEventHandler :: "string \<Rightarrow> go_error option"
  so_NewWeighted :: "int \<Rightarrow> 's"
  so_Cipher :: "('b, 'a) CipherOps"
  so_IPTables :: "'w IPTables"
  so_Listers :: Listers

record ('p, 'c, 'a, 's) parts =
  iv_Config :: config
  iv_TLS :: "'p TLSConfig"
  iv_Couch :: Client
  iv_FunctionReader :: "'c CachedFunctionReader"
  iv_ActivationWriter :: ActivationBatcher
  iv_Reader :: ReaderConfig
  iv_Writer :: WriterConfig
  iv_Client :: ClientConfig
  iv_Reconciler :: Reconciler
  iv_Factory :: ContainerFactory
  iv_Pool :: "'s ContainerPool"
  iv_Decryptor :: "'a Decryptor"
  iv_KafkaRunner :: KafkaRunner
  iv_Workers :: int

datatype 'x start = Fatal string | Started 'x

definition or_fatal :: "string \<Rightarrow> 'a result \<Rightarrow> 'w \<Rightarrow> ('a \<Rightarrow> 'x start outcome \<times> 'w) \<Rightarrow> 'x start outcome \<times> 'w" where
  "or_fatal message r w k = (case r of Inl err \<Rightarrow> (Returns (Fatal message), w) | Inr x \<Rightarrow> k x)"

definition unless_fatal :: "string \<Rightarrow> go_error option \<Rightarrow> 'w \<Rightarrow> 'x start outcome \<times> 'w \<Rightarrow> 'x start outcome \<times> 'w" where
  "unless_fatal message err w k = (case err of Some e \<Rightarrow> (Returns (Fatal message), w) | None \<Rightarrow> k)"

section \<open>Construction\<close>

definition topic_name :: "config \<Rightarrow> string" where
  "topic_name c = ''invoker'' @ fmt_i (cfg_ID c)"

text \<open>The struct literals.\<close>

definition couch_client :: "url \<Rightarrow> Client" where
  "couch_client couchURL = \<lparr>cl_Base = couchURL, cl_client = None, cl_createdAt = 0\<rparr>"

definition container_factory :: "config \<Rightarrow> ContainerFactory" where
  "container_factory c =
     \<lparr>cf_RuntimeManifests = cfg_RuntimesManifest c, cf_APIHost = cc_APIHost (cfg_Containers c),
      cf_DNSServers = cc_DNSServers (cfg_Containers c), cf_Network = cc_Network (cfg_Containers c),
      cf_UsableIPs = usableIPs\<rparr>"

definition firewall_reconciler :: "config \<Rightarrow> Reconciler" where
  "firewall_reconciler c =
     \<lparr>rc_ContainerSubnet = cc_Subnet (cfg_Containers c), rc_ContainerBridge = cc_BridgeName (cfg_Containers c)\<rparr>"

definition new_pool :: "(int \<Rightarrow> 's) \<Rightarrow> config \<Rightarrow> 's ContainerPool" where
  "new_pool newWeighted c =
     NewContainerPool (newWeighted (sint (cfg_UserMemory c))) (cfg_UserMemory c) (cfg_RuntimesManifest c)"

text \<open>The event handlers of the three informers.\<close>

definition register_handlers :: "(string \<Rightarrow> go_error option) \<Rightarrow> 'w \<Rightarrow> 'x start outcome \<times> 'w \<Rightarrow> 'x start outcome \<times> 'w" where
  "register_handlers add w k =
     unless_fatal ''failed to register event handler to node informer'' (add ''nodes'') w
     (unless_fatal ''failed to register event handler to service informer'' (add ''services'') w
     (unless_fatal ''failed to register event handler to endpoints informer'' (add ''endpoints'') w k))"

text \<open>
  The end of the start: the first reconciliation of the firewall and the number of workers. A fatal
  line for too few addresses and the panic for a minimum of zero are in \<open>worker_count\<close>.
\<close>

definition start_workers ::
  "'w IPTables \<Rightarrow> Listers \<Rightarrow> ('p, 'c, 'a, 's) parts \<Rightarrow> 'w \<Rightarrow> ('p, 'c, 'a, 's) parts start outcome \<times> 'w" where
  "start_workers iptables listers iv w =
     (let (err, w1) = Reconcile iptables listers (iv_Reconciler iv) w; c = iv_Config iv in
      unless_fatal ''failed to reconcile firewall'' err w1
        (case worker_count (cfg_UserMemory c) (cfg_MinimumFunctionMemory c) of
           Returns n \<Rightarrow> (Returns (Started (iv\<lparr>iv_Workers := n\<rparr>)), w1)
         | Panics m \<Rightarrow> (Panics m, w1)
         | Blocks \<Rightarrow> (Blocks, w1)))"

definition main_start ::
  "('p, 'c, 'b, 'a, 's, 'w) StartupOps \<Rightarrow> 'w \<Rightarrow> ('p, 'c, 'a, 's) parts start outcome \<times> 'w" where
  "main_start ops w =
     or_fatal ''failed to process config'' (so_Process ops) w (\<lambda>c.
     or_fatal ''failed to load cluster TLS config''
       (GetClusterTLSConfig (so_SystemCertPool ops) (so_NewCertPool ops) (so_ReadFile ops) (so_AppendCertsFromPEM ops)) w (\<lambda>tlsConfig.
     or_fatal ''failed to parse CouchDB URL'' (so_ParseURL ops (couch_URL (cfg_Couch c))) w (\<lambda>couchURL.
     or_fatal ''failed to create cached function reader'' (NewCachedFunctionReader (so_NewLRU ops 128) []) w (\<lambda>functionReader.
     let (topicErr, w1) = CreateInvokerTopic (so_Kafka ops) (cfg_KafkaHosts c) (topic_name c) w in
     unless_fatal ''failed to create topic'' topicErr w1
     (unless_fatal ''failed to create docker client'' (so_NewDockerClient ops) w1
     (unless_fatal ''failed to load Kubernetes config'' (so_InClusterConfig ops) w1
     (unless_fatal ''failed to create Kubernetes client'' (so_NewForConfig ops) w1
     (register_handlers (so_AddEventHandler ops) w1
     (or_fatal ''failed to create decryptor'' (NewDecryptor (so_Cipher ops) (cfg_EncryptionKeys c)) w1 (\<lambda>decryptor.
        start_workers (so_IPTables ops) (so_Listers ops)
          \<lparr>iv_Config = c, iv_TLS = tlsConfig, iv_Couch = couch_client couchURL, iv_FunctionReader = functionReader,
           iv_ActivationWriter = NewActivationBatcher (so_NumCPU ops),
           iv_Reader = NewKafkaReader (cfg_KafkaHosts c) (topic_name c), iv_Writer = NewKafkaWriter (cfg_KafkaHosts c),
           iv_Client = NewKafkaClient (cfg_KafkaHosts c), iv_Reconciler = firewall_reconciler c,
           iv_Factory = container_factory c, iv_Pool = new_pool (so_NewWeighted ops) c, iv_Decryptor = decryptor,
           iv_KafkaRunner = \<lparr>kr_InstanceID = cfg_ID c, kr_BlockedNamespaces = {}\<rparr>, iv_Workers = 0\<rparr> w1))))))))))"

section \<open>The HTTP server\<close>

datatype handler = Ping | InvokeHandler | MetricsHandler | PprofIndex | PprofCmdline | PprofProfile | PprofSymbol | PprofTrace

definition routes :: "(string \<times> handler) list" where
  "routes =
     [(''/ping'', Ping), (''/invoke'', InvokeHandler), (''/metrics'', MetricsHandler),
      (''/debug/pprof/'', PprofIndex), (''/debug/pprof/cmdline'', PprofCmdline), (''/debug/pprof/profile'', PprofProfile),
      (''/debug/pprof/symbol'', PprofSymbol), (''/debug/pprof/trace'', PprofTrace)]"

text \<open>
  \<open>http.ServeMux\<close> on a clean path: the pattern itself, or else the longest pattern that ends in a slash
  and is a prefix of the path.
\<close>

definition longer :: "(string \<times> 'h) option \<Rightarrow> string \<times> 'h \<Rightarrow> (string \<times> 'h) option" where
  "longer best r = (case best of None \<Rightarrow> Some r | Some b \<Rightarrow> if length (fst b) < length (fst r) then Some r else best)"

definition mux_match :: "(string \<times> 'h) list \<Rightarrow> string \<Rightarrow> 'h option" where
  "mux_match rs path =
     (case map_of rs path of
        Some h \<Rightarrow> Some h
      | None \<Rightarrow> map_option snd (foldl longer None (filter (\<lambda>r. HasSuffix (fst r) ''/'' \<and> HasPrefix path (fst r)) rs)))"

record ServerConfig =
  srv_Addr :: string
  srv_ReadHeaderTimeout :: Duration
  srv_MinVersion :: nat
  srv_ServerName :: string

definition server_config :: "config \<Rightarrow> ServerConfig" where
  "server_config c =
     \<lparr>srv_Addr = '':8443'', srv_ReadHeaderTimeout = 1 * Second, srv_MinVersion = VersionTLS12,
      srv_ServerName = ''invoker0-blue-'' @ fmt_i (cfg_ID c) @ ''.invoker0-blue.openwhisk.svc.cluster.local''\<rparr>"

section \<open>Lemmas\<close>

lemma or_fatal_started [simp]:
  "or_fatal message r w k = (Returns (Started x), w') \<longleftrightarrow> (\<exists>a. r = Inr a \<and> k a = (Returns (Started x), w'))"
  by (auto simp: or_fatal_def split: sum.splits)

lemma unless_fatal_started [simp]:
  "unless_fatal message err w k = (Returns (Started x), w') \<longleftrightarrow> err = None \<and> k = (Returns (Started x), w')"
  by (auto simp: unless_fatal_def split: option.splits)

lemma start_workers_started:
  "start_workers it ls iv w = (Returns (Started iv'), w') \<longleftrightarrow>
     Reconcile it ls (iv_Reconciler iv) w = (None, w') \<and>
     (\<exists>n. worker_count (cfg_UserMemory (iv_Config iv)) (cfg_MinimumFunctionMemory (iv_Config iv)) = Returns n \<and> iv' = iv\<lparr>iv_Workers := n\<rparr>)"
  by (auto simp: start_workers_def Let_def split: prod.splits outcome.splits)

text \<open>The number of workers is what the memory is enough for.\<close>

lemma worker_count_fits:
  assumes "worker_count user minimum = Returns n"
  shows "n \<le> int (length usableIPs)" and "n * uint minimum \<le> uint user"
    and "unat user < 2 ^ 63 \<Longrightarrow> 0 \<le> n \<and> uint user < (n + 1) * uint minimum"
proof -
  have m: "minimum \<noteq> 0" and n: "n = sint (user div minimum)" using assms by (auto simp: worker_count_def Let_def split: if_splits)
  show "n \<le> int (length usableIPs)" by (rule worker_count_addresses [OF assms])
  have pos: "0 < uint minimum" using m by (simp add: less_le uint_0_iff)
  have le: "uint (user div minimum) * uint minimum \<le> uint user"
    unfolding uint_div_distrib
    using div_mult_mod_eq [of "uint user" "uint minimum"] pos_mod_sign [OF pos, of "uint user"] by linarith
  have "n \<le> uint (user div minimum)"
    unfolding n sint_uint signed_take_bit_int_less_eq_self_iff by (rule order_trans [OF _ uint_ge_0]) simp
  then have "n * uint minimum \<le> uint (user div minimum) * uint minimum" by (rule mult_right_mono) simp
  with le show "n * uint minimum \<le> uint user" by linarith
  assume u: "unat user < 2 ^ 63"
  have q: "uint (user div minimum) = uint user div uint minimum" by (rule uint_div_distrib)
  have "int (unat user) < int (2 ^ 63)" using u by (simp only: of_nat_less_iff)
  then have "uint user < 2 ^ 63" by (simp only: uint_nat of_nat_power of_nat_numeral)
  moreover have "uint user div uint minimum \<le> uint user"
    using int_div_le_self [of "uint user" "uint minimum"] by (cases "uint user = 0") (simp_all add: less_le)
  moreover have "0 \<le> uint user div uint minimum" using pos by (simp add: pos_imp_zdiv_nonneg_iff)
  ultimately have n': "n = uint user div uint minimum"
    unfolding n sint_uint q by (intro signed_take_bit_int_eq_self) simp_all
  have "uint user = n * uint minimum + uint user mod uint minimum" unfolding n' by simp
  then have "uint user < (n + 1) * uint minimum"
    using pos_mod_bound [OF pos, of "uint user"] unfolding distrib_right by linarith
  moreover have "0 \<le> n" unfolding n' using pos by (simp add: pos_imp_zdiv_nonneg_iff)
  ultimately show "0 \<le> n \<and> uint user < (n + 1) * uint minimum" by simp
qed

text \<open>The routes do not hide one another.\<close>

lemma routes_reached: "(p, h) \<in> set routes \<Longrightarrow> mux_match routes p = Some h"
proof -
  have "distinct (map fst routes)" by (simp add: routes_def)
  then show "(p, h) \<in> set routes \<Longrightarrow> mux_match routes p = Some h" by (simp add: mux_match_def)
qed

lemma routes_pprof: "mux_match routes ''/debug/pprof/heap'' = Some PprofIndex"
  by (simp add: routes_def mux_match_def HasSuffix_def HasPrefix_def longer_def)

section \<open>Theorems\<close>

text \<open>
  C40. An invoker that starts is consistent with its configuration: the topic it reads from was
  created before and the firewall was reconciled last; the clients use TLS 1.2 or later; the pool is new and has the
  configured memory; the addresses of its containers are distinct and enough for all workers; and the
  workers are no more than the memory allows for functions of the smallest size, and exactly as many when it is below \<open>2 ^ 63\<close> bytes.
\<close>

theorem started_invoker_consistent:
  assumes "main_start ops w = (Returns (Started iv), w')"
  shows "so_Process ops = Inr (iv_Config iv)
    \<and> (\<exists>w1. CreateInvokerTopic (so_Kafka ops) (cfg_KafkaHosts (iv_Config iv)) (rd_Topic (iv_Reader iv)) w = (None, w1)
         \<and> Reconcile (so_IPTables ops) (so_Listers ops) (iv_Reconciler iv) w1 = (None, w'))
    \<and> tls_MinVersion (iv_TLS iv) = VersionTLS12
    \<and> maxMemory (iv_Pool iv) = cfg_UserMemory (iv_Config iv) \<and> idles (iv_Pool iv) = [] \<and> inFlightMemory (iv_Pool iv) = 0
    \<and> distinct (cf_UsableIPs (iv_Factory iv)) \<and> iv_Workers iv \<le> int (length (cf_UsableIPs (iv_Factory iv)))
    \<and> iv_Workers iv * uint (cfg_MinimumFunctionMemory (iv_Config iv)) \<le> uint (cfg_UserMemory (iv_Config iv))
    \<and> (unat (cfg_UserMemory (iv_Config iv)) < 2 ^ 63 \<longrightarrow>
         uint (cfg_UserMemory (iv_Config iv)) < (iv_Workers iv + 1) * uint (cfg_MinimumFunctionMemory (iv_Config iv)))"
proof -
  from assms obtain c tlsConfig n where
    c: "so_Process ops = Inr c" and
    tls: "GetClusterTLSConfig (so_SystemCertPool ops) (so_NewCertPool ops) (so_ReadFile ops) (so_AppendCertsFromPEM ops) = Inr tlsConfig" and
    topic: "fst (CreateInvokerTopic (so_Kafka ops) (cfg_KafkaHosts c) (topic_name c) w) = None" and
    fw: "Reconcile (so_IPTables ops) (so_Listers ops) (firewall_reconciler c)
      (snd (CreateInvokerTopic (so_Kafka ops) (cfg_KafkaHosts c) (topic_name c) w)) = (None, w')" and
    n: "worker_count (cfg_UserMemory c) (cfg_MinimumFunctionMemory c) = Returns n" and
    iv: "iv_Config iv = c" "iv_TLS iv = tlsConfig" "iv_Reader iv = NewKafkaReader (cfg_KafkaHosts c) (topic_name c)"
      "iv_Reconciler iv = firewall_reconciler c" "iv_Factory iv = container_factory c"
      "iv_Pool iv = new_pool (so_NewWeighted ops) c" "iv_Workers iv = n"
    by (auto simp: main_start_def register_handlers_def start_workers_started Let_def split_beta)
  have "tls_MinVersion tlsConfig = VersionTLS12"
    using tls by (auto simp: GetClusterTLSConfig_def Let_def split: sum.splits prod.splits if_splits)
  moreover obtain w1 where "CreateInvokerTopic (so_Kafka ops) (cfg_KafkaHosts c) (topic_name c) w = (None, w1)"
    using topic by (metis prod.collapse)
  ultimately show ?thesis
    using c fw worker_count_fits [OF n] usableIPs_distinct
    by (simp add: iv NewKafkaReader_def container_factory_def new_pool_def NewContainerPool_def)
qed

section \<open>Witness\<close>

text \<open>An invoker with 512 megabytes for functions of at least 128 megabytes; the world is the last state that was written.\<close>

definition example_config :: config where
  "example_config =
     \<lparr>cfg_ID = 3, cfg_LogLevel = InfoLevel, cfg_Couch = \<lparr>couch_URL = ''https://couch'', couch_Username = ''u'', couch_Password = ''p''\<rparr>,
      cfg_KafkaHosts = ''kafka:9093'', cfg_UserMemory = 512 * Megabyte, cfg_MinimumFunctionMemory = 128 * Megabyte,
      cfg_EncryptionKeys = [], cfg_RuntimesManifest = [],
      cfg_Containers = \<lparr>cc_APIHost = ''api'', cc_DNSServers = [], cc_Network = ''functions'', cc_Subnet = ''172.18.0.0/16'', cc_BridgeName = ''functions0''\<rparr>\<rparr>"

definition example_startup :: "(unit, unit, unit, unit, int, bytes) StartupOps" where
  "example_startup =
     \<lparr>so_Process = Inr example_config, so_SystemCertPool = Inr (), so_NewCertPool = (), so_ReadFile = \<lambda>_. Inr ''crt'',
      so_AppendCertsFromPEM = \<lambda>p crt. (p, True), so_ParseURL = \<lambda>_. Inr \<lparr>url_path = [], url_query = []\<rparr>, so_NewLRU = \<lambda>_. Inr (),
      so_NumCPU = 2,
      so_Kafka = \<lparr>ko_Dial = \<lambda>t n a w. (Inr 0, w), ko_Controller = \<lambda>c w. (Inr (''kafka'', 9093), w),
                  ko_CreateTopics = \<lambda>c t w. (None, w), ko_Close = \<lambda>c w. w\<rparr>,
      so_NewDockerClient = None, so_InClusterConfig = None, so_NewForConfig = None, so_AddEventHandler = \<lambda>_. None,
      so_NewWeighted = id,
      so_Cipher = \<lparr>ci_NewCipher = \<lambda>_. Inr (), ci_NewGCMWithNonceSize = \<lambda>_ _. Inr (), ci_Open = \<lambda>_ _ b. Inr b\<rparr>,
      so_IPTables = \<lparr>it_GetState = \<lambda>w. (Inr w, w), it_WriteState = \<lambda>b w. (None, b), it_Exec = \<lambda>_ w. (None, w)\<rparr>,
      so_Listers = \<lparr>ls_Nodes = Inr [], ls_Endpoints = \<lambda>n. Inr \<lparr>eps_Name = n, eps_Subsets = []\<rparr>,
                    ls_Services = \<lambda>n. Inr \<lparr>svc_Name = n, svc_ClusterIP = ''10.9.8.7''\<rparr>\<rparr>\<rparr>"

lemma example_worker_count: "worker_count (512 * Megabyte) (128 * Megabyte) = Returns 4"
  using usableIPs_distinct by (simp add: worker_count_def Megabyte_def)

lemma example_starts:
  "\<exists>iv w'. main_start example_startup [] = (Returns (Started iv), w') \<and> iv_Config iv = example_config"
  by (simp add: main_start_def example_startup_def or_fatal_def unless_fatal_def register_handlers_def GetClusterTLSConfig_def
      NewCachedFunctionReader_def CreateInvokerTopic_def CreateTopic_def create_at_controller_def NewDecryptor_def
      start_workers_def Reconcile_def example_worker_count example_config_def Let_def)

theorem started_invoker_consistent_witness:
  "\<exists>iv w'. main_start example_startup [] = (Returns (Started iv), w') \<and> iv_Workers iv * (128 * 1024 * 1024) \<le> 512 * 1024 * 1024
     \<and> maxMemory (iv_Pool iv) = 512 * Megabyte"
proof -
  from example_starts obtain iv w' where s: "main_start example_startup [] = (Returns (Started iv), w')" "iv_Config iv = example_config" by blast
  from started_invoker_consistent [OF s(1)] s show ?thesis
    by (intro exI [of _ iv] exI [of _ w']) (simp add: example_config_def Megabyte_def)
qed

end
