(* ===== verification/Perf.thy ===== *)
theory Perf
  imports Go_Errors Transition
begin

text \<open>
  The two tools that measure a docker daemon: \<open>cmd/createperf/main.go\<close> (creation of containers) and
  \<open>cmd/lifecycleperf/main.go\<close> (pausing and unpausing). Their goroutines take the index of their next
  measurement from an atomic counter and write the time into a shared slice at that index. A write out
  of range is possible and leaves a panic; the theorems show that it does not happen and that a run
  without an error fills every element, each once. A measured time is \<open>Some\<close>, an element that was not
  written \<open>None\<close> (the zero of the slice). The library that computes the statistics is a parameter.
\<close>

section \<open>Addresses\<close>

text \<open>The first ten addresses of the invoker are left to it.\<close>

definition perf_usableIPs :: "string list" where
  "perf_usableIPs = map (\<lambda>i. ''172.18.0.'' @ fmt_d i) [12..<255]"

section \<open>Results\<close>

record 'f StatsOps =
  st_Min :: "int list \<Rightarrow> go_error + 'f"
  st_Max :: "int list \<Rightarrow> go_error + 'f"
  st_Mean :: "int list \<Rightarrow> go_error + 'f"
  st_Percentile :: "int list \<Rightarrow> nat \<Rightarrow> go_error + 'f"

definition must :: "go_error + 'f \<Rightarrow> 'f outcome" where
  "must r = (case r of Inl err \<Rightarrow> Panics (err_text err) | Inr res \<Rightarrow> Returns res)"

text \<open>The lines that are printed; the first statistic that fails panics.\<close>

fun print_all :: "(string \<times> (go_error + 'f)) list \<Rightarrow> (string \<times> 'f) list outcome" where
  "print_all [] = Returns []"
| "print_all ((label, r) # rest) =
     (case must r of
        Returns res \<Rightarrow>
          (case print_all rest of
             Returns out \<Rightarrow> Returns ((label, res) # out)
           | Panics m \<Rightarrow> Panics m
           | Blocks \<Rightarrow> Blocks)
      | Panics m \<Rightarrow> Panics m
      | Blocks \<Rightarrow> Blocks)"

definition stat_lines :: "'f StatsOps \<Rightarrow> int list \<Rightarrow> (string \<times> (go_error + 'f)) list" where
  "stat_lines ops measured =
     [(''Min'', st_Min ops measured), (''Max'', st_Max ops measured), (''Mean'', st_Mean ops measured),
      (''p95'', st_Percentile ops measured 95), (''p99'', st_Percentile ops measured 99)]"

definition createperf_report :: "'f StatsOps \<Rightarrow> int list \<Rightarrow> (string \<times> 'f) list outcome" where
  "createperf_report ops timeUntilResponding = print_all (stat_lines ops timeUntilResponding)"

definition lifecycleperf_report :: "'f StatsOps \<Rightarrow> int list \<Rightarrow> int list \<Rightarrow> (string \<times> 'f) list outcome" where
  "lifecycleperf_report ops pauseTimes unpauseTimes =
     print_all (stat_lines ops pauseTimes @ stat_lines ops unpauseTimes)"

text \<open>A statistic of no measurements is an error of the library, so that a run with none panics.\<close>

lemma report_empty_panics:
  assumes "st_Min ops [] = Inl err"
  shows "createperf_report ops [] = Panics (err_text err)"
  using assms by (simp add: createperf_report_def stat_lines_def must_def)

section \<open>A shared counter and a slice\<close>

record slots =
  sl_ops :: int
  sl_times :: "int option list"
  sl_panicked :: bool
  sl_writes :: "int list"

definition slots_new :: "nat \<Rightarrow> slots" where
  "slots_new n = \<lparr>sl_ops = - 1, sl_times = replicate n None, sl_panicked = False, sl_writes = []\<rparr>"

text \<open>\<open>atomic.AddInt64(&ops, 1)\<close>.\<close>

definition next_index :: "slots \<Rightarrow> int \<times> slots" where
  "next_index s = (sl_ops s + 1, s\<lparr>sl_ops := sl_ops s + 1\<rparr>)"

text \<open>\<open>times[j] = t\<close>.\<close>

definition store_time :: "int \<Rightarrow> int \<Rightarrow> slots \<Rightarrow> slots" where
  "store_time j t s =
     (if 0 \<le> j \<and> nat j < length (sl_times s)
      then s\<lparr>sl_times := (sl_times s)[nat j := Some t], sl_writes := j # sl_writes s\<rparr>
      else s\<lparr>sl_panicked := True\<rparr>)"

text \<open>
  The invariant of a slice whose indices are handed out by its counter: \<open>pending\<close> are the indices that a
  goroutine has taken and not written yet, \<open>lost\<close> those that it gave up.
\<close>

definition slots_ok :: "slots \<Rightarrow> int list \<Rightarrow> int set \<Rightarrow> bool" where
  "slots_ok s pending lost =
     (\<not> sl_panicked s \<and> - 1 \<le> sl_ops s \<and> distinct (pending @ sl_writes s) \<and>
      set pending \<subseteq> {0..<int (length (sl_times s))} \<and>
      set pending \<union> set (sl_writes s) \<subseteq> {0..sl_ops s} \<and>
      {0..sl_ops s} \<inter> {0..<int (length (sl_times s))} \<subseteq> set pending \<union> set (sl_writes s) \<union> lost \<and>
      (\<forall>k < length (sl_times s). sl_times s ! k \<noteq> None \<longleftrightarrow> int k \<in> set (sl_writes s)))"

lemma slots_new_ok: "slots_ok (slots_new n) [] {}"
  by (simp add: slots_ok_def slots_new_def)

lemma next_index_ok:
  assumes "slots_ok s pending lost" and "next_index s = (j, s')"
  shows "j \<notin> set pending" and "j < int (length (sl_times s)) \<Longrightarrow> slots_ok s' (j # pending) lost"
    and "int (length (sl_times s)) \<le> j \<Longrightarrow> slots_ok s' pending lost"
proof -
  have j: "j = sl_ops s + 1" and s': "s' = s\<lparr>sl_ops := sl_ops s + 1\<rparr>" using assms(2) by (auto simp: next_index_def)
  have r: "{0..sl_ops s + 1} = insert (sl_ops s + 1) {0..sl_ops s}" using assms(1) by (auto simp: slots_ok_def)
  show "j \<notin> set pending" using assms(1) by (auto simp: slots_ok_def j)
  show "slots_ok s' (j # pending) lost" if "j < int (length (sl_times s))"
    using assms(1) that unfolding slots_ok_def s' j by (simp add: r) auto
  show "slots_ok s' pending lost" if "int (length (sl_times s)) \<le> j"
    using assms(1) that unfolding slots_ok_def s' j by (simp add: r) auto
qed

lemma store_time_ok:
  assumes "slots_ok s (pending1 @ j # pending2) lost"
  shows "slots_ok (store_time j t s) (pending1 @ pending2) lost"
proof -
  have r: "0 \<le> j" "nat j < length (sl_times s)" "int (nat j) = j" using assms by (auto simp: slots_ok_def)
  show ?thesis using assms r unfolding slots_ok_def store_time_def
    by (simp add: nth_list_update) (auto simp: nat_eq_iff)
qed

lemma give_up_ok: "slots_ok s (pending1 @ j # pending2) lost \<Longrightarrow> slots_ok s (pending1 @ pending2) (insert j lost)"
  by (auto simp: slots_ok_def)

lemma store_time_length [simp]: "length (sl_times (store_time j t s)) = length (sl_times s)"
  by (simp add: store_time_def)

lemma store_time_ops [simp]: "sl_ops (store_time j t s) = sl_ops s"
  by (simp add: store_time_def)

text \<open>When nothing is pending or lost and the counter has passed the end, everything was measured, once.\<close>

lemma slots_ok_complete:
  assumes "slots_ok s [] {}" and "int (length (sl_times s)) - 1 \<le> sl_ops s"
  shows "list_all (\<lambda>t. t \<noteq> None) (sl_times s)"
  unfolding list_all_length
proof (intro allI impI)
  fix k
  assume k: "k < length (sl_times s)"
  then have "int k \<in> {0..sl_ops s} \<inter> {0..<int (length (sl_times s))}" using assms(2) by auto
  then have "int k \<in> set (sl_writes s)" using assms(1) by (auto simp: slots_ok_def)
  with k assms(1) show "sl_times s ! k \<noteq> None" by (simp add: slots_ok_def)
qed

lemma slots_ok_perm: "slots_ok s p lost \<Longrightarrow> mset q = mset p \<Longrightarrow> slots_ok s q lost"
  using mset_eq_setD [of q p] mset_eq_imp_distinct_iff [of q p] by (simp add: slots_ok_def)

text \<open>One element of the list of goroutines is replaced by one that has an index more or less.\<close>

lemma slots_ok_swap:
  assumes "slots_ok s p lost" and "mset q + {#j#} = mset p"
  shows "slots_ok (store_time j t s) q lost" and "slots_ok s q (insert j lost)"
proof -
  have "slots_ok s ([] @ j # q) lost" by (rule slots_ok_perm [OF assms(1)]) (simp add: assms(2) [symmetric])
  from store_time_ok [OF this, of t] give_up_ok [OF this]
  show "slots_ok (store_time j t s) q lost" "slots_ok s q (insert j lost)" by simp_all
qed

section \<open>createperf\<close>

datatype create_thread = CLoop | CCreating int | CRemoving | CDone | CFailed

record CreatePerf =
  cp_slots :: slots
  cp_threads :: "create_thread list"

text \<open>The slice is made before the goroutines start; a negative number of measurements panics.\<close>

definition createperf_new :: "int \<Rightarrow> int \<Rightarrow> CreatePerf outcome" where
  "createperf_new N parallelism =
     (if N < 0 then Panics ''makeslice: len out of range''
      else Returns \<lparr>cp_slots = slots_new (nat N), cp_threads = replicate (nat parallelism) CLoop\<rparr>)"

definition set_thread :: "nat \<Rightarrow> create_thread \<Rightarrow> CreatePerf \<Rightarrow> CreatePerf" where
  "set_thread i t s = s\<lparr>cp_threads := (cp_threads s)[i := t]\<rparr>"

abbreviation thread_at :: "CreatePerf \<Rightarrow> nat \<Rightarrow> create_thread \<Rightarrow> bool" where
  "thread_at s i t \<equiv> i < length (cp_threads s) \<and> cp_threads s ! i = t"

inductive createperf_step :: "CreatePerf \<Rightarrow> CreatePerf \<Rightarrow> bool" where
  finished: "thread_at s i CLoop \<Longrightarrow> next_index (cp_slots s) = (j, sl) \<Longrightarrow> int (length (sl_times sl)) \<le> j
    \<Longrightarrow> createperf_step s (set_thread i CDone (s\<lparr>cp_slots := sl\<rparr>))"
| started: "thread_at s i CLoop \<Longrightarrow> next_index (cp_slots s) = (j, sl) \<Longrightarrow> j < int (length (sl_times sl))
    \<Longrightarrow> createperf_step s (set_thread i (CCreating j) (s\<lparr>cp_slots := sl\<rparr>))"
| created: "thread_at s i (CCreating j)
    \<Longrightarrow> createperf_step s (set_thread i CRemoving (s\<lparr>cp_slots := store_time j time (cp_slots s)\<rparr>))"
| create_failed: "thread_at s i (CCreating j) \<Longrightarrow> createperf_step s (set_thread i CFailed s)"
| removed: "thread_at s i CRemoving \<Longrightarrow> createperf_step s (set_thread i CLoop s)"
| remove_failed: "thread_at s i CRemoving \<Longrightarrow> createperf_step s (set_thread i CFailed s)"

fun creating :: "create_thread \<Rightarrow> int list" where
  "creating (CCreating j) = [j]"
| "creating _ = []"

definition createperf_pending :: "CreatePerf \<Rightarrow> int list" where
  "createperf_pending s = concat (map creating (cp_threads s))"

definition createperf_inv :: "nat \<Rightarrow> CreatePerf \<Rightarrow> bool" where
  "createperf_inv N s =
     (length (sl_times (cp_slots s)) = N \<and>
      (CDone \<in> set (cp_threads s) \<longrightarrow> int N \<le> sl_ops (cp_slots s)) \<and>
      (\<exists>lost. slots_ok (cp_slots s) (createperf_pending s) lost \<and> (lost \<noteq> {} \<longrightarrow> CFailed \<in> set (cp_threads s))))"

lemma pending_set_thread:
  "i < length (cp_threads s) \<Longrightarrow>
   mset (createperf_pending (set_thread i t s)) + mset (creating (cp_threads s ! i)) = mset (createperf_pending s) + mset (creating t)"
  by (simp add: createperf_pending_def set_thread_def mset_concat_map_update)

lemma pending_cp_slots [simp]: "createperf_pending (s\<lparr>cp_slots := sl\<rparr>) = createperf_pending s"
  by (simp add: createperf_pending_def)

lemma set_thread_sel [simp]:
  "cp_slots (set_thread i t s) = cp_slots s" "cp_threads (set_thread i t s) = (cp_threads s)[i := t]"
  by (simp_all add: set_thread_def)

lemma in_update: "x \<in> set (xs[i := y]) \<Longrightarrow> x = y \<or> x \<in> set xs"
  using set_update_subset_insert [of xs i y] by auto

lemma update_keeps: "x \<in> set xs \<Longrightarrow> i < length xs \<Longrightarrow> xs ! i \<noteq> x \<Longrightarrow> x \<in> set (xs[i := y])"
  by (metis in_set_conv_nth length_list_update nth_list_update_neq)

lemma createperf_invI:
  "slots_ok (cp_slots s) (createperf_pending s) lost \<Longrightarrow> (lost \<noteq> {} \<Longrightarrow> CFailed \<in> set (cp_threads s))
   \<Longrightarrow> length (sl_times (cp_slots s)) = N \<Longrightarrow> (CDone \<in> set (cp_threads s) \<Longrightarrow> int N \<le> sl_ops (cp_slots s)) \<Longrightarrow> createperf_inv N s"
  by (auto simp: createperf_inv_def)

lemma createperf_step_inv:
  assumes inv: "createperf_inv N s" and step: "createperf_step s s'"
  shows "createperf_inv N s'"
proof -
  obtain lost where N: "length (sl_times (cp_slots s)) = N" and D: "CDone \<in> set (cp_threads s) \<Longrightarrow> int N \<le> sl_ops (cp_slots s)"
    and ok: "slots_ok (cp_slots s) (createperf_pending s) lost" and L: "lost \<noteq> {} \<Longrightarrow> CFailed \<in> set (cp_threads s)"
    using inv by (auto simp: createperf_inv_def)
  show ?thesis using step
  proof cases
    case (finished i j sl)
    have sl: "length (sl_times sl) = N" "sl_ops sl = j" using finished N by (auto simp: next_index_def)
    have "slots_ok sl (createperf_pending s') lost"
      using slots_ok_perm [OF next_index_ok(3) [OF ok finished(3)]] pending_set_thread [of i s CDone] finished sl N
      by (simp add: set_thread_def createperf_pending_def)
    then show ?thesis by (intro createperf_invI [of s' lost]) (use finished sl L update_keeps [of CFailed "cp_threads s" i CDone] in \<open>auto dest!: in_update\<close>)
  next
    case (started i j sl)
    have sl: "length (sl_times sl) = N" "sl_ops sl = sl_ops (cp_slots s) + 1" using started N by (auto simp: next_index_def)
    have "slots_ok sl (createperf_pending s') lost"
      using slots_ok_perm [OF next_index_ok(2) [OF ok started(3)]] pending_set_thread [of i s "CCreating j"] started sl N
      by (simp add: set_thread_def createperf_pending_def)
    then show ?thesis by (intro createperf_invI [of s' lost]) (use started sl L D update_keeps [of CFailed "cp_threads s" i "CCreating j"] in \<open>auto dest!: in_update\<close>)
  next
    case (created i j time)
    have "slots_ok (store_time j time (cp_slots s)) (createperf_pending s') lost"
      using slots_ok_swap(1) [OF ok] pending_set_thread [of i s CRemoving] created by (simp add: set_thread_def createperf_pending_def)
    then show ?thesis by (intro createperf_invI [of s' lost]) (use created N L D update_keeps [of CFailed "cp_threads s" i CRemoving] in \<open>auto dest!: in_update\<close>)
  next
    case (create_failed i j)
    have "slots_ok (cp_slots s) (createperf_pending s') (insert j lost)"
      using slots_ok_swap(2) [OF ok] pending_set_thread [of i s CFailed] create_failed by simp
    moreover have "CFailed \<in> set (cp_threads s')" using create_failed by (simp add: set_update_memI)
    ultimately show ?thesis by (intro createperf_invI) (use create_failed N D in \<open>auto dest!: in_update\<close>)
  next
    case (removed i)
    have "slots_ok (cp_slots s) (createperf_pending s') lost"
      using slots_ok_perm [OF ok] pending_set_thread [of i s CLoop] removed by simp
    then show ?thesis by (intro createperf_invI [of s' lost]) (use removed N L D update_keeps [of CFailed "cp_threads s" i CLoop] in \<open>auto dest!: in_update\<close>)
  next
    case (remove_failed i)
    have "slots_ok (cp_slots s) (createperf_pending s') lost"
      using slots_ok_perm [OF ok] pending_set_thread [of i s CFailed] remove_failed by simp
    moreover have "CFailed \<in> set (cp_threads s')" using remove_failed by (simp add: set_update_memI)
    ultimately show ?thesis by (intro createperf_invI) (use remove_failed N D in \<open>auto dest!: in_update\<close>)
  qed
qed

interpretation createperf: transition_system createperf_step "createperf_inv N" for N
  by unfold_locales (rule createperf_step_inv)

lemma createperf_new_inv: "createperf_new N p = Returns s \<Longrightarrow> createperf_inv (nat N) s"
  using slots_new_ok [of "nat N"]
  by (auto simp: createperf_new_def createperf_inv_def createperf_pending_def slots_new_def split: if_splits intro!: exI [of _ "{}"])

section \<open>lifecycleperf\<close>

text \<open>A goroutine with the number of rounds it has completed and the index it has taken.\<close>

datatype life_thread =
    LCreating | LLoop nat | LPausing nat int | LPaused nat | LUnpausing nat int | LRemoving bool | LDone | LFailed

record LifecyclePerf =
  lp_pause :: slots
  lp_unpause :: slots
  lp_threads :: "life_thread list"

definition lifecycleperf_new :: "int \<Rightarrow> int \<Rightarrow> LifecyclePerf outcome" where
  "lifecycleperf_new N parallelism =
     (if N * parallelism < 0 then Panics ''makeslice: len out of range''
      else Returns \<lparr>lp_pause = slots_new (nat (N * parallelism)), lp_unpause = slots_new (nat (N * parallelism)),
                    lp_threads = replicate (nat parallelism) LCreating\<rparr>)"

definition set_life :: "nat \<Rightarrow> life_thread \<Rightarrow> LifecyclePerf \<Rightarrow> LifecyclePerf" where
  "set_life i t s = s\<lparr>lp_threads := (lp_threads s)[i := t]\<rparr>"

abbreviation life_at :: "LifecyclePerf \<Rightarrow> nat \<Rightarrow> life_thread \<Rightarrow> bool" where
  "life_at s i t \<equiv> i < length (lp_threads s) \<and> lp_threads s ! i = t"

text \<open>The container is removed in a deferred function, whose error is only printed.\<close>

inductive lifecycleperf_step :: "nat \<Rightarrow> LifecyclePerf \<Rightarrow> LifecyclePerf \<Rightarrow> bool" for N where
  created: "life_at s i LCreating \<Longrightarrow> lifecycleperf_step N s (set_life i (LLoop 0) s)"
| create_failed: "life_at s i LCreating \<Longrightarrow> lifecycleperf_step N s (set_life i LFailed s)"
| pause: "life_at s i (LLoop k) \<Longrightarrow> k < N \<Longrightarrow> next_index (lp_pause s) = (j, sl)
    \<Longrightarrow> lifecycleperf_step N s (set_life i (LPausing k j) (s\<lparr>lp_pause := sl\<rparr>))"
| paused: "life_at s i (LPausing k j)
    \<Longrightarrow> lifecycleperf_step N s (set_life i (LPaused k) (s\<lparr>lp_pause := store_time j time (lp_pause s)\<rparr>))"
| pause_failed: "life_at s i (LPausing k j) \<Longrightarrow> lifecycleperf_step N s (set_life i (LRemoving False) s)"
| unpause: "life_at s i (LPaused k) \<Longrightarrow> next_index (lp_unpause s) = (j, sl)
    \<Longrightarrow> lifecycleperf_step N s (set_life i (LUnpausing k j) (s\<lparr>lp_unpause := sl\<rparr>))"
| unpaused: "life_at s i (LUnpausing k j)
    \<Longrightarrow> lifecycleperf_step N s (set_life i (LLoop (Suc k)) (s\<lparr>lp_unpause := store_time j time (lp_unpause s)\<rparr>))"
| unpause_failed: "life_at s i (LUnpausing k j) \<Longrightarrow> lifecycleperf_step N s (set_life i (LRemoving False) s)"
| rounds_done: "life_at s i (LLoop k) \<Longrightarrow> \<not> k < N \<Longrightarrow> lifecycleperf_step N s (set_life i (LRemoving True) s)"
| removed: "life_at s i (LRemoving ok) \<Longrightarrow> lifecycleperf_step N s (set_life i (if ok then LDone else LFailed) s)"

text \<open>What a goroutine has taken, and how many indices it may still take.\<close>

fun pausing :: "life_thread \<Rightarrow> int list" where
  "pausing (LPausing k j) = [j]"
| "pausing _ = []"

fun unpausing :: "life_thread \<Rightarrow> int list" where
  "unpausing (LUnpausing k j) = [j]"
| "unpausing _ = []"

fun pauses_left :: "nat \<Rightarrow> life_thread \<Rightarrow> nat" where
  "pauses_left N LCreating = N"
| "pauses_left N (LLoop k) = N - k"
| "pauses_left N (LPausing k j) = N - Suc k"
| "pauses_left N (LPaused k) = N - Suc k"
| "pauses_left N (LUnpausing k j) = N - Suc k"
| "pauses_left N _ = 0"

fun unpauses_left :: "nat \<Rightarrow> life_thread \<Rightarrow> nat" where
  "unpauses_left N LCreating = N"
| "unpauses_left N (LLoop k) = N - k"
| "unpauses_left N (LPausing k j) = N - k"
| "unpauses_left N (LPaused k) = N - k"
| "unpauses_left N (LUnpausing k j) = N - Suc k"
| "unpauses_left N _ = 0"

fun failing :: "life_thread \<Rightarrow> bool" where
  "failing LFailed = True"
| "failing (LRemoving ok) = (\<not> ok)"
| "failing _ = False"

fun round_ok :: "nat \<Rightarrow> life_thread \<Rightarrow> bool" where
  "round_ok N (LLoop k) = (k \<le> N)"
| "round_ok N (LPausing k j) = (k < N)"
| "round_ok N (LPaused k) = (k < N)"
| "round_ok N (LUnpausing k j) = (k < N)"
| "round_ok N _ = True"

text \<open>One of the two slices: the indices are enough, and all used if nobody fails.\<close>

definition side_ok :: "(life_thread \<Rightarrow> int list) \<Rightarrow> (life_thread \<Rightarrow> nat) \<Rightarrow> nat \<Rightarrow> slots \<Rightarrow> life_thread list \<Rightarrow> bool" where
  "side_ok taken left n s ts =
     (length (sl_times s) = n \<and> sl_ops s + 1 + int (sum_list (map left ts)) \<le> int n \<and>
      (\<exists>lost. slots_ok s (concat (map taken ts)) lost \<and>
         (list_ex failing ts \<or> lost = {} \<and> sl_ops s + 1 + int (sum_list (map left ts)) = int n)))"

lemma sum_list_map_replace:
  assumes "i < length xs"
  shows "sum_list (map f (xs[i := y])) + f (xs ! i) = sum_list (map f xs) + (f y :: nat)"
  using assms member_le_sum_list [of "f (xs ! i)" "map f xs"] by (simp add: map_update sum_list_update)

lemma list_ex_update: "i < length ts \<Longrightarrow> list_ex P ts \<Longrightarrow> \<not> P (ts ! i) \<Longrightarrow> list_ex P (ts[i := t])"
  by (auto simp: list_ex_iff intro: update_keeps)

lemma list_ex_updated: "i < length ts \<Longrightarrow> P t \<Longrightarrow> list_ex P (ts[i := t])"
  by (auto simp: list_ex_iff intro: set_update_memI)

lemma side_same:
  assumes i: "i < length ts" and nf: "\<not> failing (ts ! i)" and ok: "side_ok taken left n s ts"
    and "taken t = taken (ts ! i)" and "left t = left (ts ! i)"
  shows "side_ok taken left n s (ts[i := t])"
proof -
  have "mset (concat (map taken (ts[i := t]))) = mset (concat (map taken ts))"
    using mset_concat_map_update [OF i, of taken t] assms(4) by simp
  moreover have "sum_list (map left (ts[i := t])) = sum_list (map left ts)"
    using sum_list_map_replace [OF i, of left t] assms(5) by simp
  ultimately show ?thesis using ok list_ex_update [where P = failing, OF i _ nf, of t] unfolding side_ok_def
    by (metis slots_ok_perm)
qed

lemma side_take:
  assumes i: "i < length ts" and nf: "\<not> failing (ts ! i)" and ok: "side_ok taken left n s ts"
    and "next_index s = (j, s')" and "taken (ts ! i) = []" and "taken t = [j]" and "left (ts ! i) = Suc (left t)"
  shows "side_ok taken left n s' (ts[i := t])"
proof -
  obtain lost where n: "length (sl_times s) = n" "sl_ops s + 1 + int (sum_list (map left ts)) \<le> int n"
    and lost: "slots_ok s (concat (map taken ts)) lost"
    "list_ex failing ts \<or> lost = {} \<and> sl_ops s + 1 + int (sum_list (map left ts)) = int n"
    using ok by (auto simp: side_ok_def)
  have s': "length (sl_times s') = n" "sl_ops s' = sl_ops s + 1" "j = sl_ops s + 1" using assms(4) n by (auto simp: next_index_def)
  have left: "sum_list (map left ts) = Suc (sum_list (map left (ts[i := t])))"
    using sum_list_map_replace [OF i, of left t] assms(7) by simp
  have "slots_ok s' (j # concat (map taken ts)) lost"
    by (rule next_index_ok(2) [OF lost(1) assms(4)]) (use n left s' in simp)
  then have "slots_ok s' (concat (map taken (ts[i := t]))) lost"
    by (rule slots_ok_perm) (use mset_concat_map_update [OF i, of taken t] assms(5,6) in simp)
  then show ?thesis using n s' lost(2) left list_ex_update [where P = failing, OF i _ nf, of t] unfolding side_ok_def
    by (intro conjI exI [of _ lost]) auto
qed

lemma side_store:
  assumes i: "i < length ts" and nf: "\<not> failing (ts ! i)" and ok: "side_ok taken left n s ts"
    and "taken (ts ! i) = [j]" and "taken t = []" and "left t = left (ts ! i)"
  shows "side_ok taken left n (store_time j time s) (ts[i := t])"
proof -
  have "mset (concat (map taken (ts[i := t]))) + {#j#} = mset (concat (map taken ts))"
    using mset_concat_map_update [OF i, of taken t] assms(4,5) by simp
  moreover have "sum_list (map left (ts[i := t])) = sum_list (map left ts)"
    using sum_list_map_replace [OF i, of left t] assms(6) by simp
  ultimately show ?thesis using ok list_ex_update [where P = failing, OF i _ nf, of t] unfolding side_ok_def store_time_length store_time_ops
    by (metis slots_ok_swap(1))
qed

lemma side_fail:
  assumes i: "i < length ts" and ok: "side_ok taken left n s ts" and "failing t" and "taken t = []" and "left t = 0"
    and "taken (ts ! i) = [] \<or> (\<exists>j. taken (ts ! i) = [j])"
  shows "side_ok taken left n s (ts[i := t])"
proof -
  have ex: "list_ex failing (ts[i := t])" by (rule list_ex_updated [where P = failing, OF i assms(3)])
  have "sum_list (map left (ts[i := t])) \<le> sum_list (map left ts)"
    using sum_list_map_replace [OF i, of left t] assms(5) by simp
  then have n: "length (sl_times s) = n" "sl_ops s + 1 + int (sum_list (map left (ts[i := t]))) \<le> int n"
    using ok by (auto simp: side_ok_def)
  obtain lost where lost: "slots_ok s (concat (map taken ts)) lost" using ok by (auto simp: side_ok_def)
  have m: "mset (concat (map taken (ts[i := t]))) + mset (taken (ts ! i)) = mset (concat (map taken ts))"
    using mset_concat_map_update [OF i, of taken t] assms(4) by simp
  from assms(6) have "\<exists>lost. slots_ok s (concat (map taken (ts[i := t]))) lost"
  proof
    assume "taken (ts ! i) = []"
    with m slots_ok_perm [OF lost] show ?thesis by auto
  next
    assume "\<exists>j. taken (ts ! i) = [j]"
    then obtain j where "taken (ts ! i) = [j]" ..
    with m have "mset (concat (map taken (ts[i := t]))) + {#j#} = mset (concat (map taken ts))" by simp
    from slots_ok_swap(2) [OF lost this] show ?thesis by blast
  qed
  with n ex show ?thesis by (auto simp: side_ok_def)
qed

definition lifecycleperf_inv :: "nat \<Rightarrow> nat \<Rightarrow> LifecyclePerf \<Rightarrow> bool" where
  "lifecycleperf_inv N n s =
     (list_all (round_ok N) (lp_threads s) \<and> side_ok pausing (pauses_left N) n (lp_pause s) (lp_threads s) \<and>
      side_ok unpausing (unpauses_left N) n (lp_unpause s) (lp_threads s))"

lemma set_life_sel [simp]:
  "lp_pause (set_life i t s) = lp_pause s" "lp_unpause (set_life i t s) = lp_unpause s"
  "lp_threads (set_life i t s) = (lp_threads s)[i := t]"
  by (simp_all add: set_life_def)

lemma lifecycleperf_step_inv:
  assumes inv: "lifecycleperf_inv N n s" and step: "lifecycleperf_step N s s'"
  shows "lifecycleperf_inv N n s'"
proof -
  have r: "list_all (round_ok N) (lp_threads s)" and p: "side_ok pausing (pauses_left N) n (lp_pause s) (lp_threads s)"
    and u: "side_ok unpausing (unpauses_left N) n (lp_unpause s) (lp_threads s)" using inv by (simp_all add: lifecycleperf_inv_def)
  note same = side_same [OF _ _ p] side_same [OF _ _ u]
  note fail = side_fail [OF _ p] side_fail [OF _ u]
  note rs = list_all_update [OF r] list_all_nthD [OF r]
  show ?thesis using step
  proof cases
    case (created i)
    with same [of i "LLoop 0"] rs(1) [of "LLoop 0" i] show ?thesis by (simp add: lifecycleperf_inv_def)
  next
    case (create_failed i)
    with fail [of i LFailed] rs(1) [of LFailed i] show ?thesis by (simp add: lifecycleperf_inv_def)
  next
    case (pause i k j sl)
    with side_take [OF _ _ p, of i j sl "LPausing k j"] same(2) [of i "LPausing k j"] rs(1) [of "LPausing k j" i]
    show ?thesis by (simp add: lifecycleperf_inv_def)
  next
    case (paused i k j time)
    with side_store [OF _ _ p, of i j "LPaused k"] same(2) [of i "LPaused k"] rs(1) [of "LPaused k" i] rs(2) [of i]
    show ?thesis by (simp add: lifecycleperf_inv_def)
  next
    case (pause_failed i k j)
    with fail [of i "LRemoving False"] rs(1) [of "LRemoving False" i] show ?thesis by (simp add: lifecycleperf_inv_def)
  next
    case (unpause i k j sl)
    with side_take [OF _ _ u, of i j sl "LUnpausing k j"] same(1) [of i "LUnpausing k j"] rs(1) [of "LUnpausing k j" i] rs(2) [of i]
    show ?thesis by (simp add: lifecycleperf_inv_def Suc_diff_Suc)
  next
    case (unpaused i k j time)
    with side_store [OF _ _ u, of i j "LLoop (Suc k)"] same(1) [of i "LLoop (Suc k)"] rs(1) [of "LLoop (Suc k)" i] rs(2) [of i]
    show ?thesis by (simp add: lifecycleperf_inv_def)
  next
    case (unpause_failed i k j)
    with fail [of i "LRemoving False"] rs(1) [of "LRemoving False" i] show ?thesis by (simp add: lifecycleperf_inv_def)
  next
    case (rounds_done i k)
    with same [of i "LRemoving True"] rs(1) [of "LRemoving True" i] show ?thesis by (simp add: lifecycleperf_inv_def)
  next
    case (removed i ok)
    with same [of i LDone] fail [of i LFailed] rs(1) [of LDone i] rs(1) [of LFailed i] show ?thesis
      by (cases ok) (simp_all add: lifecycleperf_inv_def)
  qed
qed

interpretation lifecycleperf: transition_system "lifecycleperf_step N" "lifecycleperf_inv N n" for N n
  by unfold_locales (rule lifecycleperf_step_inv)

lemma lifecycleperf_new_inv:
  assumes "lifecycleperf_new (int N) p = Returns s"
  shows "lifecycleperf_inv N (N * nat p) s"
proof -
  have "concat (map pausing (replicate n LCreating)) = []" "concat (map unpausing (replicate n LCreating)) = []" for n by simp_all
  moreover have "nat (int N * p) = N * nat p" by (simp add: nat_mult_distrib)
  ultimately show ?thesis using assms slots_new_ok [of "N * nat p"]
    by (auto simp: lifecycleperf_new_def lifecycleperf_inv_def side_ok_def slots_new_def sum_list_replicate list_all_iff
        split: if_splits intro!: exI [of _ "{}"])
qed

section \<open>Theorems\<close>

lemma side_ok_done:
  assumes "side_ok taken left n s ts" and "list_all (\<lambda>t. t = LDone) ts" and "taken LDone = []" and "left LDone = 0"
  shows "list_all (\<lambda>t. t \<noteq> None) (sl_times s)"
proof -
  have all: "\<forall>t \<in> set ts. t = LDone" using assms(2) by (simp add: list_all_iff)
  then have z: "concat (map taken ts) = []" "sum_list (map left ts) = 0" "\<not> list_ex failing ts"
    using assms(3,4) by (auto simp: list_ex_iff)
  with assms(1) have "slots_ok s [] {}" "int (length (sl_times s)) - 1 \<le> sl_ops s" by (auto simp: side_ok_def)
  then show ?thesis by (rule slots_ok_complete)
qed

text \<open>
  In every interleaving of its goroutines the tool that measures creations writes no element out of
  range and none twice; when all goroutines have ended without an error every element was measured.
\<close>

theorem createperf_measures:
  assumes "createperf_new N p = Returns s0" and "rtranclp createperf_step s0 s"
  shows "\<not> sl_panicked (cp_slots s) \<and> distinct (sl_writes (cp_slots s)) \<and>
    (list_all (\<lambda>t. t = CDone) (cp_threads s) \<longrightarrow> cp_threads s \<noteq> [] \<longrightarrow> list_all (\<lambda>t. t \<noteq> None) (sl_times (cp_slots s)))"
proof -
  from createperf.reachable_inv [OF createperf_new_inv [OF assms(1)] assms(2)]
  obtain lost where N: "length (sl_times (cp_slots s)) = nat N" and D: "CDone \<in> set (cp_threads s) \<Longrightarrow> int (nat N) \<le> sl_ops (cp_slots s)"
    and ok: "slots_ok (cp_slots s) (createperf_pending s) lost" and L: "lost \<noteq> {} \<Longrightarrow> CFailed \<in> set (cp_threads s)"
    by (auto simp: createperf_inv_def)
  have "list_all (\<lambda>t. t \<noteq> None) (sl_times (cp_slots s))" if all: "list_all (\<lambda>t. t = CDone) (cp_threads s)" and "cp_threads s \<noteq> []"
  proof (rule slots_ok_complete)
    have "\<forall>t \<in> set (cp_threads s). t = CDone" using all by (simp add: list_all_iff)
    then have "createperf_pending s = []" "lost = {}" using L by (auto simp: createperf_pending_def)
    then show "slots_ok (cp_slots s) [] {}" using ok by simp
    have "CDone \<in> set (cp_threads s)" using all that(2) by (cases "cp_threads s") auto
    from D [OF this] N show "int (length (sl_times (cp_slots s))) - 1 \<le> sl_ops (cp_slots s)" by simp
  qed
  with ok show ?thesis by (auto simp: slots_ok_def)
qed

text \<open>
  In every interleaving of its goroutines the tool that measures the lifecycle writes no element
  of its two slices out of range and none twice, although it does not check the indices; when all
  goroutines have ended without an error every element of both slices was measured.
\<close>

theorem lifecycleperf_measures:
  assumes "lifecycleperf_new (int N) p = Returns s0" and "rtranclp (lifecycleperf_step N) s0 s"
  shows "\<not> sl_panicked (lp_pause s) \<and> \<not> sl_panicked (lp_unpause s) \<and>
    distinct (sl_writes (lp_pause s)) \<and> distinct (sl_writes (lp_unpause s)) \<and>
    (list_all (\<lambda>t. t = LDone) (lp_threads s) \<longrightarrow>
       list_all (\<lambda>t. t \<noteq> None) (sl_times (lp_pause s)) \<and> list_all (\<lambda>t. t \<noteq> None) (sl_times (lp_unpause s)))"
proof -
  from lifecycleperf.reachable_inv [OF lifecycleperf_new_inv [OF assms(1)] assms(2)]
  have p: "side_ok pausing (pauses_left N) (N * nat p) (lp_pause s) (lp_threads s)"
    and u: "side_ok unpausing (unpauses_left N) (N * nat p) (lp_unpause s) (lp_threads s)" by (simp_all add: lifecycleperf_inv_def)
  from side_ok_done [OF p] side_ok_done [OF u] p u show ?thesis by (auto simp: side_ok_def slots_ok_def)
qed

text \<open>One goroutine with one round.\<close>

theorem lifecycleperf_measures_witness:
  "\<exists>s. rtranclp (lifecycleperf_step 1) \<lparr>lp_pause = slots_new 1, lp_unpause = slots_new 1, lp_threads = [LCreating]\<rparr> s
     \<and> lp_threads s = [LDone] \<and> list_all (\<lambda>t. t \<noteq> None) (sl_times (lp_pause s)) \<and> list_all (\<lambda>t. t \<noteq> None) (sl_times (lp_unpause s))"
proof -
  let ?w = "\<lambda>t. \<lparr>sl_ops = 0, sl_times = [Some t], sl_panicked = False, sl_writes = [0]\<rparr>"
  let ?t = "(slots_new 1)\<lparr>sl_ops := 0\<rparr>"
  let ?s = "\<lambda>p u t. \<lparr>lp_pause = p, lp_unpause = u, lp_threads = [t]\<rparr>"
  note step = lifecycleperf_step.intros [where i = 0 and N = 1]
  have "lifecycleperf_step 1 (?s (slots_new 1) (slots_new 1) LCreating) (?s (slots_new 1) (slots_new 1) (LLoop 0))"
    using step(1) [of "?s (slots_new 1) (slots_new 1) LCreating"] by (simp add: set_life_def)
  moreover have "lifecycleperf_step 1 (?s (slots_new 1) (slots_new 1) (LLoop 0)) (?s ?t (slots_new 1) (LPausing 0 0))"
    using step(3) [of "?s (slots_new 1) (slots_new 1) (LLoop 0)" 0 0 ?t] by (simp add: set_life_def next_index_def slots_new_def)
  moreover have "lifecycleperf_step 1 (?s ?t (slots_new 1) (LPausing 0 0)) (?s (?w 7) (slots_new 1) (LPaused 0))"
    using step(4) [of "?s ?t (slots_new 1) (LPausing 0 0)" 0 0 7] by (simp add: set_life_def store_time_def slots_new_def)
  moreover have "lifecycleperf_step 1 (?s (?w 7) (slots_new 1) (LPaused 0)) (?s (?w 7) ?t (LUnpausing 0 0))"
    using step(6) [of "?s (?w 7) (slots_new 1) (LPaused 0)" 0 0 ?t] by (simp add: set_life_def next_index_def slots_new_def)
  moreover have "lifecycleperf_step 1 (?s (?w 7) ?t (LUnpausing 0 0)) (?s (?w 7) (?w 9) (LLoop 1))"
    using step(7) [of "?s (?w 7) ?t (LUnpausing 0 0)" 0 0 9] by (simp add: set_life_def store_time_def slots_new_def)
  moreover have "lifecycleperf_step 1 (?s (?w 7) (?w 9) (LLoop 1)) (?s (?w 7) (?w 9) (LRemoving True))"
    using step(9) [of "?s (?w 7) (?w 9) (LLoop 1)" 1] by (simp add: set_life_def)
  moreover have "lifecycleperf_step 1 (?s (?w 7) (?w 9) (LRemoving True)) (?s (?w 7) (?w 9) LDone)"
    using step(10) [of "?s (?w 7) (?w 9) (LRemoving True)" True] by (simp add: set_life_def)
  ultimately have run: "rtranclp (lifecycleperf_step 1) (?s (slots_new 1) (slots_new 1) LCreating) (?s (?w 7) (?w 9) LDone)"
    by (meson converse_rtranclp_into_rtranclp rtranclp.rtrancl_refl)
  from lifecycleperf_measures [OF _ run, of 1] run show ?thesis
    by (intro exI [of _ "?s (?w 7) (?w 9) LDone"]) (simp add: lifecycleperf_new_def)
qed

end
