(* ===== verification/Perf_Tools.thy ===== *)
theory Perf_Tools
  imports Perf Docker
begin

text \<open>
  The \<open>main\<close> functions of \<open>cmd/createperf\<close> and \<open>cmd/lifecycleperf\<close>: the environment, the flags, the docker client and the factory, up
  to the goroutines of the theory \<open>Perf\<close>, and the report at the end. Reading the environment, parsing the flags and
  connecting to docker are parameters; both tools do the same with them.
\<close>

section \<open>Setting up\<close>

record PerfFlags =
  fl_n :: int
  fl_threads :: int
  fl_runtime :: string

text \<open>The defaults that the flags are declared with; both tools have the same.\<close>

definition perf_flags :: PerfFlags where
  "perf_flags = \<lparr>fl_n = 20, fl_threads = 1, fl_runtime = ''nodejs:default''\<rparr>"

record PerfOps =
  po_Process :: "RuntimeManifests result"
  po_Parse :: "PerfFlags \<Rightarrow> PerfFlags"
  po_NewClient :: "go_error option"

definition perf_factory :: "RuntimeManifests \<Rightarrow> ContainerFactory" where
  "perf_factory manifests =
     \<lparr>cf_RuntimeManifests = manifests, cf_APIHost = '''', cf_DNSServers = [], cf_Network = ''functions'', cf_UsableIPs = perf_usableIPs\<rparr>"

definition perf_setup :: "PerfOps \<Rightarrow> (PerfFlags \<times> ContainerFactory) outcome" where
  "perf_setup ops =
     (case po_Process ops of
        Inl err \<Rightarrow> Panics (err_text err)
      | Inr manifests \<Rightarrow>
          (let flags = po_Parse ops perf_flags in
           case po_NewClient ops of
             Some err \<Rightarrow> Panics (err_text err)
           | None \<Rightarrow> Returns (flags, perf_factory manifests)))"

text \<open>The two lines that are printed before the goroutines start.\<close>

definition perf_banner :: "PerfFlags \<Rightarrow> string list" where
  "perf_banner flags = [''N       = '' @ fmt_i (fl_n flags), ''Threads = '' @ fmt_i (fl_threads flags)]"

definition createperf_main :: "PerfOps \<Rightarrow> (string list \<times> ContainerFactory \<times> CreatePerf) outcome" where
  "createperf_main ops =
     (case perf_setup ops of
        Panics m \<Rightarrow> Panics m
      | Blocks \<Rightarrow> Blocks
      | Returns (flags, factory) \<Rightarrow>
          (case createperf_new (fl_n flags) (fl_threads flags) of
             Panics m \<Rightarrow> Panics m
           | Blocks \<Rightarrow> Blocks
           | Returns s \<Rightarrow> Returns (perf_banner flags, factory, s)))"

definition lifecycleperf_main :: "PerfOps \<Rightarrow> (string list \<times> ContainerFactory \<times> LifecyclePerf) outcome" where
  "lifecycleperf_main ops =
     (case perf_setup ops of
        Panics m \<Rightarrow> Panics m
      | Blocks \<Rightarrow> Blocks
      | Returns (flags, factory) \<Rightarrow>
          (case lifecycleperf_new (fl_n flags) (fl_threads flags) of
             Panics m \<Rightarrow> Panics m
           | Blocks \<Rightarrow> Blocks
           | Returns s \<Rightarrow> Returns (perf_banner flags, factory, s)))"

section \<open>Ending\<close>

text \<open>
  \<open>grp.Wait\<close> returns when all goroutines have; its error panics. The slice starts with zeros, so that an element that
  was not written is reported as zero.
\<close>

definition measured :: "slots \<Rightarrow> int list" where
  "measured s = map (\<lambda>t. case t of None \<Rightarrow> 0 | Some x \<Rightarrow> x) (sl_times s)"

definition createperf_end :: "'f StatsOps \<Rightarrow> go_error \<Rightarrow> CreatePerf \<Rightarrow> (string \<times> 'f) list outcome" where
  "createperf_end ops err s =
     (if list_ex (\<lambda>t. t = CFailed) (cp_threads s) then Panics (err_text err)
      else createperf_report ops (measured (cp_slots s)))"

definition lifecycleperf_end :: "'f StatsOps \<Rightarrow> go_error \<Rightarrow> LifecyclePerf \<Rightarrow> (string \<times> 'f) list outcome" where
  "lifecycleperf_end ops err s =
     (if list_ex (\<lambda>t. t = LFailed) (lp_threads s) then Panics (err_text err)
      else lifecycleperf_report ops (measured (lp_pause s)) (measured (lp_unpause s)))"

section \<open>Properties\<close>

lemma perf_usableIPs_distinct: "distinct perf_usableIPs \<and> length perf_usableIPs = 243"
proof -
  have "distinct perf_usableIPs" unfolding perf_usableIPs_def by (rule distinct_numbered)
  moreover have "length perf_usableIPs = 255 - 12" by (simp only: perf_usableIPs_def length_map length_upt)
  ultimately show ?thesis by simp
qed

lemma createperf_mainD:
  assumes "createperf_main ops = Returns (banner, factory, s)"
  shows "createperf_new (fl_n (po_Parse ops perf_flags)) (fl_threads (po_Parse ops perf_flags)) = Returns s" and "distinct (cf_UsableIPs factory)" and "length (cf_UsableIPs factory) = 243"
  using assms perf_usableIPs_distinct
  by (auto simp: createperf_main_def perf_setup_def perf_factory_def Let_def split: outcome.splits sum.splits option.splits)

lemma lifecycleperf_mainD:
  assumes "lifecycleperf_main ops = Returns (banner, factory, s)"
  shows "lifecycleperf_new (fl_n (po_Parse ops perf_flags)) (fl_threads (po_Parse ops perf_flags)) = Returns s"
    and "distinct (cf_UsableIPs factory)" and "length (cf_UsableIPs factory) = 243"
  using assms perf_usableIPs_distinct
  by (auto simp: lifecycleperf_main_def perf_setup_def perf_factory_def Let_def split: outcome.splits sum.splits option.splits)

text \<open>
  A run without a failing goroutine reports the statistics of real measurements: when \<open>lifecycleperf\<close> has started and all of
  its goroutines have ended without an error, its report is made from two full slices of measured times, as many
  as rounds times threads, and its containers never had to share an address.
\<close>

theorem lifecycleperf_reports_measurements:
  assumes "lifecycleperf_main ops = Returns (banner, factory, s0)" and "0 \<le> fl_n (po_Parse ops perf_flags)"
    and "rtranclp (lifecycleperf_step (nat (fl_n (po_Parse ops perf_flags)))) s0 s" and "list_all (\<lambda>t. t = LDone) (lp_threads s)"
  shows "lifecycleperf_end stats err s = lifecycleperf_report stats (measured (lp_pause s)) (measured (lp_unpause s))
    \<and> map Some (measured (lp_pause s)) = sl_times (lp_pause s) \<and> map Some (measured (lp_unpause s)) = sl_times (lp_unpause s)
    \<and> length (measured (lp_pause s)) = nat (fl_n (po_Parse ops perf_flags)) * nat (fl_threads (po_Parse ops perf_flags))
    \<and> distinct (cf_UsableIPs factory)"
proof -
  let ?N = "nat (fl_n (po_Parse ops perf_flags))"
  have new: "lifecycleperf_new (int ?N) (fl_threads (po_Parse ops perf_flags)) = Returns s0"
    using lifecycleperf_mainD(1) [OF assms(1)] assms(2) by simp
  from lifecycleperf.reachable_inv [OF lifecycleperf_new_inv [OF new] assms(3)]
  have p: "side_ok pausing (pauses_left ?N) (?N * nat (fl_threads (po_Parse ops perf_flags))) (lp_pause s) (lp_threads s)"
    and u: "side_ok unpausing (unpauses_left ?N) (?N * nat (fl_threads (po_Parse ops perf_flags))) (lp_unpause s) (lp_threads s)"
    by (simp_all add: lifecycleperf_inv_def)
  have full: "map Some (measured x) = sl_times x" if "list_all (\<lambda>t. t \<noteq> None) (sl_times x)" for x
    using that by (auto simp: measured_def list_all_iff intro!: map_idI)
  have "\<not> list_ex (\<lambda>t. t = LFailed) (lp_threads s)" using assms(4) by (auto simp: list_all_iff list_ex_iff)
  moreover have "length (measured (lp_pause s)) = ?N * nat (fl_threads (po_Parse ops perf_flags))"
    using p by (simp add: side_ok_def measured_def)
  ultimately show ?thesis
    using full [OF side_ok_done [OF p assms(4)]] full [OF side_ok_done [OF u assms(4)]] lifecycleperf_mainD(2) [OF assms(1)]
    by (simp add: lifecycleperf_end_def)
qed

end
