(* ===== verification/Spec2Isabelle.thy ===== *)
theory Spec2Isabelle
  imports Pool_Ownership Invoker Entities_Properties Function_Cache Couchdb_Properties Firewall_Properties
    Log_Streams Billing Lifecycle Startup Perf_Tools
begin

text \<open>
  A verification development of the functions invoker.

  \<^bold>\<open>The program.\<close> An invoker runs serverless functions in docker containers. Messages from controllers arrive
  over Kafka or HTTP (\<open>pkg/kafka\<close>, \<open>pkg/http\<close>); the runner (\<open>pkg/runner\<close>) reads the function from CouchDB through a
  cache (\<open>pkg/couchdb\<close>, \<open>pkg/entities\<close>), takes a container from the pool (\<open>pkg/exec\<close>), which has it created by the
  docker factory (\<open>pkg/exec/docker\<close>), initialises and runs the function in it, collects its logs, gives the
  container back or has it destroyed, and hands the activation to a batcher that writes it to the database. The
  front end acknowledges to the controller. A firewall (\<open>pkg/firewall\<close>) is reconciled in the background.
  \<open>cmd/invoker/main.go\<close> wires everything and shuts it down again.

  \<^bold>\<open>How the code is modelled.\<close> Each theory follows one package in the order of its source. Structs are records, sizes
  are \<open>64 word\<close> and wrap around, durations and times are integers in nanoseconds, an error is a value of \<open>go_error\<close> (a tree, so that
  \<open>errors.Is\<close> and \<open>errors.As\<close> can be followed), a fallible function returns \<open>go_error + 'a\<close>, a panic or a
  deadlock is a value of \<open>outcome\<close>. A Go map is an association list with an arbitrary order of iteration given as a
  parameter. Sequential code is a function on an explicit state; goroutines that share state are step relations
  whose steps are the atomic sections of the code (a critical section, a channel operation, one call).
  An interface value is a record of functions on a world of arbitrary type; everything outside the repository (the docker
  client, the Kafka, CouchDB, Kubernetes and HTTP libraries, AES-GCM, the JSON library, the LRU cache, the weighted semaphore, the
  system clock) is such a parameter, and what a theorem needs of it is a hypothesis with its own witness.

  \<^bold>\<open>Foundations.\<close>
  \<^item> \<open>Prelude\<close>: Go's types and the functions of \<open>strings\<close>, \<open>bytes\<close>, \<open>strconv\<close> that the code uses, with shared lemmas;
    \<open>Go_Errors\<close>: error trees; \<open>Transition\<close>: the locales \<open>call_system\<close>, \<open>transition_system\<close>, \<open>safe_system\<close>,
    \<open>terminating_system\<close> (no infinite run, whatever the schedule) and \<open>step_refinement\<close> that the state machines below interpret.
  \<^item> \<open>Units\<close>, \<open>Float64\<close>, \<open>Billing\<close> (\<open>pkg/units/units.go\<close>): byte sizes, printing and parsing (a round trip, and the
    wrap-around of the parser), IEEE 754 rounding, and the billing formula, shown to be the exact one rounded once.
  \<^item> \<open>Support\<close> (\<open>pkg/clock\<close>, \<open>pkg/logging\<close>, \<open>pkg/tls\<close>): clocks behind the locale \<open>passive_clock\<close>, log levels, the
    event of a context, the TLS configuration.

  \<^bold>\<open>Containers.\<close>
  \<^item> \<open>Container\<close>, \<open>Runtimes\<close> (\<open>pkg/exec/container.go\<close>, \<open>payload.go\<close>, \<open>runtimes.go\<close>): the interfaces, payloads and runtime
    manifests; what a decoded manifest gives for every kind, default and other name.
  \<^item> \<open>Pool\<close> (\<open>pkg/exec/pool.go\<close>): every operation and background goroutine as a function. \<open>Pool_Invariant\<close>, \<open>Pool_Prewarm\<close> and
    \<open>Pool_System\<close> carry the invariant through each of them, \<open>Pool_Properties\<close> has the theorems for every sequence of calls:
    the memory budget, exclusive ownership, order of the idle lists, eviction, reaping, prewarming, the error paths
    and the panic of a shutdown. \<open>Pool_Interleaving\<close> splits the operations at their locks (\<open>pool_lstep\<close>, whose label
    says which container a step has created and which ones it removes): space is always found, the
    counters stay exact, and the budget can be exceeded by a stale snapshot. \<open>Shutdown\<close> is a function with one schedule of
    the two goroutines it ends, in which the panic shows; it is no step of the interleaved pool.
  \<^item> \<open>Docker\<close>, \<open>Docker_Properties\<close>, \<open>Log_Streams\<close> (\<open>pkg/exec/docker/container.go\<close>): requests with their limit, the pool of addresses
    (locale \<open>address_pool\<close>), polling with a \<open>select\<close> that may choose the ticker when the context is done as well, retries, the protocol of pausing, and the
    goroutines of the log streams, which deliver what they read in order and, once the connection is closed, end and let \<open>Remove\<close>
    return under every schedule. The memory limits given to docker wrap around as \<open>int64\<close>.
  \<^item> \<open>Pool_Addresses\<close>: the pool over the docker factory through the locale \<open>address_provider\<close>: no two containers share an
    address, whatever fails. \<open>Pool_Ownership\<close>: the same and exclusive ownership for the interleaved pool, with calls of
    \<open>CreateContainer\<close> and \<open>Remove\<close> under way at any time and nothing assumed of the pool's steps, only that docker gives a new
    container a fresh ID; and the calls of the pool can always finish.

  \<^bold>\<open>Messages and entities.\<close>
  \<^item> \<open>Protocol\<close>, \<open>Activation_Message\<close> (\<open>pkg/protocol\<close>), \<open>Base64\<close>, \<open>Encryption\<close> (\<open>pkg/encryption\<close>): messages, acknowledgements, the parser with decryption and the
    partition of the parameters (\<open>Get\<close> of the JSON library on a nil object, which the source calls when a message has no
    \<open>lockedArgs\<close>, is a parameter that may return or panic); base64 behind the locale \<open>base64_alphabet\<close>, decryption as a round trip.
  \<^item> \<open>Entities\<close>, \<open>Entities_Properties\<close>, \<open>Function_Cache\<close> (\<open>pkg/entities\<close>): activations, annotations, limits, code and the cache, which
    refines reading from the database in every interleaving, shares reads up to evictions and lets every call end.
  \<^item> \<open>Couchdb\<close>, \<open>Couchdb_Properties\<close>, \<open>Batcher\<close> (\<open>pkg/couchdb\<close>): the client with its retries, and what it returns tied to the answers of the database; the
    batcher refines a bag of documents, writes each exactly once, in bounded batches, and can always complete a shutdown.

  \<^bold>\<open>The invoker.\<close>
  \<^item> \<open>Runner\<close>, \<open>Runner_Properties\<close> (\<open>pkg/runner/runner.go\<close>): \<open>Invoke\<close> with its deferred functions and the collection of logs: the life
    of a container within an invocation, consistent responses, logs equal to a reference.
  \<^item> \<open>Frontends\<close>, \<open>Kafka\<close> (\<open>pkg/kafka\<close>, \<open>pkg/http\<close>): a message is acknowledged once, with the outcome of its one invocation.
  \<^item> \<open>Invoker\<close>: front end, runner and pool composed through the locale \<open>container_lender\<close>: no container stays handed out.
  \<^item> \<open>Workers\<close>, \<open>Startup\<close>, \<open>Lifecycle\<close> (\<open>cmd/invoker/main.go\<close>): the workers' shared state, the construction of all components from the
    configuration with the routes of the server, and the shutdown, which is graceful in every interleaving.
  \<^item> \<open>Firewall\<close>, \<open>Firewall_Properties\<close> (\<open>pkg/firewall\<close>): reconciliation down to the text, refined to the table of rules it builds.
  \<^item> \<open>Perf\<close>, \<open>Perf_Tools\<close> (\<open>cmd/createperf\<close>, \<open>cmd/lifecycleperf\<close>): the concurrent measurements and the two \<open>main\<close> functions.

  \<^bold>\<open>Bounds.\<close> Two loops end only through the deadline of a context and have fuel, \<open>pollUntilResponding\<close> and
  \<open>retry_request\<close>; \<open>Docker_Properties\<close> and \<open>Couchdb_Properties\<close> show that fuel above the time left before the
  deadline gives the result, from the facts that time passes in requests or waits and that the context is done after its deadline. All other functions are total. Memory sizes are below \<open>2 ^ 63\<close> where the code
  converts them to signed numbers. Durations in \<open>Billing\<close> are below \<open>2 ^ 52\<close> ns, beyond which \<open>float64\<close> no longer
  separates the quanta.

  \<^bold>\<open>Not modelled.\<close> The mocks (generated for the tests), the Prometheus metrics and log lines (nothing reads them back), the set-up of the loggers,
  flag parsing, and non-ASCII case folding in the parsers of sizes and log levels. JSON
  is modelled as values, not as text, except where the code itself builds text. The pool's operations are interleaved at the
  granularity of its locks and the processes of \<open>Lifecycle\<close> at the granularity of the shared resources; the two are not merged into
  one relation.
\<close>

end
